(* ===== verification/Prelude.thy ===== *)
theory Prelude
  imports Main "HOL-Library.Word"
begin

text \<open>
  Shared vocabulary of the development: how a Go call can end (\<open>outcome\<close>), bytes and the
  big-endian integers of \<open>encoding/binary\<close>, Go's 64-bit signed arithmetic, slices, and the
  generic list lemmas the component theories use.  Lemmas about the wire format are collected
  under \<open>wire_simps\<close>.
\<close>

unbundle bit_operations_syntax

named_theorems wire_simps \<open>byte-level facts about big-endian integers\<close>

section \<open>How a Go call ends\<close>

text \<open>
  A Go call returns a value, returns a non-nil \<open>error\<close>, panics, or never returns (for instance
  because it waits for a mutex nobody will release).
\<close>

datatype ('e, 'a) outcome = Ok 'a | Fail 'e | Panic string | Hang

fun returns :: "('e, 'a) outcome \<Rightarrow> bool" where
  "returns (Ok x) = True"
| "returns (Fail e) = True"
| "returns (Panic p) = False"
| "returns Hang = False"

text \<open>
  A call that also changes state is a pair of its outcome and the new state; \<open>and_then\<close> goes on
  with the next statement if the call returned without an error, as the code's
  \<open>if err != nil { return err }\<close> does.
\<close>

fun and_then ::
  "('e, 'a) outcome \<times> 's \<Rightarrow> ('a \<Rightarrow> 's \<Rightarrow> ('e, 'b) outcome \<times> 's) \<Rightarrow> ('e, 'b) outcome \<times> 's" where
  "and_then (Ok x, s) k = k x s"
| "and_then (Fail e, s) k = (Fail e, s)"
| "and_then (Panic p, s) k = (Panic p, s)"
| "and_then (Hang, s) k = (Hang, s)"

lemma and_then_Ok_iff:
  "and_then m k = (Ok y, s') \<longleftrightarrow> (\<exists>x s. m = (Ok x, s) \<and> k x s = (Ok y, s'))"
  by (cases "(m, k)" rule: and_then.cases) auto

lemma and_then_assoc:
  "and_then (and_then m k) l = and_then m (\<lambda>x s. and_then (k x s) l)"
  by (cases "(m, k)" rule: and_then.cases) auto

section \<open>Bytes and big-endian integers\<close>

type_synonym byte = "8 word"
type_synonym bytes = "8 word list"

text \<open>A 2w-bit word from its high and low halves, and the halves of a word.\<close>

definition join16 :: "byte \<Rightarrow> byte \<Rightarrow> 16 word" where
  "join16 h l = ucast l OR push_bit 8 (ucast h)"

definition join32 :: "16 word \<Rightarrow> 16 word \<Rightarrow> 32 word" where
  "join32 h l = ucast l OR push_bit 16 (ucast h)"

definition join64 :: "32 word \<Rightarrow> 32 word \<Rightarrow> 64 word" where
  "join64 h l = ucast l OR push_bit 32 (ucast h)"

definition hi16 :: "16 word \<Rightarrow> byte" where "hi16 v = ucast (drop_bit 8 v)"
definition lo16 :: "16 word \<Rightarrow> byte" where "lo16 v = ucast v"
definition hi32 :: "32 word \<Rightarrow> 16 word" where "hi32 v = ucast (drop_bit 16 v)"
definition lo32 :: "32 word \<Rightarrow> 16 word" where "lo32 v = ucast v"
definition hi64 :: "64 word \<Rightarrow> 32 word" where "hi64 v = ucast (drop_bit 32 v)"
definition lo64 :: "64 word \<Rightarrow> 32 word" where "lo64 v = ucast v"

lemma word8_bit: "bit (b :: 8 word) n \<Longrightarrow> n < 8"
  by (auto dest: bit_imp_le_length)

lemma word16_bit: "bit (b :: 16 word) n \<Longrightarrow> n < 16"
  by (auto dest: bit_imp_le_length)

lemma word32_bit: "bit (b :: 32 word) n \<Longrightarrow> n < 32"
  by (auto dest: bit_imp_le_length)

lemma halves16 [wire_simps]: "lo16 (join16 h l) = l" "hi16 (join16 h l) = h" "join16 (hi16 v) (lo16 v) = v"
  unfolding join16_def lo16_def hi16_def
  by (rule bit_word_eqI; auto simp: bit_simps not_less dest: word8_bit)+

lemma halves32 [wire_simps]: "lo32 (join32 h l) = l" "hi32 (join32 h l) = h" "join32 (hi32 v) (lo32 v) = v"
  unfolding join32_def lo32_def hi32_def
  by (rule bit_word_eqI; auto simp: bit_simps not_less dest: word16_bit)+

lemma halves64 [wire_simps]: "lo64 (join64 h l) = l" "hi64 (join64 h l) = h" "join64 (hi64 v) (lo64 v) = v"
  unfolding join64_def lo64_def hi64_def
  by (rule bit_word_eqI; auto simp: bit_simps not_less dest: word32_bit)+

text \<open>\<open>binary.BigEndian\<close>: \<open>Uint16\<close>, \<open>Uint32\<close>, \<open>Uint64\<close> and the \<open>Put\<close> functions.\<close>

definition be16 :: "byte \<Rightarrow> byte \<Rightarrow> 16 word" where
  "be16 b0 b1 = join16 b0 b1"

definition be32 :: "byte \<Rightarrow> byte \<Rightarrow> byte \<Rightarrow> byte \<Rightarrow> 32 word" where
  "be32 b0 b1 b2 b3 = join32 (be16 b0 b1) (be16 b2 b3)"

definition be64 :: "byte \<Rightarrow> byte \<Rightarrow> byte \<Rightarrow> byte \<Rightarrow> byte \<Rightarrow> byte \<Rightarrow> byte \<Rightarrow> byte \<Rightarrow> 64 word"
  where
  "be64 b0 b1 b2 b3 b4 b5 b6 b7 = join64 (be32 b0 b1 b2 b3) (be32 b4 b5 b6 b7)"

definition put_be16 :: "16 word \<Rightarrow> bytes" where
  "put_be16 v = [hi16 v, lo16 v]"

definition put_be32 :: "32 word \<Rightarrow> bytes" where
  "put_be32 v = put_be16 (hi32 v) @ put_be16 (lo32 v)"

definition put_be64 :: "64 word \<Rightarrow> bytes" where
  "put_be64 v = put_be32 (hi64 v) @ put_be32 (lo64 v)"

lemmas be_defs = be16_def be32_def be64_def put_be16_def put_be32_def put_be64_def

lemma length_put_be [simp]:
  "length (put_be16 v) = 2" "length (put_be32 w) = 4" "length (put_be64 x) = 8"
  by (simp_all add: be_defs)

text \<open>Writing an integer and reading the bytes back, and reading bytes and writing them back.\<close>

lemma put_be16_be16 [wire_simps]: "put_be16 (be16 b0 b1) = [b0, b1]"
  by (simp add: be_defs wire_simps)

lemma put_be32_be32 [wire_simps]: "put_be32 (be32 b0 b1 b2 b3) = [b0, b1, b2, b3]"
  by (simp add: be_defs wire_simps)

lemma put_be64_be64 [wire_simps]:
  "put_be64 (be64 b0 b1 b2 b3 b4 b5 b6 b7) = [b0, b1, b2, b3, b4, b5, b6, b7]"
  by (simp add: be_defs wire_simps)

lemma be16_put_append [wire_simps]:
  "be16 ((put_be16 v @ ys) ! 0) ((put_be16 v @ ys) ! 1) = v"
  by (simp add: be_defs wire_simps)

lemma be32_put_append [wire_simps]:
  "be32 ((put_be32 v @ ys) ! 0) ((put_be32 v @ ys) ! 1) ((put_be32 v @ ys) ! 2)
        ((put_be32 v @ ys) ! 3) = v"
  by (simp add: be_defs wire_simps)

lemma be64_put_append [wire_simps]:
  "be64 ((put_be64 v @ ys) ! 0) ((put_be64 v @ ys) ! 1) ((put_be64 v @ ys) ! 2)
        ((put_be64 v @ ys) ! 3) ((put_be64 v @ ys) ! 4) ((put_be64 v @ ys) ! 5)
        ((put_be64 v @ ys) ! 6) ((put_be64 v @ ys) ! 7) = v"
  by (simp add: be_defs wire_simps)

text \<open>Different integers have different bytes.\<close>

lemma put_be16_inj [simp]: "put_be16 v = put_be16 w \<longleftrightarrow> v = w"
  by (metis be16_put_append append_Nil2)

lemma put_be32_inj [simp]: "put_be32 v = put_be32 w \<longleftrightarrow> v = w"
  by (metis be32_put_append append_Nil2)

lemma put_be64_inj [simp]: "put_be64 v = put_be64 w \<longleftrightarrow> v = w"
  by (metis be64_put_append append_Nil2)

section \<open>Slices\<close>

text \<open>The Go slice \<open>xs[i:j]\<close>, for indices in range.\<close>

definition slice :: "nat \<Rightarrow> nat \<Rightarrow> 'a list \<Rightarrow> 'a list" where
  "slice i j xs = take (j - i) (drop i xs)"

lemma length_slice [simp]: "length (slice i j xs) = min (j - i) (length xs - i)"
  by (simp add: slice_def min.commute)

lemma slice_append_left [simp]: "j \<le> length xs \<Longrightarrow> slice i j (xs @ ys) = slice i j xs"
  by (simp add: slice_def)

lemma take_slice_split: "i \<le> j \<Longrightarrow> take j xs = take i xs @ slice i j xs"
  by (metis le_add_diff_inverse slice_def take_add)

lemma list_by_nth4: "length xs = 4 \<Longrightarrow> xs = [xs ! 0, xs ! 1, xs ! 2, xs ! 3]"
  by (auto simp: eval_nat_numeral length_Suc_conv)

lemma take_nth_expand: "n < length xs \<Longrightarrow> take (Suc n) xs = take n xs @ [xs ! n]"
  by (simp add: take_Suc_conv_app_nth)

section \<open>Go's int64\<close>

text \<open>
  \<open>wrap64\<close> is the value an \<open>int64\<close> holds after an operation whose mathematical result is its
  argument; \<open>go_quot\<close> is Go's integer division, which truncates towards zero.
\<close>

definition wrap64 :: "int \<Rightarrow> int" where
  "wrap64 x = (x + 2 ^ 63) mod 2 ^ 64 - 2 ^ 63"

definition go_quot :: "int \<Rightarrow> int \<Rightarrow> int" where
  "go_quot a b = sgn a * sgn b * (\<bar>a\<bar> div \<bar>b\<bar>)"

lemma wrap64_id: "- (2 ^ 63) \<le> x \<Longrightarrow> x < 2 ^ 63 \<Longrightarrow> wrap64 x = x"
  by (simp add: wrap64_def)

lemma wrap64_bounds: "- (2 ^ 63) \<le> wrap64 x" "wrap64 x < 2 ^ 63"
proof -
  have "0 \<le> (x + 2 ^ 63) mod 2 ^ 64" "(x + 2 ^ 63) mod 2 ^ 64 < 2 ^ 64"
    by simp_all
  then show "- (2 ^ 63) \<le> wrap64 x" "wrap64 x < 2 ^ 63"
    by (simp_all add: wrap64_def)
qed

lemma go_quot_nonneg: "0 \<le> a \<Longrightarrow> 0 < b \<Longrightarrow> go_quot a b = a div b"
  by (cases "a = 0") (simp_all add: go_quot_def)

end
