(* ===== verification/GoNumbers.thy ===== *)
theory GoNumbers
  imports Prelude
begin

text \<open>
  The parts of Go's \<open>strconv\<close> the program calls: \<open>ParseUint(s, 0, bits)\<close> with its base prefixes and
  underscores, and \<open>ParseInt(s, 10, 64)\<close>, which \<open>Atoi\<close> agrees with.  The accumulator of the library
  is a \<open>uint64\<close> whose overflow it reports as \<open>ErrRange\<close>; here it is a natural number compared with
  the same bound.
\<close>

datatype parse_error = ErrSyntax | ErrRange

section \<open>Digits\<close>

definition code_of :: "char \<Rightarrow> nat" where "code_of c = of_char c"

definition is_letter :: "char \<Rightarrow> bool" where
  "is_letter c \<longleftrightarrow> code_of c \<in> {65..90} \<or> code_of c \<in> {97..122}"

text \<open>\<open>strconv.lower\<close>, for letters\<close>

definition lower_code :: "char \<Rightarrow> nat" where
  "lower_code c = (if code_of c \<in> {65..90} then code_of c + 32 else code_of c)"

definition digit_value :: "char \<Rightarrow> nat option" where
  "digit_value c =
     (if code_of c \<in> {48..57} then Some (code_of c - 48)
      else if is_letter c then Some (lower_code c - 97 + 10)
      else None)"

fun parse_digits :: "nat \<Rightarrow> bool \<Rightarrow> nat \<Rightarrow> nat \<Rightarrow> string \<Rightarrow> parse_error + nat" where
  "parse_digits base base0 maxVal n [] = Inr n"
| "parse_digits base base0 maxVal n (c # cs) =
     (if c = CHR ''_'' \<and> base0 then parse_digits base base0 maxVal n cs
      else
        (case digit_value c of
           None \<Rightarrow> Inl ErrSyntax
         | Some d \<Rightarrow>
             if d \<ge> base then Inl ErrSyntax
             else if n * base + d > maxVal then Inl ErrRange
             else parse_digits base base0 maxVal (n * base + d) cs))"

lemma parse_digits_bound:
  "parse_digits base b0 maxVal n s = Inr m \<Longrightarrow> n \<le> maxVal \<Longrightarrow> m \<le> maxVal"
  by (induction base b0 maxVal n s rule: parse_digits.induct) (auto split: if_splits option.splits)

section \<open>\<open>ParseUint(s, 0, bits)\<close>\<close>

text \<open>The base and the digits after a prefix.\<close>

definition base_prefix :: "string \<Rightarrow> nat \<times> string" where
  "base_prefix s =
     (if hd s = CHR ''0'' then
        if 3 \<le> length s \<and> lower_code (s ! 1) = 98 then (2, drop 2 s)
        else if 3 \<le> length s \<and> lower_code (s ! 1) = 111 then (8, drop 2 s)
        else if 3 \<le> length s \<and> lower_code (s ! 1) = 120 then (16, drop 2 s)
        else (8, drop 1 s)
      else (10, s))"

text \<open>\<open>underscoreOK\<close>: underscores only between digits, a base prefix counting as a digit.\<close>

datatype under_state = Start | Digit | Under | Other

fun under_scan :: "bool \<Rightarrow> under_state \<Rightarrow> string \<Rightarrow> bool" where
  "under_scan hex i [] = (i \<noteq> Under)"
| "under_scan hex i (c # cs) =
     (if code_of c \<in> {48..57} \<or> (hex \<and> lower_code c \<in> {97..102}) then under_scan hex Digit cs
      else if c = CHR ''_'' then (if i \<noteq> Digit then False else under_scan hex Under cs)
      else if i = Under then False
      else under_scan hex Other cs)"

definition underscoreOK :: "string \<Rightarrow> bool" where
  "underscoreOK s =
     (let s = (if s \<noteq> [] \<and> (hd s = CHR ''-'' \<or> hd s = CHR ''+'') then drop 1 s else s) in
      if 2 \<le> length s \<and> hd s = CHR ''0'' \<and> lower_code (s ! 1) \<in> {98, 111, 120}
      then under_scan (lower_code (s ! 1) = 120) Digit (drop 2 s)
      else under_scan False Start s)"

definition ParseUint0 :: "nat \<Rightarrow> string \<Rightarrow> parse_error + nat" where
  "ParseUint0 bits s =
     (if s = [] then Inl ErrSyntax
      else
        (case base_prefix s of
           (base, digits) \<Rightarrow>
             (case parse_digits base True (2 ^ bits - 1) 0 digits of
                Inl e \<Rightarrow> Inl e
              | Inr n \<Rightarrow> if CHR ''_'' \<in> set digits \<and> \<not> underscoreOK s then Inl ErrSyntax else Inr n)))"

lemma ParseUint0_bound:
  assumes "ParseUint0 bits s = Inr n"
  shows "n < 2 ^ bits"
proof -
  from assms obtain base digits where "parse_digits base True (2 ^ bits - 1) 0 digits = Inr n"
    by (auto simp: ParseUint0_def split: if_splits prod.splits sum.splits)
  from parse_digits_bound [OF this] have "n \<le> 2 ^ bits - 1" by simp
  also have "\<dots> < 2 ^ bits" by simp
  finally show ?thesis .
qed

lemmas parse_eval = ParseUint0_def base_prefix_def digit_value_def lower_code_def is_letter_def
  code_of_def underscoreOK_def

section \<open>\<open>ParseInt(s, 10, 64)\<close> and \<open>Atoi\<close>\<close>

definition ParseInt10 :: "string \<Rightarrow> parse_error + int" where
  "ParseInt10 s =
     (if s = [] then Inl ErrSyntax
      else
        let neg = (hd s = CHR ''-'');
            digits = (if neg \<or> hd s = CHR ''+'' then drop 1 s else s) in
        if digits = [] then Inl ErrSyntax
        else
          (case parse_digits 10 False (2 ^ 64 - 1) 0 digits of
             Inl e \<Rightarrow> Inl e
           | Inr un \<Rightarrow>
               if \<not> neg \<and> un \<ge> 2 ^ 63 then Inl ErrRange
               else if neg \<and> un > 2 ^ 63 then Inl ErrRange
               else Inr (if neg then - int un else int un)))"

lemma ParseInt10_bounds:
  "ParseInt10 s = Inr n \<Longrightarrow> - (2 ^ 63) \<le> n \<and> n < 2 ^ 63"
  by (auto simp: ParseInt10_def Let_def split: if_splits sum.splits)

lemma parse_examples:
  "ParseUint0 16 ''0x0001'' = Inr 1" "ParseUint0 8 ''0b101'' = Inr 5" "ParseUint0 8 ''017'' = Inr 15"
  "ParseUint0 8 ''256'' = Inl ErrRange" "ParseUint0 8 ''1_0'' = Inr 10" "ParseUint0 8 ''1__0'' = Inl ErrSyntax"
  "ParseUint0 8 ''09'' = Inl ErrSyntax" "ParseInt10 ''-12'' = Inr (-12)" "ParseInt10 ''1_0'' = Inl ErrSyntax"
  by (simp_all add: parse_eval ParseInt10_def)

end
