(* ===== verification/GoFlag.thy ===== *)
theory GoFlag
  imports GoNumbers
begin

text \<open>
  The parts of Go's \<open>flag\<close> and \<open>strings\<close> packages the commands use: a \<open>FlagSet\<close> without boolean flags,
  and \<open>strings.Split\<close> at a single byte.
\<close>

section \<open>Split\<close>

fun Split :: "char \<Rightarrow> string \<Rightarrow> string list" where
  "Split c [] = [[]]"
| "Split c (x # xs) = (if x = c then [] # Split c xs else (x # hd (Split c xs)) # tl (Split c xs))"

lemma Split_nonempty [simp]: "Split c s \<noteq> []"
  by (cases s) simp_all

section \<open>Flag sets\<close>

text \<open>
  A flag set is a map from the names of its flags to the test a value must pass (\<open>Value.Set\<close>).
  \<open>parse_flags\<close> returns what was set, in order, and how \<open>Parse\<close> ended: at an error, or with the
  remaining arguments.  As in Go, an argument that is not a flag ends the flags, and so does \<open>--\<close>.
\<close>

type_synonym flag_set = "string \<rightharpoonup> (string \<Rightarrow> bool)"

datatype flag_error =
    BadSyntax string
  | HelpRequested
  | NotDefined string
  | NeedsArgument string
  | InvalidValue string string

datatype flag_arg =
    NoFlag
  | Terminator
  | BadFlag
  | Flag string "string option"

text \<open>How \<open>parseOne\<close> reads an argument.\<close>

definition flag_name :: "string \<Rightarrow> flag_arg" where
  "flag_name name =
     (if name = [] \<or> hd name = CHR ''-'' \<or> hd name = CHR ''='' then BadFlag
      else
        (case dropWhile (\<lambda>c. c \<noteq> CHR ''='') (tl name) of
           [] \<Rightarrow> Flag name None
         | eq # value \<Rightarrow> Flag (hd name # takeWhile (\<lambda>c. c \<noteq> CHR ''='') (tl name)) (Some value)))"

definition classify_arg :: "string \<Rightarrow> flag_arg" where
  "classify_arg s =
     (if length s < 2 \<or> hd s \<noteq> CHR ''-'' then NoFlag
      else if s ! 1 = CHR ''-'' then (if length s = 2 then Terminator else flag_name (drop 2 s))
      else flag_name (drop 1 s))"

definition set_flag :: "flag_set \<Rightarrow> string \<Rightarrow> string \<Rightarrow> flag_error option" where
  "set_flag formal name value =
     (case formal name of
        None \<Rightarrow> Some (if name = ''help'' \<or> name = ''h'' then HelpRequested else NotDefined name)
      | Some valid \<Rightarrow> if valid value then None else Some (InvalidValue name value))"

fun parse_flags :: "flag_set \<Rightarrow> string list \<Rightarrow> (string \<times> string) list \<times> flag_error option" where
  "parse_flags formal [] = ([], None)"
| "parse_flags formal (s # args) =
     (case classify_arg s of
        NoFlag \<Rightarrow> ([], None)
      | Terminator \<Rightarrow> ([], None)
      | BadFlag \<Rightarrow> ([], Some (BadSyntax s))
      | Flag name (Some value) \<Rightarrow>
          (case set_flag formal name value of
             Some e \<Rightarrow> ([], Some e)
           | None \<Rightarrow> (case parse_flags formal args of (xs, e) \<Rightarrow> ((name, value) # xs, e)))
      | Flag name None \<Rightarrow>
          if formal name = None then ([], set_flag formal name [])
          else
            (case args of
               [] \<Rightarrow> ([], Some (NeedsArgument name))
             | value # args \<Rightarrow>
                 (case set_flag formal name value of
                    Some e \<Rightarrow> ([], Some e)
                  | None \<Rightarrow> (case parse_flags formal args of (xs, e) \<Rightarrow> ((name, value) # xs, e)))))"

text \<open>The value of a flag, the last setting winning; \<open>Visit\<close> sees the flags that were set.\<close>

definition flag_value :: "(string \<times> string) list \<Rightarrow> string \<Rightarrow> string option" where
  "flag_value xs name = map_of (rev xs) name"

lemma flag_set_valid:
  assumes "parse_flags formal args = (xs, e)" and "flag_value xs name = Some v"
  shows "\<exists>valid. formal name = Some valid \<and> valid v"
proof -
  have "(name, v) \<in> set xs \<Longrightarrow> parse_flags formal args = (xs, e) \<Longrightarrow>
      \<exists>valid. formal name = Some valid \<and> valid v" for xs e
  proof (induction formal args arbitrary: xs e rule: parse_flags.induct)
    case (2 formal s args)
    then show ?case
      by (auto simp: set_flag_def split: flag_arg.splits option.splits list.splits prod.splits if_splits)
  qed simp
  moreover have "(name, v) \<in> set xs" using assms(2) by (auto simp: flag_value_def dest: map_of_SomeD)
  ultimately show ?thesis using assms(1) by blast
qed

lemma parse_flag_examples:
  "parse_flags [''config'' \<mapsto> (\<lambda>_. True)] [''-config'', ''a'', ''--config=b=c'', ''x''] =
     ([(''config'', ''a''), (''config'', ''b=c'')], None)"
  "parse_flags [''config'' \<mapsto> (\<lambda>_. True)] [''-addr'', ''a'', ''-config'', ''b''] =
     ([], Some (NotDefined ''addr''))"
  "parse_flags [''config'' \<mapsto> (\<lambda>_. True)] [''-config''] = ([], Some (NeedsArgument ''config''))"
  by (simp_all add: classify_arg_def flag_name_def set_flag_def)

end
