(* ===== verification/Streaming.thy ===== *)
theory Streaming
  imports Prelude "HOL-Library.Sublist"
begin

text \<open>
  The interface of a length-prefixed decoder over a byte stream, as the connection handler uses
  it: on a buffer the decoder reports an error, asks for more input, or returns a frame and the
  number of elements it took.  \<open>drain\<close> is what a reader that keeps calling it on the rest of its
  buffer extracts; \<open>drain_chunks\<close> is a reader that receives its input in pieces.  The locale
  states the laws a decoder must keep for the pieces not to matter, and proves that they do not.
\<close>

section \<open>Draining a buffer\<close>

function drain ::
  "('b list \<Rightarrow> 'e + ('f \<times> nat) option) \<Rightarrow> 'b list \<Rightarrow> 'f list \<times> 'e option \<times> 'b list"
  where
  "drain dec xs =
     (case dec xs of
        Inl e \<Rightarrow> ([], Some e, xs)
      | Inr None \<Rightarrow> ([], None, xs)
      | Inr (Some (f, n)) \<Rightarrow>
          if n = 0 \<or> length xs < n then ([], None, xs)
          else (let (fs, e, rest) = drain dec (drop n xs) in (f # fs, e, rest)))"
  by pat_completeness auto
termination
  by (relation "measure (\<lambda>(dec, xs). length xs)") auto

declare drain.simps [simp del]

text \<open>A reader that appends each chunk to what is left over and stops at the first error.\<close>

fun drain_chunks ::
  "('b list \<Rightarrow> 'e + ('f \<times> nat) option) \<Rightarrow> 'b list \<Rightarrow> 'b list list \<Rightarrow> 'f list \<times> 'e option \<times> 'b list"
  where
  "drain_chunks dec buf [] = ([], None, buf)"
| "drain_chunks dec buf (c # cs) =
     (case drain dec (buf @ c) of
        (fs, Some e, rest) \<Rightarrow> (fs, Some e, rest @ concat cs)
      | (fs, None, rest) \<Rightarrow>
          (let (gs, e, rest') = drain_chunks dec rest cs in (fs @ gs, e, rest')))"

section \<open>The decoder interface\<close>

locale stream_decoder =
  fixes dec :: "'b list \<Rightarrow> 'e + ('f \<times> nat) option"
  assumes dec_bounds: "dec xs = Inr (Some (f, n)) \<Longrightarrow> 0 < n \<and> n \<le> length xs"
    and dec_frame_append: "dec xs = Inr (Some (f, n)) \<Longrightarrow> dec (xs @ ys) = Inr (Some (f, n))"
    and dec_error_append: "dec xs = Inl e \<Longrightarrow> dec (xs @ ys) = Inl e"
begin

lemma drain_frame:
  assumes "dec xs = Inr (Some (f, n))"
  shows "drain dec xs = (let (fs, e, rest) = drain dec (drop n xs) in (f # fs, e, rest))"
  using dec_bounds [OF assms] by (subst drain.simps) (simp add: assms)

lemma drain_error: "dec xs = Inl e \<Longrightarrow> drain dec xs = ([], Some e, xs)"
  by (simp add: drain.simps)

lemma drain_wait: "dec xs = Inr None \<Longrightarrow> drain dec xs = ([], None, xs)"
  by (simp add: drain.simps)

lemmas drain_cases = drain_frame drain_error drain_wait

text \<open>Nothing is left that could still be decoded, and what was decoded was a prefix.\<close>

lemma drain_rest:
  "drain dec xs = (fs, None, rest) \<Longrightarrow> dec rest = Inr None \<and> (\<exists>ys. xs = ys @ rest)"
proof (induction dec\<equiv>dec xs arbitrary: fs rest rule: drain.induct)
  case (1 xs)
  show ?case
  proof (cases "dec xs")
    case (Inl e)
    with "1.prems" show ?thesis by (simp add: drain_error)
  next
    case (Inr r)
    show ?thesis
    proof (cases r)
      case None
      with Inr "1.prems" show ?thesis by (auto simp: drain_wait)
    next
      case (Some p)
      obtain f n where p: "p = (f, n)" by (cases p)
      with Inr Some have dec: "dec xs = Inr (Some (f, n))" by simp
      obtain fs' where tail: "drain dec (drop n xs) = (fs', None, rest)"
        using "1.prems" by (auto simp: drain_frame [OF dec] split: prod.splits)
      have n: "\<not> (n = 0 \<or> length xs < n)" using dec_bounds [OF dec] by auto
      from "1.hyps" [OF Inr Some p [symmetric] n tail]
      obtain ys where "dec rest = Inr None" "drop n xs = ys @ rest" by blast
      then show ?thesis
        by (metis append.assoc append_take_drop_id)
    qed
  qed
qed

text \<open>Draining a longer buffer continues where draining the shorter one stopped.\<close>

lemma drain_append:
  "drain dec (xs @ ys) =
     (case drain dec xs of
        (fs, Some e, rest) \<Rightarrow> (fs, Some e, rest @ ys)
      | (fs, None, rest) \<Rightarrow>
          (let (gs, e, rest') = drain dec (rest @ ys) in (fs @ gs, e, rest')))"
proof (induction dec\<equiv>dec xs rule: drain.induct)
  case (1 xs)
  show ?case
  proof (cases "dec xs")
    case (Inl e)
    then show ?thesis by (simp add: drain_error dec_error_append)
  next
    case (Inr r)
    show ?thesis
    proof (cases r)
      case None
      with Inr show ?thesis by (simp add: drain_wait split: prod.splits)
    next
      case (Some p)
      obtain f n where p: "p = (f, n)" by (cases p)
      with Inr Some have dec: "dec xs = Inr (Some (f, n))" by simp
      have n: "\<not> (n = 0 \<or> length xs < n)" using dec_bounds [OF dec] by auto
      note IH = "1.hyps" [OF Inr Some p [symmetric] n]
      have "drain dec (xs @ ys) =
          (let (fs, e, rest) = drain dec (drop n xs @ ys) in (f # fs, e, rest))"
        using n by (simp add: drain_frame [OF dec_frame_append [OF dec]])
      moreover obtain fs e rest where "drain dec (drop n xs) = (fs, e, rest)"
        by (cases "drain dec (drop n xs)")
      ultimately show ?thesis
        by (cases e; cases "drain dec (rest @ ys)") (simp_all add: drain_frame [OF dec] IH)
    qed
  qed
qed

text \<open>
  A stream of whole frames followed by a part that only ever waits, as long as no more than \<open>limit\<close> of it
  is seen: from a piece of it a reader gets some of the frames, and what is left over is again of this form.
\<close>

lemma drain_blocked:
  assumes "drain dec xs = (fs, None, [])" and "\<And>p. prefix p ys \<Longrightarrow> length p \<le> limit \<Longrightarrow> dec p = Inr None"
    and "b @ c = xs @ ys" and "length b \<le> limit"
  shows "\<exists>k xs' rest. k \<le> length fs \<and> drain dec b = (take k fs, None, rest) \<and>
    drain dec xs' = (drop k fs, None, []) \<and> rest @ c = xs' @ ys"
  using assms(1,3,4)
proof (induction fs arbitrary: xs b)
  case Nil
  then have "xs = []" using drain_rest [OF Nil.prems(1)] by (subst (asm) drain.simps) (auto split: sum.splits option.splits prod.splits if_splits)
  with Nil.prems have "dec b = Inr None" by (intro assms(2)) (auto simp: prefix_def)
  with Nil.prems \<open>xs = []\<close> show ?case
    by (intro exI [of _ 0] exI [of _ "[]"] exI [of _ b]) (simp add: drain_wait)
next
  case (Cons f fs)
  obtain n where dec: "dec xs = Inr (Some (f, n))" and tail: "drain dec (drop n xs) = (fs, None, [])"
    using Cons.prems(1) by (subst (asm) drain.simps) (auto split: sum.splits option.splits prod.splits if_splits)
  note n = dec_bounds [OF dec]
  show ?case
  proof (cases "dec b")
    case (Inl e)
    from dec_error_append [OF Inl, of c] dec_frame_append [OF dec, of ys] Cons.prems(2) show ?thesis by simp
  next
    case (Inr y)
    show ?thesis
    proof (cases y)
      case None
      with Inr Cons.prems show ?thesis
        by (intro exI [of _ 0] exI [of _ xs] exI [of _ b]) (simp add: drain_wait)
    next
      case (Some p)
      with Inr obtain g m where db: "dec b = Inr (Some (g, m))" by (cases p) simp
      from dec_frame_append [OF db, of c] dec_frame_append [OF dec, of ys] Cons.prems(2)
      have gm: "g = f" "m = n" by simp_all
      with dec_bounds [OF db] have nb: "n \<le> length b" by simp
      then have "drop n b @ c = drop n xs @ ys"
        using arg_cong [OF Cons.prems(2), of "drop n"] n by simp
      moreover have "length (drop n b) \<le> limit" using Cons.prems(3) by simp
      ultimately obtain k xs' rest where
        "k \<le> length fs" "drain dec (drop n b) = (take k fs, None, rest)"
        "drain dec xs' = (drop k fs, None, [])" "rest @ c = xs' @ ys" using Cons.IH [OF tail] by blast
      then show ?thesis
        by (intro exI [of _ "Suc k"] exI [of _ xs'] exI [of _ rest]) (simp add: drain_frame [OF db] gm)
    qed
  qed
qed

text \<open>
  Segmentation independence: however the stream is cut into chunks, the reader extracts the
  frames, the error and the left-over of the whole stream.
\<close>

lemma drain_chunks_concat:
  assumes "dec buf = Inr None"
  shows "drain_chunks dec buf cs = drain dec (buf @ concat cs)"
  using assms
proof (induction cs arbitrary: buf)
  case Nil
  then show ?case by (simp add: drain_wait)
next
  case (Cons c cs)
  obtain fs e rest where d: "drain dec (buf @ c) = (fs, e, rest)" by (cases "drain dec (buf @ c)")
  have split: "drain dec (buf @ c @ concat cs) =
     (case (fs, e, rest) of
        (fs, Some e, rest) \<Rightarrow> (fs, Some e, rest @ concat cs)
      | (fs, None, rest) \<Rightarrow>
          (let (gs, e, rest') = drain dec (rest @ concat cs) in (fs @ gs, e, rest')))"
    using drain_append [of "buf @ c" "concat cs"] by (simp add: d)
  show ?case
  proof (cases e)
    case None
    with d drain_rest have "dec rest = Inr None" by blast
    then show ?thesis using Cons.IH [of rest] by (simp add: d split None)
  next
    case (Some e')
    then show ?thesis by (simp add: d split)
  qed
qed

end

end
