(* ===== verification/Frame.thy ===== *)
theory Frame
  imports Streaming
begin

text \<open>
  \<open>protocol/frame.go\<close>: the frame header (magic, version, flags, body length) in front of a body,
  with \<open>Decode\<close> over a buffer that may hold less or more than one frame, and \<open>Encode\<close>.
  \<open>Decode\<close> returns \<open>(nil, 0, nil)\<close> on an incomplete buffer: here \<open>Inr None\<close>.
\<close>

definition FrameMagic :: "16 word" where "FrameMagic = 0xCAFE"
definition FrameVersion :: byte where "FrameVersion = 1"
definition FrameHeaderLen :: nat where "FrameHeaderLen = 8"
definition MaxFrameBody :: nat where "MaxFrameBody = 1024 * 1024"

definition FlagCompressed :: byte where "FlagCompressed = push_bit 0 1"
definition FlagEncrypted :: byte where "FlagEncrypted = push_bit 1 1"
definition FlagOneWay :: byte where "FlagOneWay = push_bit 2 1"

record frame =
  fr_version :: byte
  fr_flags :: byte
  fr_body :: bytes

datatype frame_error =
    InvalidMagic "16 word"
  | UnsupportedVersion byte
  | FrameTooLarge

definition decode :: "bytes \<Rightarrow> frame_error + (frame \<times> nat) option" where
  "decode buf =
     (if length buf < FrameHeaderLen then Inr None
      else
        let magic = be16 (buf ! 0) (buf ! 1) in
        if magic \<noteq> FrameMagic then Inl (InvalidMagic magic)
        else
          let version = buf ! 2 in
          if version \<noteq> FrameVersion then Inl (UnsupportedVersion version)
          else
            let flags = buf ! 3;
                len = be32 (buf ! 4) (buf ! 5) (buf ! 6) (buf ! 7) in
            if unat len > MaxFrameBody then Inl FrameTooLarge
            else
              let totalLen = unat len + FrameHeaderLen in
              if length buf < totalLen then Inr None
              else Inr (Some (\<lparr>fr_version = version, fr_flags = flags,
                               fr_body = slice FrameHeaderLen totalLen buf\<rparr>, totalLen)))"

definition encode :: "frame \<Rightarrow> ('e, bytes) outcome" where
  "encode f =
     (let bodyLen = length (fr_body f) in
      if bodyLen > MaxFrameBody then Panic ''frame body too large''
      else
        let version = (if fr_version f = 0 then FrameVersion else fr_version f) in
        Ok (put_be16 FrameMagic @ [version, fr_flags f] @ put_be32 (of_nat bodyLen) @ fr_body f))"

section \<open>Decoding in terms of the header\<close>

definition header :: "16 word \<Rightarrow> byte \<Rightarrow> byte \<Rightarrow> 32 word \<Rightarrow> bytes" where
  "header m v fl len = put_be16 m @ [v, fl] @ put_be32 len"

lemma length_header [simp]: "length (header m v fl len) = 8"
  by (simp add: header_def)

lemma decode_short: "length buf < 8 \<Longrightarrow> decode buf = Inr None"
  by (simp add: decode_def FrameHeaderLen_def)

lemma decode_header:
  "decode (header m v fl len @ rest) =
     (if m \<noteq> FrameMagic then Inl (InvalidMagic m)
      else if v \<noteq> FrameVersion then Inl (UnsupportedVersion v)
      else if unat len > MaxFrameBody then Inl FrameTooLarge
      else if length rest < unat len then Inr None
      else Inr (Some (\<lparr>fr_version = v, fr_flags = fl, fr_body = take (unat len) rest\<rparr>,
                      8 + unat len)))"
  by (simp add: decode_def header_def FrameHeaderLen_def be_defs wire_simps slice_def add.commute)

lemma header_exists:
  assumes "8 \<le> length buf"
  obtains m v fl len rest where "buf = header m v fl len @ rest"
proof -
  obtain b0 b1 b2 b3 b4 b5 b6 b7 rest where buf: "buf = b0 # b1 # b2 # b3 # b4 # b5 # b6 # b7 # rest"
    using assms by (auto simp: eval_nat_numeral Suc_le_length_iff)
  have "buf = header (be16 b0 b1) b2 b3 (be32 b4 b5 b6 b7) @ rest"
    by (simp add: buf header_def wire_simps)
  then show thesis by (rule that)
qed

text \<open>A buffer is short or carries a header: the case analysis every proof below uses.\<close>

lemma buffer_cases [case_names short header]:
  assumes "length buf < 8 \<Longrightarrow> P" "\<And>m v fl len rest. buf = header m v fl len @ rest \<Longrightarrow> P"
  shows P
  using assms by (metis header_exists not_less)

lemma decode_Some_iff:
  "decode buf = Inr (Some (f, n)) \<longleftrightarrow>
     (\<exists>fl len body rest. buf = header FrameMagic FrameVersion fl len @ body @ rest \<and>
        unat len \<le> MaxFrameBody \<and> length body = unat len \<and> n = 8 + unat len \<and>
        f = \<lparr>fr_version = FrameVersion, fr_flags = fl, fr_body = body\<rparr>)"
proof (cases buf rule: buffer_cases)
  case short
  then show ?thesis by (auto simp: decode_short)
next
  case (header m v fl len rest)
  have "rest = take (unat len) rest @ drop (unat len) rest" by simp
  then show ?thesis
    unfolding header decode_header
    by (auto simp: header_def wire_simps put_be16_inj put_be32_inj split: if_splits)
       (metis append_take_drop_id length_take min.absorb2 not_less)+
qed

lemma encode_header:
  "length (fr_body f) \<le> MaxFrameBody \<Longrightarrow>
   encode f = Ok (header FrameMagic (if fr_version f = 0 then FrameVersion else fr_version f)
                    (fr_flags f) (of_nat (length (fr_body f))) @ fr_body f)"
  by (simp add: encode_def header_def)

lemma unat_body_length:
  "n \<le> MaxFrameBody \<Longrightarrow> unat (of_nat n :: 32 word) = n"
  by (simp add: MaxFrameBody_def unat_of_nat take_bit_nat_eq_self)

lemma encode_Ok_iff:
  "encode f = Ok w \<longleftrightarrow>
     length (fr_body f) \<le> MaxFrameBody \<and>
     w = header FrameMagic (if fr_version f = 0 then FrameVersion else fr_version f)
           (fr_flags f) (of_nat (length (fr_body f))) @ fr_body f"
  by (auto simp: encode_def header_def Let_def)

lemma decode_encoded:
  assumes "encode f = Ok w" and "fr_version f = 0 \<or> fr_version f = FrameVersion"
  shows "decode (w @ rest) = Inr (Some (f\<lparr>fr_version := FrameVersion\<rparr>, length w))"
  using assms by (auto simp: encode_Ok_iff decode_header unat_body_length not_less)

text \<open>Evaluation of closed calls.\<close>

lemmas half_defs = join16_def join32_def join64_def hi16_def lo16_def hi32_def lo32_def
  hi64_def lo64_def

lemmas decode_eval = decode_def FrameHeaderLen_def FrameMagic_def FrameVersion_def MaxFrameBody_def
  be_defs half_defs slice_def

lemmas encode_eval = encode_def FrameMagic_def FrameVersion_def MaxFrameBody_def be_defs half_defs

section \<open>The decoder keeps the streaming laws\<close>

interpretation frames: stream_decoder decode
proof
  show "0 < n \<and> n \<le> length xs" if "decode xs = Inr (Some (f, n))" for xs f n
    using that by (auto simp: decode_Some_iff)
  show "decode (xs @ ys) = Inr (Some (f, n))" if "decode xs = Inr (Some (f, n))" for xs ys f n
    using that by (fastforce simp: decode_Some_iff)
  show "decode (xs @ ys) = Inl e" if "decode xs = Inl e" for xs ys e
    using that
  proof (cases xs rule: buffer_cases)
    case (header m v fl len rest)
    with that show ?thesis by (simp add: decode_header split: if_splits)
  qed (simp add: decode_short)
qed

section \<open>Properties\<close>

text \<open>
  C23: what \<open>Encode\<close> writes for a frame of a supported version (or version 0, which stands for
  it), \<open>Decode\<close> reads back, with the version filled in, whatever bytes follow on the stream, and
  it takes exactly the bytes written.
\<close>

theorem decode_encode:
  assumes "encode f = Ok w" and "fr_version f = 0 \<or> fr_version f = FrameVersion"
  shows "decode (w @ rest) = Inr (Some (f\<lparr>fr_version := FrameVersion\<rparr>, length w))"
  by (rule decode_encoded [OF assms])

theorem decode_encode_witness:
  "decode ([0xCA, 0xFE, 1, 4, 0, 0, 0, 2, 65, 66] @ [7]) =
     Inr (Some (\<lparr>fr_version = 1, fr_flags = 4, fr_body = [65, 66]\<rparr>, 10))"
proof -
  let ?f = "\<lparr>fr_version = 0, fr_flags = 4, fr_body = [65, 66]\<rparr>"
  have "(encode ?f :: (unit, bytes) outcome) = Ok [0xCA, 0xFE, 1, 4, 0, 0, 0, 2, 65, 66]"
    by (simp add: encode_eval)
  from decode_encode [OF this, of "[7]"] show ?thesis by (simp add: FrameVersion_def)
qed

text \<open>
  C24: the encoding is canonical: the bytes a frame was decoded from are exactly the bytes
  \<open>Encode\<close> writes for it, so no two different byte strings decode to the same frame.
\<close>

theorem encode_decode:
  assumes "decode buf = Inr (Some (f, n))"
  shows "encode f = Ok (take n buf)"
proof -
  from assms obtain fl len body rest where
    "buf = header FrameMagic FrameVersion fl len @ body @ rest" "unat len \<le> MaxFrameBody"
    "length body = unat len" "n = 8 + unat len"
    "f = \<lparr>fr_version = FrameVersion, fr_flags = fl, fr_body = body\<rparr>"
    unfolding decode_Some_iff by blast
  then show ?thesis by (simp add: encode_header FrameVersion_def)
qed

theorem encode_decode_witness:
  "encode \<lparr>fr_version = 1, fr_flags = 0, fr_body = [9]\<rparr> =
     (Ok (take 9 [0xCA, 0xFE, 1, 0, 0, 0, 0, 1, 9, 0xCA]) :: (unit, bytes) outcome)"
proof -
  have "decode [0xCA, 0xFE, 1, 0, 0, 0, 0, 1, 9, 0xCA] =
      Inr (Some (\<lparr>fr_version = 1, fr_flags = 0, fr_body = [9]\<rparr>, 9))"
    by (simp add: decode_eval)
  then show ?thesis by (rule encode_decode)
qed

lemma decode_full_header_waits:
  assumes "8 \<le> length buf"
  shows "decode buf = Inr None \<longleftrightarrow>
     (\<exists>f ext. ext \<noteq> [] \<and> decode (buf @ ext) = Inr (Some (f, length (buf @ ext))))"
proof
  assume wait: "decode buf = Inr None"
  from assms obtain m v fl len rest where buf: "buf = header m v fl len @ rest"
    by (rule header_exists)
  let ?ext = "replicate (unat len - length rest) 0 :: bytes"
  from wait have "m = FrameMagic" "v = FrameVersion" "unat len \<le> MaxFrameBody"
    "length rest < unat len"
    by (auto simp: buf decode_header split: if_splits)
  then have "?ext \<noteq> []" "decode (buf @ ?ext) =
      Inr (Some (\<lparr>fr_version = v, fr_flags = fl, fr_body = rest @ ?ext\<rparr>, length (buf @ ?ext)))"
    by (simp_all add: buf decode_header)
  then show "\<exists>f ext. ext \<noteq> [] \<and> decode (buf @ ext) = Inr (Some (f, length (buf @ ext)))"
    by blast
next
  assume "\<exists>f ext. ext \<noteq> [] \<and> decode (buf @ ext) = Inr (Some (f, length (buf @ ext)))"
  then obtain f ext where ext: "ext \<noteq> []" and
    dec: "decode (buf @ ext) = Inr (Some (f, length (buf @ ext)))" by blast
  show "decode buf = Inr None"
  proof (cases "decode buf")
    case (Inl e)
    with dec show ?thesis by (simp add: frames.dec_error_append)
  next
    case (Inr r)
    show ?thesis
    proof (cases r)
      case (Some p)
      with Inr obtain g n where g: "decode buf = Inr (Some (g, n))" by (cases p) simp
      from frames.dec_bounds [OF g] frames.dec_frame_append [OF g, of ext] dec ext
      show ?thesis by (simp flip: length_greater_0_conv)
    qed (use Inr in simp)
  qed
qed

text \<open>
  C25: when \<open>Decode\<close> asks for more input.  On any buffer it does so exactly when the eight bytes of a
  header are not there yet, or the buffer is a proper prefix of some valid frame.  So once eight bytes
  are there it never waits for a frame that cannot come, and never rejects one that still can; but with
  fewer it waits even when no frame can start so (the byte 0, say).
\<close>

theorem decode_waits_iff:
  "(decode buf = Inr None \<longleftrightarrow> length buf < 8 \<or>
     (\<exists>f ext. ext \<noteq> [] \<and> decode (buf @ ext) = Inr (Some (f, length (buf @ ext))))) \<and>
   decode [0] = Inr None \<and> (\<forall>f n ext. decode ([0] @ ext) \<noteq> Inr (Some (f, n)))"
proof -
  have "decode ([0] @ ext) \<noteq> Inr (Some (f, n))" for f n ext
    by (auto simp: decode_Some_iff header_def FrameMagic_def be_defs half_defs)
  then show ?thesis
    using decode_full_header_waits [of buf] by (cases "length buf < 8") (simp_all add: decode_short)
qed

text \<open>
  Segmentation independence: a reader that is handed the stream in arbitrary chunks, keeps
  the undecoded rest and decodes after each chunk extracts the same frames, the same error and
  the same left-over as one that sees the whole stream at once.
\<close>

theorem frames_segmentation:
  "drain_chunks decode [] cs = drain decode (concat cs)"
  using frames.drain_chunks_concat [of "[]" cs] by (simp add: decode_short)

end
