(* ===== verification/GoErrors.thy ===== *)
theory GoErrors
  imports Prelude
begin

text \<open>
  Go's \<open>error\<close> values as the network code inspects them: the sentinels it compares with
  \<open>errors.Is\<close>, \<open>syscall.Errno\<close>, a \<open>net.Error\<close> with the answer of its \<open>Timeout\<close> method around an
  inner error (\<open>*net.OpError\<close>), and errors that wrap another one (\<open>fmt.Errorf\<close> with \<open>%w\<close>).
\<close>

datatype errno =
    EINTR | EAGAIN | ECONNABORTED | EMFILE | ENFILE | ENOBUFS | ENOMEM
  | EPIPE | ECONNRESET | ETIMEDOUT | OtherErrno nat

datatype go_err =
    ErrClosed
  | Canceled
  | EOF
  | Errno errno
  | ErrText string
  | NetErr bool go_err
  | Wrapped string go_err

text \<open>\<open>errors.Is(err, target)\<close>: the error or one it wraps is the target.\<close>

fun errors_is :: "go_err \<Rightarrow> go_err \<Rightarrow> bool" where
  "errors_is (NetErr b e) target = (NetErr b e = target \<or> errors_is e target)"
| "errors_is (Wrapped m e) target = (Wrapped m e = target \<or> errors_is e target)"
| "errors_is e target = (e = target)"

text \<open>
  \<open>ne, ok := err.(net.Error); ok && ne.Timeout()\<close>.  The type assertion looks at the outermost
  error only.  \<open>syscall.Errno\<close> has a \<open>Timeout\<close> method of its own.
\<close>

fun net_timeout :: "go_err \<Rightarrow> bool" where
  "net_timeout (NetErr b e) = b"
| "net_timeout (Errno n) = (n = EAGAIN \<or> n = ETIMEDOUT)"
| "net_timeout e = False"

lemma errors_is_refl [simp]: "errors_is e e"
  by (cases e) simp_all

lemma errors_is_wrap [simp]: "errors_is e t \<Longrightarrow> errors_is (Wrapped m e) t"
  by simp

end
