(* ===== verification/Compress.thy ===== *)
theory Compress
  imports Frame GoErrors
begin

text \<open>
  \<open>protocol/compress.go\<close>: flag validation and the optional gzip layer between a frame body and
  the message bytes.  \<open>compress/gzip\<close> itself is a parameter: \<open>gz_write\<close> and \<open>gz_close\<close> are the
  writer's \<open>Write\<close> and \<open>Close\<close> over a fresh buffer (\<open>gz_close\<close> yields the buffer's bytes),
  \<open>gz_open\<close> is \<open>gzip.NewReader\<close>, giving the bytes the reader produces and the error that follows
  them, if it is not a clean end of file.
\<close>

record gzip =
  gz_write :: "bytes \<Rightarrow> go_err option"
  gz_close :: "bytes \<Rightarrow> go_err + bytes"
  gz_open :: "bytes \<Rightarrow> go_err + (bytes \<times> go_err option)"

datatype body_error =
    UnsupportedFrameFlags
  | NilFrame
  | GzipErr go_err
  | InvalidMaxOutput
  | DecompressedTooLarge

definition validate_flags :: "byte \<Rightarrow> body_error option" where
  "validate_flags fl =
     (if fl AND FlagEncrypted \<noteq> 0 then Some UnsupportedFrameFlags else None)"

definition gzip_compress :: "gzip \<Rightarrow> bytes \<Rightarrow> body_error + bytes" where
  "gzip_compress gz data =
     (case gz_write gz data of
        Some e \<Rightarrow> Inl (GzipErr e)
      | None \<Rightarrow>
          (case gz_close gz data of
             Inl e \<Rightarrow> Inl (GzipErr e)
           | Inr out \<Rightarrow> Inr out))"

text \<open>\<open>io.ReadAll(io.LimitReader(r, n))\<close>: the reader is not asked again once \<open>n\<close> bytes are read.\<close>

definition read_limited :: "nat \<Rightarrow> bytes \<times> go_err option \<Rightarrow> bytes \<times> go_err option" where
  "read_limited n r = (if n \<le> length (fst r) then (take n (fst r), None) else r)"

definition gzip_decompress :: "gzip \<Rightarrow> bytes \<Rightarrow> int \<Rightarrow> body_error + bytes" where
  "gzip_decompress gz data maxOutput =
     (case gz_open gz data of
        Inl e \<Rightarrow> Inl (GzipErr e)
      | Inr zr \<Rightarrow>
          if maxOutput \<le> 0 then Inl InvalidMaxOutput
          else
            (case read_limited (nat (maxOutput + 1)) zr of
               (out, Some e) \<Rightarrow> Inl (GzipErr e)
             | (out, None) \<Rightarrow>
                 if int (length out) > maxOutput then Inl DecompressedTooLarge else Inr out))"

definition decode_frame_body :: "gzip \<Rightarrow> frame option \<Rightarrow> body_error + bytes" where
  "decode_frame_body gz fo =
     (case fo of
        None \<Rightarrow> Inl NilFrame
      | Some f \<Rightarrow>
          (case validate_flags (fr_flags f) of
             Some e \<Rightarrow> Inl e
           | None \<Rightarrow>
               if fr_flags f AND FlagCompressed = 0 then Inr (fr_body f)
               else gzip_decompress gz (fr_body f) (int MaxFrameBody)))"

definition encode_frame_body :: "gzip \<Rightarrow> byte \<Rightarrow> bytes \<Rightarrow> body_error + (byte \<times> bytes)" where
  "encode_frame_body gz fl body =
     (case validate_flags fl of
        Some e \<Rightarrow> Inl e
      | None \<Rightarrow>
          if fl AND FlagCompressed = 0 then Inr (fl, body)
          else
            (case gzip_compress gz body of
               Inl e \<Rightarrow> Inl e
             | Inr out \<Rightarrow> Inr (fl, out)))"

text \<open>
  What the code relies on of \<open>compress/gzip\<close>: a stream the writer closed without an error is read
  back as the bytes written, up to a clean end of file.
\<close>

definition gzip_round_trip :: "gzip \<Rightarrow> bool" where
  "gzip_round_trip gz \<longleftrightarrow>
     (\<forall>data out. gz_write gz data = None \<longrightarrow> gz_close gz data = Inr out \<longrightarrow>
        gz_open gz out = Inr (data, None))"

text \<open>A concrete instance for the witnesses: a two-byte header in front of the plain bytes.\<close>

definition stored_gzip :: gzip where
  "stored_gzip = \<lparr>gz_write = (\<lambda>data. None), gz_close = (\<lambda>data. Inr (0x1F # 0x8B # data)),
     gz_open = (\<lambda>z. case z of a # b # data \<Rightarrow> if a = 0x1F \<and> b = 0x8B then Inr (data, None)
                                             else Inl (ErrText ''gzip: invalid header'')
                            | _ \<Rightarrow> Inl EOF)\<rparr>"

lemma stored_gzip_round_trip: "gzip_round_trip stored_gzip"
  by (simp add: gzip_round_trip_def stored_gzip_def)

lemmas flag_defs = FlagCompressed_def FlagEncrypted_def FlagOneWay_def

lemmas body_defs = decode_frame_body_def encode_frame_body_def gzip_compress_def
  gzip_decompress_def read_limited_def

lemma body_round_trip:
  assumes "gzip_round_trip gz" and "length body \<le> MaxFrameBody"
    and "encode_frame_body gz fl body = Inr (fl', out)"
  shows "fl' = fl \<and>
    decode_frame_body gz (Some \<lparr>fr_version = v, fr_flags = fl', fr_body = out\<rparr>) = Inr body"
  using assms
  by (auto simp: body_defs gzip_round_trip_def MaxFrameBody_def
      split: option.splits sum.splits if_splits)

section \<open>Properties\<close>

text \<open>
  The body layer round trips: a body of at most \<open>MaxFrameBody\<close> bytes that \<open>EncodeFrameBody\<close>
  accepts is what \<open>DecodeFrameBody\<close> returns for a frame carrying the flags and bytes it produced,
  compressed or not.
\<close>

theorem frame_body_round_trip:
  assumes "gzip_round_trip gz" and "length body \<le> MaxFrameBody"
    and "encode_frame_body gz fl body = Inr (fl', out)"
  shows "fl' = fl \<and>
    decode_frame_body gz (Some \<lparr>fr_version = v, fr_flags = fl', fr_body = out\<rparr>) = Inr body"
  by (rule body_round_trip [OF assms])

theorem frame_body_round_trip_witness:
  "(1 :: byte) = 1 \<and>
   decode_frame_body stored_gzip
     (Some \<lparr>fr_version = 1, fr_flags = 1, fr_body = [0x1F, 0x8B, 104, 105]\<rparr>) = Inr [104, 105]"
proof (rule frame_body_round_trip [OF stored_gzip_round_trip])
  show "length [104, 105 :: byte] \<le> MaxFrameBody" by (simp add: MaxFrameBody_def)
  show "encode_frame_body stored_gzip 1 [104, 105] = Inr (1, [0x1F, 0x8B, 104, 105])"
    by (simp add: encode_frame_body_def gzip_compress_def validate_flags_def flag_defs
        stored_gzip_def)
qed

text \<open>
  C27: whatever the gzip implementation does, a decoded body is never longer than
  \<open>MaxFrameBody\<close>: a decompression bomb yields an error, and an encrypted frame yields
  \<open>ErrUnsupportedFrameFlags\<close> before any byte is decompressed.
\<close>

theorem decode_frame_body_bounded:
  assumes "decode buf = Inr (Some (f, n))"
  shows "(case decode_frame_body gz (Some f) of
            Inl e \<Rightarrow> (bit (fr_flags f) 1 \<longrightarrow> e = UnsupportedFrameFlags)
          | Inr body \<Rightarrow> length body \<le> MaxFrameBody \<and> \<not> bit (fr_flags f) 1)"
proof -
  have enc: "fr_flags f AND FlagEncrypted \<noteq> 0 \<longleftrightarrow> bit (fr_flags f) 1"
    by (simp add: FlagEncrypted_def bit_iff_and_push_bit_not_eq_0)
  from assms have "length (fr_body f) \<le> MaxFrameBody" by (auto simp: decode_Some_iff)
  then show ?thesis
    by (auto simp: body_defs validate_flags_def enc split: option.splits sum.splits prod.splits)
qed

theorem decode_frame_body_bounded_witness:
  "case decode_frame_body stored_gzip (Some \<lparr>fr_version = 1, fr_flags = 1, fr_body = [0x1F, 0x8B]\<rparr>) of
     Inl e \<Rightarrow> (bit (1 :: byte) 1 \<longrightarrow> e = UnsupportedFrameFlags)
   | Inr body \<Rightarrow> length body \<le> MaxFrameBody \<and> \<not> bit (1 :: byte) 1"
proof -
  have "decode [0xCA, 0xFE, 1, 1, 0, 0, 0, 2, 0x1F, 0x8B] =
      Inr (Some (\<lparr>fr_version = 1, fr_flags = 1, fr_body = [0x1F, 0x8B]\<rparr>, 10))"
    by (simp add: decode_eval)
  from decode_frame_body_bounded [OF this, of stored_gzip] show ?thesis
    by (simp only: frame.select_convs)
qed

end
