(* ===== verification/Limits.thy ===== *)
theory Limits
  imports Prelude
begin

text \<open>
  The two interfaces through which a connection is limited: a rate limiter, asked once per frame
  with the current time, and a byte quota, charged when bytes enter the connection's buffer and
  credited when they leave it.  Each locale states what the connection handler relies on and
  proves the consequences for a whole sequence of calls.
\<close>

section \<open>Rate limiter\<close>

text \<open>Ask the limiter at each of a list of times.\<close>

fun allow_run :: "(int \<Rightarrow> 's \<Rightarrow> bool \<times> 's) \<Rightarrow> int list \<Rightarrow> 's \<Rightarrow> bool list \<times> 's" where
  "allow_run allow [] s = ([], s)"
| "allow_run allow (t # ts) s =
     (let (b, s1) = allow t s; (bs, s2) = allow_run allow ts s1 in (b # bs, s2))"

definition accepted :: "bool list \<Rightarrow> int" where
  "accepted bs = int (length (filter id bs))"

lemma accepted_simps [simp]:
  "accepted [] = 0" "accepted (b # bs) = of_bool b + accepted bs"
  by (simp_all add: accepted_def)

text \<open>
  \<open>credit\<close> is what the limiter may still hand out, \<open>stamp\<close> the time up to which it has been
  refilled, at \<open>rate\<close> credits per \<open>ticks\<close> time units; the laws hold for calls at most
  \<open>horizon\<close> after the stamp.
\<close>

locale rate_limiter =
  fixes allow :: "int \<Rightarrow> 's \<Rightarrow> bool \<times> 's"
    and credit :: "'s \<Rightarrow> int" and stamp :: "'s \<Rightarrow> int" and inv :: "'s \<Rightarrow> bool"
    and rate :: int and ticks :: int and horizon :: int
  assumes ticks_pos: "0 < ticks" and rate_nonneg: "0 \<le> rate"
    and credit_nonneg: "inv s \<Longrightarrow> 0 \<le> credit s"
    and allow_inv: "inv s \<Longrightarrow> allow now s = (b, s') \<Longrightarrow> inv s'"
    and allow_stamp: "inv s \<Longrightarrow> stamp s \<le> now \<Longrightarrow> now \<le> stamp s + horizon \<Longrightarrow>
      allow now s = (b, s') \<Longrightarrow> stamp s \<le> stamp s' \<and> stamp s' \<le> now"
    and allow_credit: "inv s \<Longrightarrow> stamp s \<le> now \<Longrightarrow> now \<le> stamp s + horizon \<Longrightarrow>
      allow now s = (b, s') \<Longrightarrow>
      ticks * (credit s' + of_bool b) \<le> ticks * credit s + rate * (stamp s' - stamp s)"
begin

lemma allow_run_credit:
  assumes "inv s" and "sorted (stamp s # ts)" and "\<forall>t\<in>set ts. t \<le> stamp s + horizon"
    and "allow_run allow ts s = (bs, s')"
  shows "ticks * (credit s' + accepted bs) \<le> ticks * credit s + rate * (stamp s' - stamp s) \<and>
    inv s' \<and> stamp s \<le> stamp s' \<and> stamp s' \<le> last (stamp s # ts)"
  using assms
proof (induction ts arbitrary: s bs)
  case Nil
  then show ?case by simp
next
  case (Cons t ts)
  obtain b s1 where a: "allow t s = (b, s1)" by (cases "allow t s")
  obtain bs1 where r: "allow_run allow ts s1 = (bs1, s')" and bs: "bs = b # bs1"
    using Cons.prems(4) by (auto simp: a split: prod.splits)
  have t: "stamp s \<le> t" "t \<le> stamp s + horizon" using Cons.prems by auto
  have inv1: "inv s1" by (rule allow_inv [OF Cons.prems(1) a])
  note stamp1 = allow_stamp [OF Cons.prems(1) t a]
  note credit1 = allow_credit [OF Cons.prems(1) t a]
  have "sorted (stamp s1 # ts)" "\<forall>u\<in>set ts. u \<le> stamp s1 + horizon"
    using Cons.prems stamp1 by force+
  from Cons.IH [OF inv1 this r]
  have IH: "ticks * (credit s' + accepted bs1) \<le> ticks * credit s1 + rate * (stamp s' - stamp s1)"
    and rest: "inv s'" "stamp s1 \<le> stamp s'" "stamp s' \<le> last (stamp s1 # ts)"
    by auto
  have "last (stamp s1 # ts) \<le> last (stamp s # t # ts)"
    using stamp1 by (cases ts) auto
  moreover have "ticks * (credit s' + accepted bs) \<le> ticks * credit s + rate * (stamp s' - stamp s)"
    using IH credit1 by (simp add: bs algebra_simps)
  ultimately show ?case using rest stamp1 by auto
qed

text \<open>Accepted calls never exceed the credit at the start plus what the time since then refills.\<close>

lemma accepted_bound:
  assumes "inv s" and "sorted (stamp s # ts)" and "\<forall>t\<in>set ts. t \<le> stamp s + horizon"
    and "allow_run allow ts s = (bs, s')"
  shows "accepted bs \<le> credit s + rate * (last (stamp s # ts) - stamp s) div ticks"
proof -
  note run = allow_run_credit [OF assms]
  have "rate * (stamp s' - stamp s) \<le> rate * (last (stamp s # ts) - stamp s)"
    using run rate_nonneg by (simp add: mult_left_mono)
  moreover have "0 \<le> ticks * credit s'"
    using run credit_nonneg [of s'] ticks_pos by simp
  ultimately have "ticks * (accepted bs - credit s) \<le> rate * (last (stamp s # ts) - stamp s)"
    using run by (simp add: algebra_simps)
  from zdiv_mono1 [OF this ticks_pos]
  have "accepted bs - credit s \<le> rate * (last (stamp s # ts) - stamp s) div ticks"
    using ticks_pos by simp
  then show ?thesis by simp
qed

end

section \<open>Byte quota\<close>

text \<open>
  A round of the connection loop charges the bytes read and, if they fit, credits the bytes it
  could consume.  \<open>quota_rounds\<close> tells whether every charge fitted.
\<close>

fun quota_rounds :: "(int \<Rightarrow> 's \<Rightarrow> bool \<times> 's) \<Rightarrow> (int \<Rightarrow> 's \<Rightarrow> 's) \<Rightarrow> (nat \<times> nat) list \<Rightarrow> 's \<Rightarrow> bool \<times> 's"
  where
  "quota_rounds reserve release [] s = (True, s)"
| "quota_rounds reserve release ((n, m) # rs) s =
     (let (b, s1) = reserve (int n) s in
      if b then quota_rounds reserve release rs (release (int m) s1) else (False, s1))"

text \<open>The bytes in the buffer after each round, when it starts with \<open>p\<close> of them.\<close>

fun pending_ok :: "int \<Rightarrow> int \<Rightarrow> (nat \<times> nat) list \<Rightarrow> bool" where
  "pending_ok limit p [] = True"
| "pending_ok limit p ((n, m) # rs) =
     (p + int n \<le> limit \<and> pending_ok limit (p + int n - int m) rs)"

fun consumes_pending :: "int \<Rightarrow> (nat \<times> nat) list \<Rightarrow> bool" where
  "consumes_pending p [] = True"
| "consumes_pending p ((n, m) # rs) =
     (int m \<le> p + int n \<and> consumes_pending (p + int n - int m) rs)"

locale byte_quota =
  fixes reserve :: "int \<Rightarrow> 's \<Rightarrow> bool \<times> 's" and release :: "int \<Rightarrow> 's \<Rightarrow> 's"
    and used :: "'s \<Rightarrow> int" and limit :: "'s \<Rightarrow> int" and max_charge :: nat
  assumes reserve_fits: "0 \<le> used s \<Longrightarrow> used s \<le> limit s \<Longrightarrow> limit s \<le> 2 ^ 62 \<Longrightarrow> n \<le> max_charge \<Longrightarrow>
      reserve (int n) s = (b, s') \<Longrightarrow>
      b = (used s + int n \<le> limit s) \<and> used s' = used s + int n \<and> limit s' = limit s"
    and release_used: "0 \<le> used s \<Longrightarrow> used s \<le> limit s \<Longrightarrow> limit s \<le> 2 ^ 62 \<Longrightarrow> int m \<le> used s \<Longrightarrow>
      used (release (int m) s) = used s - int m \<and> limit (release (int m) s) = limit s"
begin

text \<open>Every charge fits exactly when the bytes pending never exceed the limit.\<close>

lemma rounds_accepted_iff:
  assumes "0 \<le> used s" and "used s \<le> limit s" and "limit s \<le> 2 ^ 62"
    and "\<forall>(n, m)\<in>set rs. n \<le> max_charge" and "consumes_pending (used s) rs"
  shows "fst (quota_rounds reserve release rs s) \<longleftrightarrow> pending_ok (limit s) (used s) rs"
  using assms
proof (induction rs arbitrary: s)
  case Nil
  then show ?case by simp
next
  case (Cons r rs)
  obtain n m where r: "r = (n, m)" by (cases r)
  obtain b s1 where res: "reserve (int n) s = (b, s1)" by (cases "reserve (int n) s")
  have n: "n \<le> max_charge" using Cons.prems(4) by (auto simp: r)
  note f = reserve_fits [OF Cons.prems(1-3) n res]
  show ?case
  proof (cases b)
    case False
    then show ?thesis using f by (simp add: r res)
  next
    case True
    have m: "int m \<le> used s1" using Cons.prems(5) f by (simp add: r)
    have "0 \<le> used s1" "used s1 \<le> limit s1" "limit s1 \<le> 2 ^ 62"
      using True f Cons.prems by auto
    note rel = release_used [OF this m]
    have "fst (quota_rounds reserve release rs (release (int m) s1)) \<longleftrightarrow>
        pending_ok (limit (release (int m) s1)) (used (release (int m) s1)) rs"
      using Cons.prems True f m rel by (intro Cons.IH) (auto simp: r)
    then show ?thesis using True f rel by (simp add: r res)
  qed
qed

end

end
