(* ===== verification/ConnContext.thy ===== *)
theory ConnContext
  imports Limits
begin

text \<open>
  \<open>conn_ctx.go\<close>: the per-connection buffer quota and token bucket.  The fields are Go
  \<open>int64\<close>: a field holds the value \<open>wrap64\<close> of its last assignment.  \<open>time.Now().UnixNano()\<close>
  is the argument \<open>now\<close>.
\<close>

record conn_context =
  bufferUsed :: int
  maxBuffer :: int
  tokens :: int
  lastRefill :: int
  rate :: int
  burst :: int

definition Second :: int where "Second = 1000000000"

definition NewConnContext :: "int \<Rightarrow> conn_context" where
  "NewConnContext now =
     \<lparr>bufferUsed = 0, maxBuffer = 256 * 1024, tokens = 100, lastRefill = now, rate = 100,
      burst = 200\<rparr>"

definition Reserve :: "int \<Rightarrow> conn_context \<Rightarrow> bool \<times> conn_context" where
  "Reserve n c =
     (let used = wrap64 (bufferUsed c + n) in (used \<le> maxBuffer c, c\<lparr>bufferUsed := used\<rparr>))"

definition Release :: "int \<Rightarrow> conn_context \<Rightarrow> conn_context" where
  "Release n c = c\<lparr>bufferUsed := wrap64 (bufferUsed c + wrap64 (- n))\<rparr>"

text \<open>The refill part of \<open>Allow\<close>, then the spending part.\<close>

definition refill :: "int \<Rightarrow> conn_context \<Rightarrow> conn_context" where
  "refill now c =
     (let elapsed = wrap64 (now - lastRefill c);
          add = go_quot (wrap64 (elapsed * rate c)) Second in
      if add > 0 then
        let newTokens = wrap64 (tokens c + add);
            newTokens = (if newTokens > burst c then burst c else newTokens) in
        c\<lparr>tokens := newTokens, lastRefill := now\<rparr>
      else c)"

definition Allow :: "int \<Rightarrow> conn_context \<Rightarrow> bool \<times> conn_context" where
  "Allow now c =
     (let c = refill now c in
      if tokens c \<le> 0 then (False, c)
      else (True, c\<lparr>tokens := wrap64 (tokens c - 1)\<rparr>))"

section \<open>Invariant\<close>

definition ctx_inv :: "conn_context \<Rightarrow> bool" where
  "ctx_inv c \<longleftrightarrow> 0 \<le> tokens c \<and> tokens c \<le> burst c \<and> burst c < 2 ^ 62"

lemma ctx_inv_new: "ctx_inv (NewConnContext now)"
  by (simp add: ctx_inv_def NewConnContext_def)

text \<open>A quotient of an \<open>int64\<close> by a second is far from the ends of the range.\<close>

lemma refill_amount_bound: "go_quot (wrap64 x) Second < 2 ^ 34"
proof -
  have "\<bar>wrap64 x\<bar> \<le> 2 ^ 63" using wrap64_bounds [of x] by linarith
  then have "\<bar>wrap64 x\<bar> div Second \<le> 2 ^ 63 div Second"
    by (rule zdiv_mono1) (simp add: Second_def)
  moreover have "go_quot (wrap64 x) Second \<le> \<bar>wrap64 x\<bar> div Second"
    by (cases "wrap64 x = 0"; cases "0 < wrap64 x")
       (auto simp: go_quot_def Second_def sgn_if pos_imp_zdiv_nonneg_iff)
  ultimately show ?thesis by (simp add: Second_def)
qed

lemma refill_inv:
  assumes "ctx_inv c"
  shows "ctx_inv (refill now c)"
proof -
  define add where "add = go_quot (wrap64 (wrap64 (now - lastRefill c) * rate c)) Second"
  have "add < 2 ^ 34" unfolding add_def by (rule refill_amount_bound)
  with assms have "0 < add \<Longrightarrow> wrap64 (tokens c + add) = tokens c + add"
    by (intro wrap64_id) (auto simp: ctx_inv_def)
  with assms show ?thesis
    by (auto simp: refill_def ctx_inv_def Let_def simp flip: add_def)
qed

lemma Allow_inv: "ctx_inv c \<Longrightarrow> Allow now c = (b, c') \<Longrightarrow> ctx_inv c'"
  using refill_inv [of c now]
  by (auto simp: Allow_def ctx_inv_def Let_def wrap64_id split: if_splits)

lemma refill_frame [simp]:
  "rate (refill now c) = rate c" "burst (refill now c) = burst c"
  "bufferUsed (refill now c) = bufferUsed c" "maxBuffer (refill now c) = maxBuffer c"
  by (simp_all add: refill_def Let_def)

lemma Allow_frame:
  "Allow now c = (b, c') \<Longrightarrow> rate c' = rate c \<and> burst c' = burst c \<and>
     bufferUsed c' = bufferUsed c \<and> maxBuffer c' = maxBuffer c"
  by (auto simp: Allow_def Let_def split: if_splits)

text \<open>Within the range where nothing overflows, a refill adds the whole credits of the elapsed time.\<close>

lemma refill_in_range:
  assumes "ctx_inv c" and "rate c = 100" and "lastRefill c \<le> now" and "now - lastRefill c \<le> 2 ^ 55"
  shows "refill now c =
    (let add = 100 * (now - lastRefill c) div Second in
     if 0 < add then c\<lparr>tokens := min (burst c) (tokens c + add), lastRefill := now\<rparr> else c)"
proof -
  define elapsed where "elapsed = now - lastRefill c"
  define add where "add = 100 * elapsed div Second"
  have e: "wrap64 elapsed = elapsed" "wrap64 (elapsed * 100) = elapsed * 100"
    using assms by (auto simp: elapsed_def intro!: wrap64_id)
  have q: "go_quot (elapsed * 100) Second = add"
    using assms by (subst go_quot_nonneg) (auto simp: Second_def mult.commute add_def elapsed_def)
  have "add < 2 ^ 34"
    using refill_amount_bound [of "elapsed * 100"] unfolding e q .
  then have w: "0 < add \<Longrightarrow> wrap64 (tokens c + add) = tokens c + add"
    using assms(1) by (intro wrap64_id) (auto simp: ctx_inv_def)
  show ?thesis
    unfolding refill_def Let_def assms(2) elapsed_def [symmetric] e q add_def [symmetric]
    by (auto simp: min_def w)
qed

section \<open>The limits the connection handler relies on\<close>

definition limiter_inv :: "conn_context \<Rightarrow> bool" where
  "limiter_inv c \<longleftrightarrow> ctx_inv c \<and> rate c = 100"

lemma limiter_inv_new [simp]: "limiter_inv (NewConnContext now)"
  by (simp add: limiter_inv_def ctx_inv_new) (simp add: NewConnContext_def)

lemma refill_credit:
  assumes "limiter_inv c" and "lastRefill c \<le> now" and "now - lastRefill c \<le> 2 ^ 55"
  shows "Second * tokens (refill now c) \<le>
      Second * tokens c + 100 * (lastRefill (refill now c) - lastRefill c) \<and>
    lastRefill c \<le> lastRefill (refill now c) \<and> lastRefill (refill now c) \<le> now"
proof -
  define add where "add = 100 * (now - lastRefill c) div Second"
  have eq: "refill now c =
      (if 0 < add then c\<lparr>tokens := min (burst c) (tokens c + add), lastRefill := now\<rparr> else c)"
    using assms refill_in_range [of c now] by (simp add: limiter_inv_def Let_def add_def)
  have "Second * add \<le> 100 * (now - lastRefill c)"
    unfolding add_def by (simp add: Second_def minus_mod_eq_mult_div [symmetric])
  moreover have "Second * min (burst c) (tokens c + add) \<le> Second * (tokens c + add)"
    by (rule mult_left_mono) (simp_all add: Second_def)
  ultimately show ?thesis
    using assms(2) by (auto simp: eq distrib_left)
qed

interpretation bucket: rate_limiter Allow tokens lastRefill limiter_inv 100 Second "2 ^ 55"
proof
  show "0 < Second" by (simp add: Second_def)
  show "(0 :: int) \<le> 100" by simp
  show "0 \<le> tokens c" if "limiter_inv c" for c
    using that by (simp add: limiter_inv_def ctx_inv_def)
next
  fix c c' :: conn_context and now :: int and b
  assume inv: "limiter_inv c" and a: "Allow now c = (b, c')"
  show "limiter_inv c'"
    using inv Allow_inv [OF _ a] Allow_frame [OF a] by (simp add: limiter_inv_def)
  assume t: "lastRefill c \<le> now" "now \<le> lastRefill c + 2 ^ 55"
  have r: "Second * tokens (refill now c) \<le>
      Second * tokens c + 100 * (lastRefill (refill now c) - lastRefill c)"
    "lastRefill c \<le> lastRefill (refill now c)" "lastRefill (refill now c) \<le> now"
    using refill_credit [OF inv t(1)] t(2) by auto
  have "ctx_inv (refill now c)" using inv refill_inv by (simp add: limiter_inv_def)
  then have w: "0 < tokens (refill now c) \<Longrightarrow>
      wrap64 (tokens (refill now c) - 1) = tokens (refill now c) - 1"
    by (intro wrap64_id) (auto simp: ctx_inv_def)
  show "lastRefill c \<le> lastRefill c' \<and> lastRefill c' \<le> now"
    using a r by (auto simp: Allow_def Let_def split: if_splits)
  show "Second * (tokens c' + of_bool b) \<le> Second * tokens c + 100 * (lastRefill c' - lastRefill c)"
    using a r w by (auto simp: Allow_def Let_def split: if_splits)
qed

interpretation quota: byte_quota Reserve Release bufferUsed maxBuffer "2 ^ 32"
proof
  fix c c' :: conn_context and n :: nat and b
  assume c: "0 \<le> bufferUsed c" "bufferUsed c \<le> maxBuffer c" "maxBuffer c \<le> 2 ^ 62"
    and n: "n \<le> 2 ^ 32" and r: "Reserve (int n) c = (b, c')"
  have "int n \<le> 2 ^ 32" using n by (metis of_nat_le_numeral_power_cancel_iff)
  with c have "wrap64 (bufferUsed c + int n) = bufferUsed c + int n"
    by (intro wrap64_id) auto
  then show "b = (bufferUsed c + int n \<le> maxBuffer c) \<and> bufferUsed c' = bufferUsed c + int n \<and>
      maxBuffer c' = maxBuffer c"
    using r by (auto simp: Reserve_def Let_def)
next
  fix c :: conn_context and m :: nat
  assume c: "0 \<le> bufferUsed c" "bufferUsed c \<le> maxBuffer c" "maxBuffer c \<le> 2 ^ 62"
    and m: "int m \<le> bufferUsed c"
  have "wrap64 (- int m) = - int m" using c m by (intro wrap64_id) auto
  moreover have "wrap64 (bufferUsed c - int m) = bufferUsed c - int m"
    using c m by (intro wrap64_id) auto
  ultimately show "bufferUsed (Release (int m) c) = bufferUsed c - int m \<and>
      maxBuffer (Release (int m) c) = maxBuffer c"
    by (simp add: Release_def)
qed

section \<open>Properties\<close>

text \<open>
  Whatever the clock does (it may go backwards, or so far ahead that the products overflow),
  the bucket never holds a negative number of tokens or more than its burst.
\<close>

theorem tokens_in_range:
  assumes "ctx_inv c" and "allow_run Allow ts c = (bs, c')"
  shows "0 \<le> tokens c' \<and> tokens c' \<le> burst c \<and> burst c' = burst c"
  using assms
proof (induction ts arbitrary: c bs)
  case Nil
  then show ?case by (simp add: ctx_inv_def)
next
  case (Cons t ts)
  obtain b c1 where a: "Allow t c = (b, c1)" by (cases "Allow t c")
  with Cons.prems obtain bs1 where "allow_run Allow ts c1 = (bs1, c')"
    by (auto split: prod.splits)
  with Cons.IH Allow_inv [OF Cons.prems(1) a] Allow_frame [OF a] show ?case by metis
qed

theorem tokens_in_range_witness:
  "0 \<le> tokens (snd (allow_run Allow [0, -5, 2 ^ 63] (NewConnContext 0))) \<and>
   tokens (snd (allow_run Allow [0, -5, 2 ^ 63] (NewConnContext 0))) \<le> burst (NewConnContext 0) \<and>
   burst (snd (allow_run Allow [0, -5, 2 ^ 63] (NewConnContext 0))) = burst (NewConnContext 0)"
  by (rule tokens_in_range [OF ctx_inv_new surjective_pairing])

lemma allow_run_append:
  "allow_run a (xs @ ys) s =
    (case allow_run a xs s of (bs, s1) \<Rightarrow> case allow_run a ys s1 of (cs, s2) \<Rightarrow> (bs @ cs, s2))"
  by (induction xs arbitrary: s) (simp_all add: Let_def case_prod_beta)

lemma allow_run_length: "length (fst (allow_run a ts s)) = length ts"
  by (induction ts arbitrary: s) (simp_all add: Let_def case_prod_beta)

lemma allow_run_burst: "allow_run Allow ts c = (bs, c') \<Longrightarrow> burst c' = burst c"
proof (induction ts arbitrary: c bs)
  case (Cons t ts)
  obtain b c1 where "Allow t c = (b, c1)" by (cases "Allow t c")
  with Cons Allow_frame [OF this] show ?case by (auto split: prod.splits)
qed simp

text \<open>
  After a call there is no more left than the burst, the call included, and less than ten milliseconds
  are not yet accounted for.
\<close>

lemma Allow_capped:
  assumes "limiter_inv c" and "lastRefill c \<le> now" and "now - lastRefill c \<le> 2 ^ 55" and "Allow now c = (b, c')"
  shows "limiter_inv c' \<and> tokens c' + of_bool b \<le> burst c \<and> lastRefill c' \<le> now \<and>
    100 * (now - lastRefill c') < Second"
proof -
  have c: "ctx_inv c" "rate c = 100" using assms(1) by (simp_all add: limiter_inv_def)
  have r: "ctx_inv (refill now c)" by (rule refill_inv [OF c(1)])
  define add where "add = 100 * (now - lastRefill c) div Second"
  have eq: "refill now c =
      (if 0 < add then c\<lparr>tokens := min (burst c) (tokens c + add), lastRefill := now\<rparr> else c)"
    using refill_in_range [OF c assms(2,3)] by (simp add: Let_def add_def)
  have "\<not> 0 < add \<Longrightarrow> 100 * (now - lastRefill c) < Second"
    unfolding add_def by (simp add: Second_def pos_imp_zdiv_pos_iff)
  then have stamp: "lastRefill (refill now c) \<le> now" "100 * (now - lastRefill (refill now c)) < Second"
    using assms(2) by (auto simp: eq Second_def)
  have "limiter_inv c'" using assms(1) Allow_inv [OF _ assms(4)] Allow_frame [OF assms(4)]
    by (simp add: limiter_inv_def)
  moreover have "lastRefill c' = lastRefill (refill now c)"
    using assms(4) by (auto simp: Allow_def Let_def split: if_splits)
  moreover have "0 < tokens (refill now c) \<Longrightarrow> wrap64 (tokens (refill now c) - 1) = tokens (refill now c) - 1"
    using r by (intro wrap64_id) (auto simp: ctx_inv_def)
  then have "tokens c' + of_bool b \<le> burst c"
    using assms(4) r by (auto simp: Allow_def Let_def ctx_inv_def split: if_splits)
  ultimately show ?thesis using stamp by simp
qed

text \<open>
  C28: the rate limit holds, for the whole life of a connection and for every part of it.  With calls of
  \<open>Allow\<close> at non-decreasing times up to \<open>T\<close> (within a year), at most 100 plus 100 per second since the
  connection was opened are accepted; and from any call on, at time \<open>t\<close>, whatever happened before and
  however long the connection was idle, at most the burst of 200, plus 100 per second since \<open>t\<close>, plus
  one for the part of a token that was not yet credited.
\<close>

theorem rate_limit:
  assumes "sorted (t0 # us @ t # ts)" and "\<forall>x\<in>set (t # ts). x \<le> T" and "T - t0 \<le> 2 ^ 55"
    and "allow_run Allow (us @ t # ts) (NewConnContext t0) = (bs, c')"
  shows "accepted bs \<le> 100 + 100 * (T - t0) div Second \<and>
    accepted (drop (length us) bs) \<le> 200 + 1 + 100 * (T - t) div Second"
proof -
  let ?c = "NewConnContext t0"
  have c: "lastRefill ?c = t0" "tokens ?c = 100" "burst ?c = 200" by (simp_all add: NewConnContext_def)
  have le: "\<forall>x\<in>set (us @ t # ts). t0 \<le> x \<and> x \<le> T"
    using assms(1,2) by (fastforce simp: sorted_append)
  then have horizon: "\<forall>x\<in>set (us @ t # ts). x \<le> t0 + 2 ^ 55" using assms(3) by fastforce
  have "accepted bs \<le> tokens ?c + 100 * (last (lastRefill ?c # us @ t # ts) - lastRefill ?c) div Second"
    using assms(1) le horizon by (intro bucket.accepted_bound [OF _ _ _ assms(4)]) (simp_all add: c)
  moreover have "100 * (last (t0 # us @ t # ts) - t0) div Second \<le> 100 * (T - t0) div Second"
    using le last_in_set [of "us @ t # ts"] by (intro zdiv_mono1) (auto simp: Second_def)
  moreover have "accepted (drop (length us) bs) \<le> 200 + 1 + 100 * (T - t) div Second"
  proof -
    obtain bs1 c1 where u: "allow_run Allow us ?c = (bs1, c1)" by fastforce
    obtain b c2 where a: "Allow t c1 = (b, c2)" by fastforce
    obtain bs2 where v: "allow_run Allow ts c2 = (bs2, c')" and bs: "bs = bs1 @ b # bs2"
      using assms(4) by (auto simp: allow_run_append u a Let_def split: prod.splits)
    have drop: "drop (length us) bs = b # bs2"
      using allow_run_length [of Allow us ?c] by (simp add: bs u)
    have "limiter_inv c1 \<and> t0 \<le> lastRefill c1 \<and> lastRefill c1 \<le> last (t0 # us)"
      using bucket.allow_run_credit [OF _ _ _ u] assms(1) le horizon by (simp add: c sorted_append)
    moreover have "last (t0 # us) \<le> t" using assms(1) by (auto simp: sorted_append)
    ultimately have c1: "limiter_inv c1" "t0 \<le> lastRefill c1" "lastRefill c1 \<le> t" "t - lastRefill c1 \<le> 2 ^ 55"
      using assms(2,3) by auto
    have c2: "limiter_inv c2" "tokens c2 + of_bool b \<le> 200" "lastRefill c2 \<le> t"
      "100 * (t - lastRefill c2) < Second"
      using Allow_capped [OF c1(1,3,4) a] allow_run_burst [OF u] by (simp_all add: c)
    have "lastRefill c1 \<le> lastRefill c2" using bucket.allow_stamp [OF c1(1,3) _ a] c1(4) by auto
    then have far: "T - lastRefill c2 \<le> 2 ^ 55" using c1(2) assms(3) by linarith
    have ts: "sorted (t # ts)" using assms(1) by (simp add: sorted_append)
    have "accepted bs2 \<le> tokens c2 + 100 * (last (lastRefill c2 # ts) - lastRefill c2) div Second"
      using ts c2(1,3) far assms(2) by (intro bucket.accepted_bound [OF _ _ _ v]) auto
    also have "\<dots> \<le> tokens c2 + (100 * (T - t) + Second) div Second"
    proof -
      have "last (lastRefill c2 # ts) \<le> T" using c2(3) assms(2) by auto
      then have "100 * (last (lastRefill c2 # ts) - lastRefill c2) \<le> 100 * (T - lastRefill c2)" by simp
      also have "\<dots> \<le> 100 * (T - t) + Second" using c2(4) by (simp add: right_diff_distrib)
      finally have "100 * (last (lastRefill c2 # ts) - lastRefill c2) \<le> 100 * (T - t) + Second" .
      then show ?thesis by (intro add_left_mono zdiv_mono1) (simp_all add: Second_def)
    qed
    also have "\<dots> = tokens c2 + 100 * (T - t) div Second + 1" by (simp add: Second_def)
    finally show ?thesis using c2(2) by (simp add: drop)
  qed
  ultimately show ?thesis by (simp add: c)
qed

theorem rate_limit_witness:
  "accepted (fst (allow_run Allow [5, 20000000, 9000000000] (NewConnContext 0))) \<le> 100 + 100 * 9 \<and>
   accepted (drop 1 (fst (allow_run Allow [5, 20000000, 9000000000] (NewConnContext 0)))) \<le> 1099"
  using rate_limit [of 0 "[5]" 20000000 "[9000000000]" 9000000000, OF _ _ _ surjective_pairing]
  by (simp add: Second_def)

text \<open>
  The limiter recovers: ten milliseconds after its last refill it accepts again, however many
  calls it rejected in between.
\<close>

theorem allow_recovers:
  assumes "limiter_inv c" and "1 \<le> burst c"
    and "lastRefill c + Second div 100 \<le> now" and "now - lastRefill c \<le> 2 ^ 55"
  shows "fst (Allow now c)"
proof -
  define add where "add = 100 * (now - lastRefill c) div Second"
  have c: "ctx_inv c" "rate c = 100" using assms(1) by (simp_all add: limiter_inv_def)
  have le: "lastRefill c \<le> now" using assms(3) by (simp add: Second_def)
  have "Second \<le> 100 * (now - lastRefill c)" using assms(3) by (simp add: Second_def)
  then have pos: "0 < add" by (simp add: add_def Second_def pos_imp_zdiv_pos_iff)
  have "refill now c = c\<lparr>tokens := min (burst c) (tokens c + add), lastRefill := now\<rparr>"
    using refill_in_range [OF c le assms(4)] pos
    unfolding Let_def add_def [symmetric] by simp
  then have "0 < tokens (refill now c)"
    using c(1) assms(2) pos by (simp add: ctx_inv_def)
  then show ?thesis by (simp add: Allow_def Let_def)
qed

theorem allow_recovers_witness:
  "fst (Allow 10000000 (NewConnContext 0\<lparr>tokens := 0\<rparr>))"
  by (rule allow_recovers)
     (simp_all add: limiter_inv_def ctx_inv_def NewConnContext_def Second_def)

end
