(* ===== verification/Message.thy ===== *)
theory Message
  imports Prelude
begin

text \<open>
  \<open>protocol/message.go\<close>: a message is a 16-bit command, a 64-bit request id and a payload, laid
  out big-endian in ten bytes followed by the payload.
\<close>

definition MessageHeaderLen :: nat where "MessageHeaderLen = 2 + 8"

record message =
  msg_command :: "16 word"
  msg_request_id :: "64 word"
  msg_payload :: bytes

datatype message_error = MessageTooShort

text \<open>\<open>EncodeMessage\<close> has an error result and never uses it.\<close>

definition encode_message :: "message \<Rightarrow> message_error + bytes" where
  "encode_message m =
     Inr (put_be16 (msg_command m) @ put_be64 (msg_request_id m) @ msg_payload m)"

definition decode_message :: "bytes \<Rightarrow> message_error + message" where
  "decode_message data =
     (if length data < MessageHeaderLen then Inl MessageTooShort
      else Inr \<lparr>msg_command = be16 (data ! 0) (data ! 1),
                msg_request_id = be64 (data ! 2) (data ! 3) (data ! 4) (data ! 5)
                                      (data ! 6) (data ! 7) (data ! 8) (data ! 9),
                msg_payload = drop 10 data\<rparr>)"

lemma message_exists:
  assumes "MessageHeaderLen \<le> length data"
  obtains c r p where "data = put_be16 c @ put_be64 r @ p"
proof -
  obtain b0 b1 b2 b3 b4 b5 b6 b7 b8 b9 p where
    data: "data = b0 # b1 # b2 # b3 # b4 # b5 # b6 # b7 # b8 # b9 # p"
    using assms by (auto simp: MessageHeaderLen_def eval_nat_numeral Suc_le_length_iff)
  have "data = put_be16 (be16 b0 b1) @ put_be64 (be64 b2 b3 b4 b5 b6 b7 b8 b9) @ p"
    by (simp add: data wire_simps)
  then show thesis by (rule that)
qed

lemma decode_message_bytes:
  "decode_message (put_be16 c @ put_be64 r @ p) =
     Inr \<lparr>msg_command = c, msg_request_id = r, msg_payload = p\<rparr>"
  by (simp add: decode_message_def MessageHeaderLen_def be_defs wire_simps)

lemma length_encode_message:
  "encode_message m = Inr w \<Longrightarrow> length w = 10 + length (msg_payload m)"
  by (auto simp: encode_message_def)

section \<open>Properties\<close>

text \<open>
  C26: messages and byte strings of at least ten bytes correspond one to one: decoding what
  \<open>EncodeMessage\<close> writes gives the message back, every byte string that decodes is what
  \<open>EncodeMessage\<close> writes for its message, and decoding fails exactly on shorter inputs.
\<close>

theorem message_bijection:
  "(\<forall>m. \<exists>w. encode_message m = Inr w \<and> decode_message w = Inr m) \<and>
   (\<forall>data m. (decode_message data = Inr m) = (encode_message m = Inr data)) \<and>
   (\<forall>data. (decode_message data = Inl MessageTooShort) = (length data < 10))"
proof (intro conjI allI)
  fix m :: message
  show "\<exists>w. encode_message m = Inr w \<and> decode_message w = Inr m"
    by (simp add: encode_message_def decode_message_bytes)
next
  fix data m
  show "(decode_message data = Inr m) = (encode_message m = Inr data)"
  proof (cases "length data < MessageHeaderLen")
    case True
    then show ?thesis
      by (auto simp: decode_message_def MessageHeaderLen_def dest: length_encode_message)
  next
    case False
    then obtain c r p where data: "data = put_be16 c @ put_be64 r @ p"
      by (metis message_exists not_less)
    show ?thesis
      by (cases m) (auto simp: data decode_message_bytes encode_message_def)
  qed
next
  fix data
  show "(decode_message data = Inl MessageTooShort) = (length data < 10)"
    by (simp add: decode_message_def MessageHeaderLen_def)
qed

end
