(* ===== verification/GoStrings.thy ===== *)
theory GoStrings
  imports Prelude "HOL-Library.Sublist"
begin

text \<open>
  Go strings are byte strings; they are modelled as HOL strings, whose characters are bytes.
  This theory has the functions of package \<open>strings\<close> the program uses.
\<close>

section \<open>TrimSpace\<close>

text \<open>
  \<open>strings.TrimSpace\<close> cuts Unicode white space at both ends: the code points of
  \<open>unicode.IsSpace\<close>, here by their UTF-8 encodings.  No encoding is a prefix or a suffix of
  another, so looking for one of them at an end is what decoding the first or last rune does.
\<close>

definition space_encodings :: "string list" where
  "space_encodings =
     [[CHR 0x09], [CHR 0x0A], [CHR 0x0B], [CHR 0x0C], [CHR 0x0D], [CHR 0x20],
      [CHR 0xC2, CHR 0x85], [CHR 0xC2, CHR 0xA0], [CHR 0xE1, CHR 0x9A, CHR 0x80],
      [CHR 0xE2, CHR 0x80, CHR 0x80], [CHR 0xE2, CHR 0x80, CHR 0x81],
      [CHR 0xE2, CHR 0x80, CHR 0x82], [CHR 0xE2, CHR 0x80, CHR 0x83],
      [CHR 0xE2, CHR 0x80, CHR 0x84], [CHR 0xE2, CHR 0x80, CHR 0x85],
      [CHR 0xE2, CHR 0x80, CHR 0x86], [CHR 0xE2, CHR 0x80, CHR 0x87],
      [CHR 0xE2, CHR 0x80, CHR 0x88], [CHR 0xE2, CHR 0x80, CHR 0x89],
      [CHR 0xE2, CHR 0x80, CHR 0x8A], [CHR 0xE2, CHR 0x80, CHR 0xA8],
      [CHR 0xE2, CHR 0x80, CHR 0xA9], [CHR 0xE2, CHR 0x80, CHR 0xAF],
      [CHR 0xE2, CHR 0x81, CHR 0x9F], [CHR 0xE3, CHR 0x80, CHR 0x80]]"

lemma space_encodings_nonempty: "w \<in> set space_encodings \<Longrightarrow> w \<noteq> []"
  by (auto simp: space_encodings_def)

text \<open>Cut, as long as possible, one of the (non-empty) words of a list off the front.\<close>

function strip :: "string list \<Rightarrow> string \<Rightarrow> string" where
  "strip ws s =
     (case find (\<lambda>w. w \<noteq> [] \<and> prefix w s) ws of
        None \<Rightarrow> s
      | Some w \<Rightarrow> strip ws (drop (length w) s))"
  by pat_completeness auto
termination
  by (relation "measure (\<lambda>(ws, s). length s)")
     (auto simp: find_Some_iff prefix_def)

declare strip.simps [simp del]

definition trim_left :: "string \<Rightarrow> string" where
  "trim_left s = strip space_encodings s"

definition trim_right :: "string \<Rightarrow> string" where
  "trim_right s = rev (strip (map rev space_encodings) (rev s))"

definition TrimSpace :: "string \<Rightarrow> string" where
  "TrimSpace s = trim_right (trim_left s)"

lemma strip_suffix: "suffix (strip ws s) s"
proof (induction ws s rule: strip.induct)
  case (1 ws s)
  then show ?case
    by (subst strip.simps) (auto split: option.splits intro: suffix_order.trans suffix_drop)
qed

lemma strip_fixed: "find (\<lambda>w. w \<noteq> [] \<and> prefix w s) ws = None \<Longrightarrow> strip ws s = s"
  by (simp add: strip.simps)

lemma strip_no_space: "\<forall>w\<in>set ws. w \<noteq> [] \<longrightarrow> \<not> prefix w (strip ws s)"
proof (induction ws s rule: strip.induct)
  case (1 ws s)
  then show ?case
    by (subst strip.simps) (auto simp: find_None_iff split: option.splits)
qed

lemma strip_idem [simp]: "strip ws (strip ws s) = strip ws s"
  by (rule strip_fixed) (use strip_no_space [of ws s] in \<open>auto simp: find_None_iff\<close>)

lemma strip_prefix_free:
  assumes "strip ws s = s" and "prefix t s"
  shows "strip ws t = t"
proof (rule strip_fixed)
  from strip_no_space [of ws s] assms(1) have "\<forall>w\<in>set ws. w \<noteq> [] \<longrightarrow> \<not> prefix w s" by simp
  with assms(2) show "find (\<lambda>w. w \<noteq> [] \<and> prefix w t) ws = None"
    by (auto simp: find_None_iff intro: prefix_order.trans)
qed

lemma trim_right_prefix: "prefix (trim_right s) s"
  using strip_suffix [of "map rev space_encodings" "rev s"]
  by (simp add: trim_right_def suffix_to_prefix)

lemma trim_parts: "trim_left (TrimSpace s) = TrimSpace s" "trim_right (TrimSpace s) = TrimSpace s"
proof -
  show "trim_left (TrimSpace s) = TrimSpace s"
    unfolding TrimSpace_def trim_left_def
    by (rule strip_prefix_free [of _ "strip space_encodings s"])
       (simp_all add: trim_right_prefix)
  show "trim_right (TrimSpace s) = TrimSpace s" by (simp add: TrimSpace_def trim_right_def)
qed
lemma TrimSpace_idem [simp]: "TrimSpace (TrimSpace s) = TrimSpace s"
  by (simp add: TrimSpace_def [of "TrimSpace s"] trim_parts)

lemma TrimSpace_sublist: "sublist (TrimSpace s) s"
proof -
  have "suffix (trim_left s) s" by (simp add: trim_left_def strip_suffix)
  then have "sublist (trim_left s) s" by (rule suffix_imp_sublist)
  moreover have "sublist (TrimSpace s) (trim_left s)"
    unfolding TrimSpace_def by (rule prefix_imp_sublist) (rule trim_right_prefix)
  ultimately show ?thesis using sublist_order.order_trans by blast
qed

lemma length_TrimSpace: "length (TrimSpace s) \<le> length s"
  using TrimSpace_sublist by (rule sublist_length_le)

text \<open>Trimmed strings joined by a character that no space contains are trimmed.\<close>

lemma prefix_before:
  "c \<notin> set w \<Longrightarrow> prefix w (xs @ c # ys) \<Longrightarrow> prefix w xs"
proof (induction xs arbitrary: w)
  case Nil
  then show ?case by (cases w) auto
next
  case (Cons x xs)
  then show ?case by (cases w) auto
qed
lemma strip_before:
  assumes "strip ws xs = xs" "\<forall>w\<in>set ws. c \<notin> set w"
  shows "strip ws (xs @ c # ys) = xs @ c # ys"
proof (rule strip_fixed)
  from strip_no_space [of ws xs] assms(1) have "\<forall>w\<in>set ws. w \<noteq> [] \<longrightarrow> \<not> prefix w xs" by simp
  with assms(2) show "find (\<lambda>w. w \<noteq> [] \<and> prefix w (xs @ c # ys)) ws = None"
    by (auto simp: find_None_iff dest: prefix_before)
qed
lemma TrimSpace_join:
  assumes "c \<notin> \<Union> (set ` set space_encodings)"
  shows "TrimSpace (TrimSpace a @ c # TrimSpace b) = TrimSpace a @ c # TrimSpace b"
proof -
  have "trim_left (TrimSpace a @ c # TrimSpace b) = TrimSpace a @ c # TrimSpace b"
    using assms trim_parts(1) [of a] unfolding trim_left_def
    by (intro strip_before) auto
  moreover have "strip (map rev space_encodings) (rev (TrimSpace b) @ c # rev (TrimSpace a)) =
      rev (TrimSpace b) @ c # rev (TrimSpace a)"
    using assms trim_parts(2) [of b] unfolding trim_right_def
    by (intro strip_before) (auto simp: rev_swap)
  ultimately show ?thesis by (simp add: TrimSpace_def [of "_ @ _"] trim_right_def)
qed
lemma dot_no_space: "CHR ''.'' \<notin> \<Union> (set ` set space_encodings)" by (simp add: space_encodings_def)

text \<open>Evaluation of \<open>TrimSpace\<close> on closed strings.\<close>

lemmas TrimSpace_eval = TrimSpace_def trim_left_def trim_right_def space_encodings_def
  strip.simps

section \<open>LastIndexByte\<close>

text \<open>The index of the last occurrence of a byte: \<open>None\<close> for Go's \<open>-1\<close>.\<close>

fun LastIndexByte :: "string \<Rightarrow> char \<Rightarrow> nat option" where
  "LastIndexByte [] c = None"
| "LastIndexByte (x # xs) c =
     (case LastIndexByte xs c of
        Some i \<Rightarrow> Some (Suc i)
      | None \<Rightarrow> if x = c then Some 0 else None)"

lemma LastIndexByte_None_iff: "LastIndexByte s c = None \<longleftrightarrow> c \<notin> set s"
  by (induction s) (auto split: option.splits)

lemma LastIndexByte_split:
  "LastIndexByte s c = Some i \<longleftrightarrow>
     (\<exists>xs ys. s = xs @ c # ys \<and> c \<notin> set ys \<and> i = length xs)"
proof (induction s arbitrary: i)
  case Nil
  then show ?case by simp
next
  case (Cons x s)
  show ?case
  proof (cases "LastIndexByte s c")
    case None
    then have "c \<notin> set s" by (simp add: LastIndexByte_None_iff)
    then show ?thesis
      by (cases "x = c") (auto simp: None Cons_eq_append_conv)
  next
    case (Some j)
    with Cons.IH [of j] obtain xs ys where s: "s = xs @ c # ys" "c \<notin> set ys" "j = length xs"
      by auto
    have "x # s = us @ c # vs \<and> c \<notin> set vs \<longleftrightarrow> us = x # xs \<and> vs = ys" for us vs
      using s by (auto simp: Cons_eq_append_conv append_eq_append_conv2 append_eq_Cons_conv)
    then have "(\<exists>us vs. x # s = us @ c # vs \<and> c \<notin> set vs \<and> i = length us) \<longleftrightarrow> i = Suc j"
      using s(3) by (metis length_Cons)
    then show ?thesis by (simp add: Some eq_commute)
  qed
qed

lemma LastIndexByte_last:
  "c \<notin> set ys \<Longrightarrow> LastIndexByte (xs @ c # ys) c = Some (length xs)"
  by (auto simp: LastIndexByte_split)

end
