(* ===== verification/Mapper.thy ===== *)
theory Mapper
  imports GoStrings
begin

text \<open>
  \<open>protocol/mapper.go\<close>, \<open>protocol/commands.go\<close> and \<open>protocol/command.go\<close>: the process-wide table
  that binds full method names ("Service.Method") to 16-bit protocol commands, in both
  directions, behind a read-write mutex.  The state records whether the mutex is held for writing
  after the call: a panic between \<open>Lock\<close> and \<open>Unlock\<close> leaves it held, and a call that then locks
  it never returns (\<open>Hang\<close>).  Panic texts are shortened to their fixed part.
\<close>

definition CmdPing :: "16 word" where "CmdPing = 0x0001"
definition CmdUserLogin :: "16 word" where "CmdUserLogin = 0x0101"
definition CmdOrderCreate :: "16 word" where "CmdOrderCreate = 0x0201"

record command =
  cmd_service :: string
  cmd_method :: string

definition NewCommand :: "string \<Rightarrow> string \<Rightarrow> command" where
  "NewCommand service method = \<lparr>cmd_service = service, cmd_method = method\<rparr>"

record mapper =
  method_command :: "string \<rightharpoonup> 16 word"
  command_method :: "16 word \<rightharpoonup> string"
  strict_mapping :: bool
  mu_held :: bool

definition init_mapper :: mapper where
  "init_mapper = \<lparr>method_command = Map.empty, command_method = Map.empty,
                  strict_mapping = False, mu_held = False\<rparr>"

datatype mapper_error =
    InvalidMethodFormat string
  | UnregisteredMapping string

definition splitFullMethod :: "string \<Rightarrow> mapper_error + (string \<times> string)" where
  "splitFullMethod fullMethod =
     (case LastIndexByte fullMethod (CHR ''.'') of
        None \<Rightarrow> Inl (InvalidMethodFormat fullMethod)
      | Some idx \<Rightarrow>
          if idx \<le> 0 \<or> int idx \<ge> int (length fullMethod) - 1
          then Inl (InvalidMethodFormat fullMethod)
          else
            let service = TrimSpace (take idx fullMethod);
                method = TrimSpace (drop (idx + 1) fullMethod) in
            if service = [] \<or> method = [] then Inl (InvalidMethodFormat fullMethod)
            else Inr (service, method))"

definition SetStrictCommandMapping :: "bool \<Rightarrow> mapper \<Rightarrow> (mapper_error, unit) outcome \<times> mapper"
  where
  "SetStrictCommandMapping strict s =
     (if mu_held s then (Hang, s) else (Ok (), s\<lparr>strict_mapping := strict\<rparr>))"

definition RegisterFullMethodCommand ::
  "string \<Rightarrow> 16 word \<Rightarrow> mapper \<Rightarrow> (mapper_error, unit) outcome \<times> mapper" where
  "RegisterFullMethodCommand fullMethod cmd s =
     (let fullMethod = TrimSpace fullMethod in
      if fullMethod = [] then (Panic ''RegisterFullMethodCommand: empty fullMethod'', s)
      else
        (case splitFullMethod fullMethod of
           Inl e \<Rightarrow> (Panic ''RegisterFullMethodCommand: invalid method format'', s)
         | Inr _ \<Rightarrow>
             if mu_held s then (Hang, s)
             else if (case command_method s cmd of None \<Rightarrow> False
                      | Some existing \<Rightarrow> existing \<noteq> fullMethod)
             then (Panic ''command already bound'', s\<lparr>mu_held := True\<rparr>)
             else (Ok (), s\<lparr>method_command := (method_command s)(fullMethod \<mapsto> cmd),
                            command_method := (command_method s)(cmd \<mapsto> fullMethod)\<rparr>)))"

definition RegisterMethodCommand ::
  "string \<Rightarrow> string \<Rightarrow> 16 word \<Rightarrow> mapper \<Rightarrow> (mapper_error, unit) outcome \<times> mapper" where
  "RegisterMethodCommand service method cmd s =
     RegisterFullMethodCommand (service @ ''.'' @ method) cmd s"

text \<open>\<open>fnv.New32a\<close>: 32-bit FNV-1a over a string's bytes.\<close>

definition fnv32a_write :: "32 word \<Rightarrow> string \<Rightarrow> 32 word" where
  "fnv32a_write h s = foldl (\<lambda>h c. (h XOR of_char c) * 16777619) h s"

definition method_hash :: "string \<Rightarrow> string \<Rightarrow> 16 word" where
  "method_hash service method =
     ucast (fnv32a_write (fnv32a_write (fnv32a_write 2166136261 service) [CHR 0x00]) method)"

definition MapMethodToCommand :: "string \<Rightarrow> mapper \<Rightarrow> (mapper_error, 16 word) outcome" where
  "MapMethodToCommand fullMethod s =
     (let fullMethod = TrimSpace fullMethod in
      case splitFullMethod fullMethod of
        Inl e \<Rightarrow> Fail e
      | Inr (service, method) \<Rightarrow>
          let normalized = service @ ''.'' @ method in
          if mu_held s then Hang
          else
            (case method_command s normalized of
               Some cmd \<Rightarrow> Ok cmd
             | None \<Rightarrow>
                 if strict_mapping s then Fail (UnregisteredMapping normalized)
                 else Ok (method_hash service method)))"

section \<open>Normal forms of method names\<close>

lemma split_parts:
  assumes "splitFullMethod s = Inr (svc, meth)"
  shows "svc \<noteq> []" "meth \<noteq> []" "TrimSpace svc = svc" "TrimSpace meth = meth"
    "CHR ''.'' \<notin> set meth"
proof -
  from assms obtain i where i: "LastIndexByte s (CHR ''.'') = Some i"
    "svc = TrimSpace (take i s)" "meth = TrimSpace (drop (i + 1) s)" "svc \<noteq> []" "meth \<noteq> []"
    by (auto simp: splitFullMethod_def Let_def split: option.splits if_splits)
  then show "svc \<noteq> []" "meth \<noteq> []" "TrimSpace svc = svc" "TrimSpace meth = meth" by simp_all
  from i(1) have "CHR ''.'' \<notin> set (drop (i + 1) s)" by (auto simp: LastIndexByte_split)
  moreover have "set meth \<subseteq> set (drop (i + 1) s)"
    unfolding i(3) by (rule set_mono_sublist) (rule TrimSpace_sublist)
  ultimately show "CHR ''.'' \<notin> set meth" by blast
qed

lemma split_normal_form:
  assumes "splitFullMethod s = Inr (svc, meth)"
  shows "TrimSpace (svc @ ''.'' @ meth) = svc @ ''.'' @ meth"
    and "splitFullMethod (svc @ ''.'' @ meth) = Inr (svc, meth)"
proof -
  note parts = split_parts [OF assms]
  show "TrimSpace (svc @ ''.'' @ meth) = svc @ ''.'' @ meth"
    using TrimSpace_join [OF dot_no_space, of svc meth] parts by simp
  show "splitFullMethod (svc @ ''.'' @ meth) = Inr (svc, meth)"
    using parts LastIndexByte_last [OF parts(5), of svc]
    by (simp add: splitFullMethod_def Let_def)
qed

section \<open>Operations as steps\<close>

datatype mapper_op =
    OpRegister string "16 word"
  | OpSetStrict bool

fun mapper_step :: "mapper_op \<Rightarrow> mapper \<Rightarrow> (mapper_error, unit) outcome \<times> mapper" where
  "mapper_step (OpRegister m c) s = RegisterFullMethodCommand m c s"
| "mapper_step (OpSetStrict b) s = SetStrictCommandMapping b s"

text \<open>
  The states a process can reach: any sequence of calls, each of which may have panicked and been
  recovered by its caller.  A call that hangs leaves the state as it is.
\<close>

inductive mapper_reachable :: "mapper \<Rightarrow> bool" where
  start: "mapper_reachable init_mapper"
| step: "mapper_reachable s \<Longrightarrow> mapper_step op s = (r, s') \<Longrightarrow> mapper_reachable s'"

definition mapper_inv :: "mapper \<Rightarrow> bool" where
  "mapper_inv s \<longleftrightarrow>
     (\<forall>m c. method_command s m = Some c \<longrightarrow> command_method s c = Some m) \<and>
     (\<forall>m c. method_command s m = Some c \<longrightarrow> TrimSpace m = m \<and> (\<exists>p. splitFullMethod m = Inr p))"

lemma mapper_inv_init: "mapper_inv init_mapper"
  by (simp add: mapper_inv_def init_mapper_def)

lemma register_inv:
  "mapper_inv s \<Longrightarrow> RegisterFullMethodCommand m c s = (r, s') \<Longrightarrow> mapper_inv s'"
  unfolding RegisterFullMethodCommand_def mapper_inv_def
  by (auto simp: Let_def split: if_splits sum.splits option.splits)

lemma set_strict_inv:
  "mapper_inv s \<Longrightarrow> SetStrictCommandMapping b s = (r, s') \<Longrightarrow> mapper_inv s'"
  by (auto simp: SetStrictCommandMapping_def mapper_inv_def split: if_splits)

lemma reachable_mapper_inv: "mapper_reachable s \<Longrightarrow> mapper_inv s"
proof (induction rule: mapper_reachable.induct)
  case start
  show ?case by (rule mapper_inv_init)
next
  case (step s op r s')
  then show ?case by (cases op) (auto intro: register_inv set_strict_inv)
qed

lemma register_Ok:
  assumes "RegisterFullMethodCommand m c s = (Ok (), s')"
  shows "\<exists>svc meth. splitFullMethod (TrimSpace m) = Inr (svc, meth) \<and> \<not> mu_held s \<and>
    s' = s\<lparr>method_command := (method_command s)(TrimSpace m \<mapsto> c),
          command_method := (command_method s)(c \<mapsto> TrimSpace m)\<rparr>"
  using assms
  by (auto simp: RegisterFullMethodCommand_def Let_def split: if_splits sum.splits option.splits)

section \<open>Properties\<close>

text \<open>
  C30: no two methods ever share a command: in every state reached by any sequence of registrations and
  strictness changes, also ones that panicked, a method that is bound to a command is the one the
  command table names for it, and no other method is bound to it.  The converse fails
  (\<open>stale_command\<close>): a command keeps the method that has since been bound to another command.
\<close>

theorem commands_unique:
  assumes "mapper_reachable s" and "method_command s m = Some c"
  shows "command_method s c = Some m \<and> (\<forall>m'. method_command s m' = Some c \<longrightarrow> m' = m)"
  using reachable_mapper_inv [OF assms(1)] assms(2)
  unfolding mapper_inv_def by (metis option.inject)

text \<open>
  What a registration does to the lookup of the same name.  When the trimmed name is in
  normal form (no white space around its last dot), \<open>MapMethodToCommand\<close> returns the registered
  command from then on; otherwise the registration is accepted and stored, and has no effect on
  the lookup, which searches for the normal form.
\<close>

theorem register_then_map:
  assumes "RegisterFullMethodCommand m c s = (Ok (), s')"
    and "splitFullMethod (TrimSpace m) = Inr (svc, meth)"
  shows "MapMethodToCommand m s' =
    (if TrimSpace m = svc @ ''.'' @ meth then Ok c else MapMethodToCommand m s)"
proof -
  from register_Ok [OF assms(1)] have "\<not> mu_held s"
    "s' = s\<lparr>method_command := (method_command s)(TrimSpace m \<mapsto> c),
          command_method := (command_method s)(c \<mapsto> TrimSpace m)\<rparr>"
    by auto
  with assms(2) show ?thesis
    by (auto simp: MapMethodToCommand_def Let_def split: option.splits)
qed

text \<open>
  C31: the panic on a conflicting binding happens with the mutex held, and nothing releases it: if
  a caller recovers from it, every later registration of a well-formed name, every strictness
  change and every lookup of a well-formed name hangs.
\<close>

theorem conflict_blocks_mapper:
  assumes "splitFullMethod (TrimSpace m) = Inr p" and "\<not> mu_held s"
    and "command_method s c = Some m0" and "m0 \<noteq> TrimSpace m"
    and "RegisterFullMethodCommand m c s = (r, s')"
    and "splitFullMethod (TrimSpace n) = Inr q"
  shows "r = Panic ''command already bound'' \<and>
    RegisterFullMethodCommand n d s' = (Hang, s') \<and>
    SetStrictCommandMapping b s' = (Hang, s') \<and>
    MapMethodToCommand n s' = Hang"
proof -
  have ne: "TrimSpace k \<noteq> []" if "splitFullMethod (TrimSpace k) = Inr x" for k x
    using that by (auto simp: splitFullMethod_def)
  from assms ne [OF assms(1)] have "r = Panic ''command already bound''" "mu_held s'"
    by (auto simp: RegisterFullMethodCommand_def Let_def)
  with assms(6) ne [OF assms(6)] show ?thesis
    by (auto simp: RegisterFullMethodCommand_def SetStrictCommandMapping_def
        MapMethodToCommand_def Let_def split: prod.splits)
qed

text \<open>
  A lookup depends on the normal form of the name only: any spelling that splits into the
  same trimmed service and method gets the answer of "service.method", and in strict mode an
  answer is always a registered command.
\<close>

theorem map_method_normal_form:
  assumes "splitFullMethod (TrimSpace m) = Inr (svc, meth)"
  shows "MapMethodToCommand m s = MapMethodToCommand (svc @ ''.'' @ meth) s \<and>
    (strict_mapping s \<longrightarrow> MapMethodToCommand m s = Ok c \<longrightarrow>
       method_command s (svc @ ''.'' @ meth) = Some c)"
  using assms split_normal_form [OF assms]
  by (auto simp: MapMethodToCommand_def Let_def split: if_splits option.splits)

section \<open>Witnesses\<close>

lemmas mapper_eval = RegisterFullMethodCommand_def MapMethodToCommand_def splitFullMethod_def
  SetStrictCommandMapping_def init_mapper_def TrimSpace_eval Let_def

definition ping_mapper :: mapper where
  "ping_mapper = snd (RegisterFullMethodCommand ''N.P'' CmdPing init_mapper)"

lemma register_ping: "RegisterFullMethodCommand ''N.P'' CmdPing init_mapper = (Ok (), ping_mapper)"
  by (simp add: ping_mapper_def mapper_eval)

lemma split_ping: "splitFullMethod (TrimSpace ''N.P'') = Inr (''N'', ''P'')"
  by (simp add: mapper_eval)

text \<open>Registering a method a second time leaves its first command bound to it in the command table.\<close>

lemma stale_command:
  "\<exists>s1 s2. RegisterFullMethodCommand ''A.B'' 1 init_mapper = (Ok (), s1) \<and>
     RegisterFullMethodCommand ''A.B'' 2 s1 = (Ok (), s2) \<and>
     command_method s2 1 = Some ''A.B'' \<and> method_command s2 ''A.B'' = Some 2 \<and>
     fst (RegisterFullMethodCommand ''C.D'' 1 s2) = Panic ''command already bound''"
  by (simp add: init_mapper_def mapper_eval)

theorem commands_unique_witness:
  "command_method ping_mapper CmdPing = Some ''N.P'' \<and>
   {m. method_command ping_mapper m = Some CmdPing} = {''N.P''}"
proof -
  have r: "mapper_reachable ping_mapper"
    by (rule mapper_reachable.step [OF mapper_reachable.start, of "OpRegister ''N.P'' CmdPing"])
       (simp add: register_ping)
  have m: "method_command ping_mapper ''N.P'' = Some CmdPing"
    by (simp add: ping_mapper_def mapper_eval)
  have c: "command_method ping_mapper CmdPing = Some ''N.P''"
    and u: "\<forall>m. method_command ping_mapper m = Some CmdPing \<longrightarrow> m = ''N.P''"
    using commands_unique [OF r m] by blast+
  have "{m. method_command ping_mapper m = Some CmdPing} = {''N.P''}" using u m by blast
  with c show ?thesis by (rule conjI)
qed

theorem register_then_map_witness:
  "MapMethodToCommand ''N.P'' ping_mapper =
     (if TrimSpace ''N.P'' = ''N'' @ ''.'' @ ''P'' then Ok CmdPing
      else MapMethodToCommand ''N.P'' init_mapper)"
  by (rule register_then_map [OF register_ping split_ping])

theorem conflict_blocks_mapper_witness:
  "MapMethodToCommand ''N.P'' (snd (RegisterFullMethodCommand ''A.B'' CmdPing ping_mapper)) = Hang"
proof -
  have ab: "splitFullMethod (TrimSpace ''A.B'') = Inr (''A'', ''B'')" by (simp add: mapper_eval)
  have "\<not> mu_held ping_mapper" "command_method ping_mapper CmdPing = Some ''N.P''"
    by (simp_all add: ping_mapper_def mapper_eval)
  moreover have "''N.P'' \<noteq> TrimSpace ''A.B''" by (simp add: mapper_eval)
  ultimately show ?thesis
    using conflict_blocks_mapper [OF ab _ _ _ surjective_pairing split_ping] by blast
qed

theorem map_method_normal_form_witness:
  "MapMethodToCommand ''N.P'' ping_mapper = MapMethodToCommand (''N'' @ ''.'' @ ''P'') ping_mapper"
  by (rule map_method_normal_form [OF split_ping, THEN conjunct1])

end
