(* ===== verification/Router.thy ===== *)
theory Router
  imports Message GoErrors Mapper
begin

text \<open>
  The command router (\<open>router.go\<close>), the dispatcher table behind it
  (\<open>internal/dispatcher/dispatcher.go\<close>), the business handlers registered there
  (\<open>internal/service\<close>), the bridge between the two (\<open>BridgeProtocolHandler\<close> in \<open>main.go\<close>) and
  the server's \<open>setup\<close> (\<open>cmd/server/main.go\<close>).

  A Go function value is a HOL function or, for \<open>nil\<close>, \<open>None\<close>.  Handlers get the context, may
  read and change an application state \<open>'s\<close>, and may panic or not return.  The dispatcher table is
  a package variable that the bridged handlers read when they run, so it is part of the state
  those handlers are given.
\<close>

datatype app_err =
    UnknownCommand "16 word"
  | NoDispatcherHandler "16 word"
  | AppErr go_err

type_synonym ('ctx, 's) handler =
  "'ctx \<Rightarrow> message \<Rightarrow> 's \<Rightarrow> (app_err, message option) outcome \<times> 's"

type_synonym ('ctx, 's) payload_handler =
  "'ctx \<Rightarrow> bytes \<Rightarrow> 's \<Rightarrow> (app_err, bytes) outcome \<times> 's"

section \<open>Router\<close>

record ('ctx, 's) router =
  handlers :: "16 word \<rightharpoonup> ('ctx, 's) handler option"

definition NewRouter :: "('ctx, 's) router" where
  "NewRouter = \<lparr>handlers = Map.empty\<rparr>"

definition Register ::
  "16 word \<Rightarrow> ('ctx, 's) handler option \<Rightarrow> ('ctx, 's) router \<Rightarrow> ('ctx, 's) router" where
  "Register cmd h r = r\<lparr>handlers := (handlers r)(cmd \<mapsto> h)\<rparr>"

definition Dispatch ::
  "'ctx \<Rightarrow> message \<Rightarrow> ('ctx, 's) router \<Rightarrow> 's \<Rightarrow> (app_err, message option) outcome \<times> 's" where
  "Dispatch ctx m r s =
     (let h = (case handlers r (msg_command m) of None \<Rightarrow> None | Some h \<Rightarrow> h) in
      case h of
        None \<Rightarrow> (Fail (UnknownCommand (msg_command m)), s)
      | Some h \<Rightarrow> h ctx m s)"

section \<open>Dispatcher table\<close>

type_synonym ('ctx, 's) dispatch_table = "16 word \<rightharpoonup> ('ctx, 's) payload_handler option"

definition dispatcher_Register ::
  "16 word \<Rightarrow> ('ctx, 's) payload_handler option \<Rightarrow> ('ctx, 's) dispatch_table \<Rightarrow>
   ('ctx, 's) dispatch_table" where
  "dispatcher_Register cmd h tab = tab(cmd \<mapsto> h)"

definition dispatcher_Dispatch ::
  "'ctx \<Rightarrow> 16 word \<Rightarrow> bytes \<Rightarrow> ('ctx, 's) dispatch_table \<times> 's \<Rightarrow>
   (app_err, bytes) outcome \<times> (('ctx, 's) dispatch_table \<times> 's)" where
  "dispatcher_Dispatch ctx cmd payload g =
     (case g of (tab, s) \<Rightarrow>
       (case tab cmd of
          None \<Rightarrow> (Fail (NoDispatcherHandler cmd), g)
        | Some None \<Rightarrow> (Panic ''nil pointer dereference'', g)
        | Some (Some h) \<Rightarrow> (case h ctx payload s of (out, s') \<Rightarrow> (out, (tab, s')))))"

section \<open>Business handlers\<close>

definition go_bytes :: "string \<Rightarrow> bytes" where
  "go_bytes s = map of_char s"

definition NovaService_Handle :: "('ctx, 's) payload_handler" where
  "NovaService_Handle ctx data s = (Ok data, s)"

definition RegisterHandlers :: "('ctx, 's) dispatch_table \<Rightarrow> ('ctx, 's) dispatch_table" where
  "RegisterHandlers tab =
     (let tab = dispatcher_Register CmdPing
                  (Some (\<lambda>ctx payload s. (Ok (go_bytes ''pong''), s))) tab;
          tab = dispatcher_Register CmdUserLogin
                  (Some (\<lambda>ctx payload s. (Ok (go_bytes ''ok''), s))) tab;
          tab = dispatcher_Register CmdOrderCreate
                  (Some (\<lambda>ctx payload s. (Ok (go_bytes ''ok''), s))) tab
      in tab)"

section \<open>Bridge\<close>

definition BridgeProtocolHandler ::
  "16 word \<Rightarrow> ('ctx, 's) payload_handler \<Rightarrow> ('ctx, 's) handler" where
  "BridgeProtocolHandler cmd fn ctx m s =
     and_then (fn ctx (msg_payload m) s)
       (\<lambda>out s. (Ok (Some \<lparr>msg_command = cmd, msg_request_id = msg_request_id m,
                            msg_payload = out\<rparr>), s))"

section \<open>Setup of the server\<close>

text \<open>What \<open>setup\<close> changes: the mapper, the dispatcher table and the router it is given.\<close>

record ('ctx, 's) setup_state =
  su_mapper :: mapper
  su_table :: "('ctx, 's) dispatch_table"
  su_router :: "('ctx, ('ctx, 's) dispatch_table \<times> 's) router"

definition on_mapper ::
  "(mapper \<Rightarrow> ('e, 'a) outcome \<times> mapper) \<Rightarrow> ('ctx, 's) setup_state \<Rightarrow>
   ('e, 'a) outcome \<times> ('ctx, 's) setup_state" where
  "on_mapper f g = (case f (su_mapper g) of (r, mp) \<Rightarrow> (r, g\<lparr>su_mapper := mp\<rparr>))"

definition bridge :: "16 word \<Rightarrow> ('ctx, 's) setup_state \<Rightarrow> ('ctx, 's) setup_state" where
  "bridge cmd g = g\<lparr>su_router := Register cmd
      (Some (BridgeProtocolHandler cmd (\<lambda>ctx payload. dispatcher_Dispatch ctx cmd payload)))
      (su_router g)\<rparr>"

definition server_setup ::
  "('ctx, 's) setup_state \<Rightarrow> (mapper_error, unit) outcome \<times> ('ctx, 's) setup_state" where
  "server_setup g =
     and_then (on_mapper (RegisterFullMethodCommand ''NovaService.Ping'' CmdPing) g) (\<lambda>_ g.
     and_then (on_mapper (RegisterFullMethodCommand ''UserService.Login'' CmdUserLogin) g) (\<lambda>_ g.
     and_then (on_mapper (RegisterFullMethodCommand ''OrderService.Create'' CmdOrderCreate) g) (\<lambda>_ g.
     and_then (on_mapper (SetStrictCommandMapping True) g) (\<lambda>_ g.
       (let g = g\<lparr>su_table := RegisterHandlers (su_table g)\<rparr>;
            g = bridge CmdPing g;
            g = bridge CmdUserLogin g;
            g = bridge CmdOrderCreate g
        in (Ok (), g))))))"

section \<open>Lemmas\<close>

lemma Dispatch_Register_same [simp]:
  "Dispatch ctx m (Register (msg_command m) (Some h) r) s = h ctx m s"
  by (simp add: Dispatch_def Register_def)

lemma Dispatch_Register_other [simp]:
  "cmd \<noteq> msg_command m \<Longrightarrow> Dispatch ctx m (Register cmd h r) s = Dispatch ctx m r s"
  by (simp add: Dispatch_def Register_def)

lemma cmd_distinct [simp]:
  "CmdPing \<noteq> CmdUserLogin" "CmdPing \<noteq> CmdOrderCreate" "CmdUserLogin \<noteq> CmdOrderCreate"
  "CmdUserLogin \<noteq> CmdPing" "CmdOrderCreate \<noteq> CmdPing" "CmdOrderCreate \<noteq> CmdUserLogin"
  by (simp_all add: CmdPing_def CmdUserLogin_def CmdOrderCreate_def)

text \<open>The three method names of \<open>setup\<close> are in normal form.\<close>

lemma setup_names [simp]:
  "TrimSpace ''NovaService.Ping'' = ''NovaService.Ping''"
  "TrimSpace ''UserService.Login'' = ''UserService.Login''"
  "TrimSpace ''OrderService.Create'' = ''OrderService.Create''"
  "splitFullMethod ''NovaService.Ping'' = Inr (''NovaService'', ''Ping'')"
  "splitFullMethod ''UserService.Login'' = Inr (''UserService'', ''Login'')"
  "splitFullMethod ''OrderService.Create'' = Inr (''OrderService'', ''Create'')"
  by (simp_all add: splitFullMethod_def TrimSpace_eval)

text \<open>
  The mapper states \<open>setup\<close> can run in: the lock is free and no command of the table is bound to
  another method.
\<close>

definition wired :: "mapper \<Rightarrow> bool" where
  "wired s \<longleftrightarrow>
     \<not> mu_held s \<and>
     command_method s CmdPing \<in> {None, Some ''NovaService.Ping''} \<and>
     command_method s CmdUserLogin \<in> {None, Some ''UserService.Login''} \<and>
     command_method s CmdOrderCreate \<in> {None, Some ''OrderService.Create''}"

definition bind_method :: "string \<Rightarrow> 16 word \<Rightarrow> mapper \<Rightarrow> mapper" where
  "bind_method m c s = s\<lparr>method_command := (method_command s)(m \<mapsto> c),
                         command_method := (command_method s)(c \<mapsto> m)\<rparr>"

lemma bind_method_simps [simp]:
  "mu_held (bind_method m c s) = mu_held s"
  "command_method (bind_method m c s) = (command_method s)(c \<mapsto> m)"
  "method_command (bind_method m c s) = (method_command s)(m \<mapsto> c)"
  "strict_mapping (bind_method m c s) = strict_mapping s"
  by (simp_all add: bind_method_def)

lemma register_free:
  assumes "TrimSpace m = m" "splitFullMethod m = Inr p" "\<not> mu_held s"
    and "command_method s c \<in> {None, Some m}"
  shows "RegisterFullMethodCommand m c s = (Ok (), bind_method m c s)"
proof -
  have "m \<noteq> []" using assms(2) by (auto simp: splitFullMethod_def)
  then show ?thesis using assms
    by (auto simp: RegisterFullMethodCommand_def bind_method_def Let_def split: option.splits)
qed

definition wire :: "('ctx, 's) setup_state \<Rightarrow> ('ctx, 's) setup_state" where
  "wire g =
     bridge CmdOrderCreate (bridge CmdUserLogin (bridge CmdPing
       (g\<lparr>su_mapper := (bind_method ''OrderService.Create'' CmdOrderCreate
             (bind_method ''UserService.Login'' CmdUserLogin
               (bind_method ''NovaService.Ping'' CmdPing (su_mapper g))))\<lparr>strict_mapping := True\<rparr>,
          su_table := RegisterHandlers (su_table g)\<rparr>)))"

lemma server_setup_wire:
  assumes "wired (su_mapper g)"
  shows "server_setup g = (Ok (), wire g)"
  using assms
  by (auto simp: server_setup_def on_mapper_def wired_def wire_def register_free
      SetStrictCommandMapping_def Let_def)

lemma wired_init: "wired init_mapper"
  by (simp add: wired_def init_mapper_def)

lemma RegisterHandlers_apply:
  "RegisterHandlers tab c =
     (if c = CmdOrderCreate \<or> c = CmdUserLogin
      then Some (Some (\<lambda>ctx payload s. (Ok (go_bytes ''ok''), s)))
      else if c = CmdPing then Some (Some (\<lambda>ctx payload s. (Ok (go_bytes ''pong''), s)))
      else tab c)"
  by (simp add: RegisterHandlers_def dispatcher_Register_def)

lemma wire_simps [simp]:
  "su_table (wire g) = RegisterHandlers (su_table g)"
  "strict_mapping (su_mapper (wire g)) = True"
  "mu_held (su_mapper (wire g)) = mu_held (su_mapper g)"
  by (simp_all add: wire_def bridge_def)

lemma wire_handlers:
  "handlers (su_router (wire g)) c =
     (if c \<in> {CmdPing, CmdUserLogin, CmdOrderCreate}
      then Some (Some (BridgeProtocolHandler c (\<lambda>ctx payload. dispatcher_Dispatch ctx c payload)))
      else handlers (su_router g) c)"
  by (simp add: wire_def bridge_def Register_def)

section \<open>Properties\<close>

text \<open>The answer of the gateway to a message, as the command table of the protocol lists it.\<close>

definition gateway_answer :: "message \<Rightarrow> (app_err, message option) outcome" where
  "gateway_answer m =
     (if msg_command m = CmdPing then Ok (Some (m\<lparr>msg_payload := go_bytes ''pong''\<rparr>))
      else if msg_command m = CmdUserLogin \<or> msg_command m = CmdOrderCreate
      then Ok (Some (m\<lparr>msg_payload := go_bytes ''ok''\<rparr>))
      else Fail (UnknownCommand (msg_command m)))"

lemma gateway_dispatch:
  assumes "su_router g = NewRouter"
  shows "Dispatch ctx m (su_router (wire g)) (su_table (wire g), s) =
    (gateway_answer m, (su_table (wire g), s))"
  using assms by (cases m)
    (auto simp: Dispatch_def wire_handlers BridgeProtocolHandler_def dispatcher_Dispatch_def
      RegisterHandlers_apply gateway_answer_def NewRouter_def)

text \<open>
  The wired gateway, end to end: after \<open>setup\<close> on a fresh router, dispatching any message
  answers Ping with "pong" and the other two commands with "ok", echoing command and request id,
  rejects every other command, and leaves the application state alone.
\<close>

theorem gateway_commands:
  assumes "wired (su_mapper g)" and "su_router g = NewRouter"
  shows "\<exists>g'. server_setup g = (Ok (), g') \<and>
    (\<forall>ctx m s. Dispatch ctx m (su_router g') (su_table g', s) = (gateway_answer m, (su_table g', s)))"
proof (intro exI conjI allI)
  show "server_setup g = (Ok (), wire g)" using assms(1) by (rule server_setup_wire)
  show "Dispatch ctx m (su_router (wire g)) (su_table (wire g), s) =
      (gateway_answer m, (su_table (wire g), s))" for ctx m s
    using assms(2) by (rule gateway_dispatch)
qed

definition fresh_setup :: "(unit, unit) setup_state" where
  "fresh_setup = \<lparr>su_mapper = init_mapper, su_table = Map.empty, su_router = NewRouter\<rparr>"

theorem gateway_commands_witness:
  "\<exists>g'. server_setup fresh_setup = (Ok (), g') \<and>
    (\<forall>ctx m s. Dispatch ctx m (su_router g') (su_table g', s) = (gateway_answer m, (su_table g', s)))"
  by (rule gateway_commands) (simp_all add: fresh_setup_def wired_init)

text \<open>
  \<open>setup\<close> can run again in the same process (as the package's tests do): a second run
  returns without a panic and changes nothing, and after it strict mapping is on and the three
  method names map to their commands.
\<close>

theorem setup_idempotent:
  assumes "wired (su_mapper g)" and "server_setup g = (Ok (), g')"
  shows "server_setup g' = (Ok (), g') \<and> strict_mapping (su_mapper g') \<and>
    MapMethodToCommand ''NovaService.Ping'' (su_mapper g') = Ok CmdPing \<and>
    MapMethodToCommand ''UserService.Login'' (su_mapper g') = Ok CmdUserLogin \<and>
    MapMethodToCommand ''OrderService.Create'' (su_mapper g') = Ok CmdOrderCreate"
proof -
  have g': "g' = wire g" using assms server_setup_wire by fastforce
  have mapper: "wired (su_mapper (wire g))" "\<not> mu_held (su_mapper (wire g))"
    using assms(1) by (simp_all add: wired_def wire_def bridge_def)
  have "wire (wire g) = wire g"
    by (rule setup_state.equality)
       (auto simp: wire_def bridge_def bind_method_def Register_def RegisterHandlers_def
         dispatcher_Register_def fun_upd_twist intro!: mapper.equality router.equality)
  with mapper have "server_setup g' = (Ok (), g')"
    by (simp add: g' server_setup_wire)
  then show ?thesis using mapper
    by (simp add: g' MapMethodToCommand_def Let_def) (simp add: wire_def bridge_def)
qed

theorem setup_idempotent_witness:
  "server_setup (wire fresh_setup) = (Ok (), wire fresh_setup) \<and>
    strict_mapping (su_mapper (wire fresh_setup)) \<and>
    MapMethodToCommand ''NovaService.Ping'' (su_mapper (wire fresh_setup)) = Ok CmdPing \<and>
    MapMethodToCommand ''UserService.Login'' (su_mapper (wire fresh_setup)) = Ok CmdUserLogin \<and>
    MapMethodToCommand ''OrderService.Create'' (su_mapper (wire fresh_setup)) = Ok CmdOrderCreate"
proof -
  have w: "wired (su_mapper fresh_setup)" by (simp add: fresh_setup_def wired_init)
  show ?thesis by (rule setup_idempotent [OF w server_setup_wire [OF w]])
qed

end
