(* ===== verification/ConnHandler.thy ===== *)
theory ConnHandler
  imports Compress ConnContext Router
begin

text \<open>
  \<open>conn_handler.go\<close>: the loop that serves one connection.  It reads chunks of at most
  \<open>len(state.tmp)\<close> bytes into a buffer charged against the connection's quota, decodes and
  dispatches every complete frame of the buffer, writes the responses, and compacts the buffer.

  The world of a connection is made explicit in the record \<open>world\<close>: the results of the successive
  \<open>conn.Read\<close> calls (the bytes read and the error, if any) and of the successive \<open>conn.Write\<close> calls
  (the count and the error), the clock, the bytes sent, the deadlines set, and the state of the
  application behind the router.  A connection that has no further result for a read or a write
  blocks in it: the outcome is \<open>Hang\<close>.
\<close>

datatype deadline_event =
    ReadDeadline "int option"
  | WriteDeadline "int option"

record 's world =
  reads :: "(bytes \<times> go_err option) list"
  writes :: "(nat \<times> go_err option) list"
  clock :: "nat \<Rightarrow> int"
  tick :: nat
  sent :: bytes
  deadlines :: "deadline_event list"
  app :: 's

datatype conn_err =
    NilRouter
  | IdleTimeout
  | QuotaExceeded
  | RateExceeded
  | FrameErr frame_error
  | BodyErr body_error
  | MessageErr message_error
  | HandlerErr app_err
  | NetworkErr go_err

text \<open>\<open>connHandlerState\<close>, without the scratch slice \<open>tmp\<close> of \<open>4 * 1024\<close> bytes that every read overwrites.\<close>

record conn_state =
  cc :: conn_context
  buf :: bytes

definition tmp_len :: nat where "tmp_len = 4 * 1024"

definition time_now :: "'s world \<Rightarrow> int \<times> 's world" where
  "time_now w = (clock w (tick w), w\<lparr>tick := Suc (tick w)\<rparr>)"

text \<open>\<open>conn.SetReadDeadline\<close> and \<open>conn.SetWriteDeadline\<close>; the zero time clears the deadline.\<close>

definition set_deadline :: "(int option \<Rightarrow> deadline_event) \<Rightarrow> int \<Rightarrow> 's world \<Rightarrow> 's world" where
  "set_deadline ev timeout w =
     (if timeout > 0
      then (case time_now w of (now, w) \<Rightarrow> w\<lparr>deadlines := deadlines w @ [ev (Some (now + timeout))]\<rparr>)
      else w\<lparr>deadlines := deadlines w @ [ev None]\<rparr>)"

section \<open>Writing a response\<close>

text \<open>The loop \<open>for len(data) > 0\<close> of \<open>writeAll\<close>.\<close>

fun write_loop ::
  "bytes \<Rightarrow> (nat \<times> go_err option) list \<Rightarrow> bytes \<Rightarrow>
   (conn_err, unit) outcome \<times> (nat \<times> go_err option) list \<times> bytes" where
  "write_loop [] ws out = (Ok (), ws, out)"
| "write_loop data [] out = (Hang, [], out)"
| "write_loop data ((n, Some e) # ws) out = (Fail (NetworkErr e), ws, out @ take n data)"
| "write_loop data ((n, None) # ws) out =
     (if n > length data then (Panic ''slice bounds out of range'', ws, out @ data)
      else write_loop (drop n data) ws (out @ take n data))"

definition write_all :: "bytes \<Rightarrow> int \<Rightarrow> 's world \<Rightarrow> (conn_err, unit) outcome \<times> 's world" where
  "write_all data writeTimeout w =
     (let w = set_deadline WriteDeadline writeTimeout w in
      case write_loop data (writes w) (sent w) of
        (r, ws, out) \<Rightarrow>
          (let w = w\<lparr>writes := ws, sent := out\<rparr> in
           if writeTimeout > 0 \<and> r \<noteq> Hang
           then (r, w\<lparr>deadlines := deadlines w @ [WriteDeadline None]\<rparr>)
           else (r, w)))"

section \<open>One frame\<close>

text \<open>A call whose error becomes the connection's error, as in \<open>if err != nil { return err }\<close>.\<close>

fun lift_err :: "('e \<Rightarrow> 'f) \<Rightarrow> 'e + 'a \<Rightarrow> ('f, 'a) outcome" where
  "lift_err c (Inl e) = Fail (c e)"
| "lift_err c (Inr x) = Ok x"

text \<open>
  \<open>handleFrame\<close> in three steps: the end, which encodes and writes a response; the middle, from the
  frame body to the handler's result; and the start, which asks the rate limiter.
\<close>

definition write_response ::
  "gzip \<Rightarrow> frame \<Rightarrow> message \<Rightarrow> message \<Rightarrow> int \<Rightarrow> 's world \<Rightarrow> (conn_err, unit) outcome \<times> 's world" where
  "write_response gz frame msg resp writeTimeout w =
     (let resp = (if msg_request_id resp = 0
                  then resp\<lparr>msg_request_id := msg_request_id msg\<rparr> else resp) in
      and_then (lift_err MessageErr (encode_message resp), w) (\<lambda>respBytes w.
      and_then (lift_err BodyErr
                  (encode_frame_body gz (fr_flags frame AND FlagCompressed) respBytes), w)
        (\<lambda>outFrame w.
      and_then (encode \<lparr>fr_version = 0, fr_flags = fst outFrame, fr_body = snd outFrame\<rparr>, w)
        (\<lambda>out w. write_all out writeTimeout w))))"

definition dispatch_frame ::
  "gzip \<Rightarrow> 'ctx \<Rightarrow> ('ctx, 's) router \<Rightarrow> frame \<Rightarrow> int \<Rightarrow> 's world \<Rightarrow>
   (conn_err, unit) outcome \<times> 's world" where
  "dispatch_frame gz ctx router frame writeTimeout w =
     (let oneWay = (fr_flags frame AND FlagOneWay \<noteq> 0) in
      and_then (lift_err BodyErr (decode_frame_body gz (Some frame)), w) (\<lambda>body w.
      and_then (lift_err MessageErr (decode_message body), w) (\<lambda>msg w.
      and_then
        (case Dispatch ctx msg router (app w) of
           (Ok resp, s) \<Rightarrow> (Ok resp, w\<lparr>app := s\<rparr>)
         | (Fail e, s) \<Rightarrow> (Fail (HandlerErr e), w\<lparr>app := s\<rparr>)
         | (Panic p, s) \<Rightarrow> (Panic p, w\<lparr>app := s\<rparr>)
         | (Hang, s) \<Rightarrow> (Hang, w\<lparr>app := s\<rparr>))
        (\<lambda>resp w.
         case resp of
           None \<Rightarrow> (Ok (), w)
         | Some resp \<Rightarrow>
             if oneWay then (Ok (), w)
             else write_response gz frame msg resp writeTimeout w))))"

definition handle_frame ::
  "gzip \<Rightarrow> 'ctx \<Rightarrow> ('ctx, 's) router \<Rightarrow> frame \<Rightarrow> int \<Rightarrow> conn_state \<times> 's world \<Rightarrow>
   (conn_err, unit) outcome \<times> (conn_state \<times> 's world)" where
  "handle_frame gz ctx router frame writeTimeout g =
     (case g of (st, w) \<Rightarrow>
      let (now, w) = time_now w;
          (ok, cc') = Allow now (cc st);
          st = st\<lparr>cc := cc'\<rparr> in
      if \<not> ok then (Fail RateExceeded, (st, w))
      else (case dispatch_frame gz ctx router frame writeTimeout w of (r, w) \<Rightarrow> (r, (st, w))))"

section \<open>The buffered frames\<close>

text \<open>
  The loop of \<open>processBufferedFrames\<close>: it decodes \<open>state.buf[consumed:]\<close> and handles the frame,
  until an error or until the rest of the buffer holds no complete frame.
\<close>

function frames_loop ::
  "gzip \<Rightarrow> 'ctx \<Rightarrow> ('ctx, 's) router \<Rightarrow> int \<Rightarrow> bytes \<Rightarrow> nat \<Rightarrow> conn_state \<times> 's world \<Rightarrow>
   (conn_err, nat) outcome \<times> (conn_state \<times> 's world)" where
  "frames_loop gz ctx router writeTimeout b consumed g =
     (case decode (drop consumed b) of
        Inl e \<Rightarrow> (Fail (FrameErr e), g)
      | Inr None \<Rightarrow> (Ok consumed, g)
      | Inr (Some (frame, frameLen)) \<Rightarrow>
          (case handle_frame gz ctx router frame writeTimeout g of
             (Ok _, g) \<Rightarrow> frames_loop gz ctx router writeTimeout b (consumed + frameLen) g
           | (Fail e, g) \<Rightarrow> (Fail e, g)
           | (Panic p, g) \<Rightarrow> (Panic p, g)
           | (Hang, g) \<Rightarrow> (Hang, g)))"
  by pat_completeness auto
termination
  by (relation "measure (\<lambda>(gz, ctx, router, wt, b, consumed, g). length b - consumed)")
     (auto dest!: frames.dec_bounds)

declare frames_loop.simps [simp del]

definition process_buffered_frames ::
  "gzip \<Rightarrow> 'ctx \<Rightarrow> ('ctx, 's) router \<Rightarrow> int \<Rightarrow> conn_state \<times> 's world \<Rightarrow>
   (conn_err, unit) outcome \<times> (conn_state \<times> 's world)" where
  "process_buffered_frames gz ctx router writeTimeout g =
     and_then (frames_loop gz ctx router writeTimeout (buf (fst g)) 0 g) (\<lambda>consumed (st, w).
       if consumed > 0
       then (Ok (), (st\<lparr>cc := Release (int consumed) (cc st), buf := drop consumed (buf st)\<rparr>, w))
       else (Ok (), (st, w)))"

section \<open>Reading\<close>

text \<open>
  \<open>readIntoBuffer\<close>, given the result of its \<open>conn.Read\<close>.  A quota failure returns before the
  bytes are appended; an error that comes with bytes is returned after they are.
\<close>

definition read_result ::
  "int \<Rightarrow> bytes \<Rightarrow> go_err option \<Rightarrow> conn_state \<times> 's world \<Rightarrow>
   (conn_err, unit) outcome \<times> (conn_state \<times> 's world)" where
  "read_result idleTimeout data err g =
     (case g of (st, w) \<Rightarrow>
      and_then
        (if length data > 0
         then (case Reserve (int (length data)) (cc st) of
                 (ok, cc') \<Rightarrow>
                   let st = st\<lparr>cc := cc'\<rparr> in
                   if ok then (Ok (), (st\<lparr>buf := buf st @ data\<rparr>, w))
                   else (Fail QuotaExceeded, (st, w)))
         else (Ok (), (st, w)))
        (\<lambda>_ g.
         case err of
           None \<Rightarrow> (Ok (), g)
         | Some e \<Rightarrow>
             if net_timeout e \<and> idleTimeout > 0 then (Fail IdleTimeout, g)
             else (Fail (NetworkErr e), g)))"

section \<open>The connection\<close>

text \<open>
  The \<open>for\<close> loop of \<open>handleConn\<close>, one round per result of \<open>conn.Read\<close>: \<open>io.EOF\<close> (also wrapped)
  and an idle timeout end it without an error.
\<close>

fun conn_loop ::
  "gzip \<Rightarrow> 'ctx \<Rightarrow> ('ctx, 's) router \<Rightarrow> int \<Rightarrow> int \<Rightarrow> (bytes \<times> go_err option) list \<Rightarrow>
   conn_state \<times> 's world \<Rightarrow> (conn_err, unit) outcome \<times> (conn_state \<times> 's world)" where
  "conn_loop gz ctx router idleTimeout writeTimeout [] (st, w) =
     (Hang, (st, (set_deadline ReadDeadline idleTimeout w)\<lparr>reads := []\<rparr>))"
| "conn_loop gz ctx router idleTimeout writeTimeout ((data, err) # rs) (st, w) =
     (case read_result idleTimeout data err
             (st, (set_deadline ReadDeadline idleTimeout w)\<lparr>reads := rs\<rparr>) of
        (Fail e, g) \<Rightarrow>
          (case e of
             NetworkErr n \<Rightarrow> if errors_is n EOF then (Ok (), g) else (Fail e, g)
           | IdleTimeout \<Rightarrow> (Ok (), g)
           | _ \<Rightarrow> (Fail e, g))
      | (Ok _, g) \<Rightarrow>
          and_then (process_buffered_frames gz ctx router writeTimeout g) (\<lambda>_ g.
            conn_loop gz ctx router idleTimeout writeTimeout rs g)
      | (Panic p, g) \<Rightarrow> (Panic p, g)
      | (Hang, g) \<Rightarrow> (Hang, g))"

text \<open>
  \<open>handleConn\<close>.  The argument of the deferred \<open>state.cc.Release(len(state.buf))\<close> is evaluated when
  the statement is reached, that is for the empty buffer.
\<close>

definition handleConn ::
  "gzip \<Rightarrow> 'ctx \<Rightarrow> ('ctx, 's) router option \<Rightarrow> int \<Rightarrow> int \<Rightarrow> 's world \<Rightarrow>
   (conn_err, unit) outcome \<times> (conn_state option \<times> 's world)" where
  "handleConn gz ctx router idleTimeout writeTimeout w =
     (case router of
        None \<Rightarrow> (Fail NilRouter, (None, w))
      | Some router \<Rightarrow>
          (case time_now w of (now, w) \<Rightarrow>
             let st = \<lparr>cc = NewConnContext now, buf = []\<rparr>;
                 deferred = int (length (buf st)) in
             case conn_loop gz ctx router idleTimeout writeTimeout (reads w) (st, w) of
               (r, (st, w)) \<Rightarrow>
                 (r, (Some (if r = Hang then st else st\<lparr>cc := Release deferred (cc st)\<rparr>), w))))"

end
