(* ===== verification/ConnSpec.thy ===== *)
theory ConnSpec
  imports ConnHandler
begin

text \<open>
  What a connection promises, and the proof that \<open>conn_handler.go\<close> keeps it.  The specification
  \<open>serve_stream\<close> sees the whole byte stream at once: it drains the frames, serves them in order and
  ends at the first error.  It knows neither chunks nor buffers, quota, limiter or deadlines.  The
  refinement says that \<open>handleConn\<close>, however the stream is cut into reads, does the same to the
  outside world, unless it stops the connection for exceeding its quota or its rate.
\<close>

section \<open>What a connection does to the world, without the limits\<close>

text \<open>
  The part of the world a peer and the application can see: the bytes sent, the pending results of
  \<open>conn.Write\<close> and the application state.  \<open>serve_frame\<close> is \<open>handleFrame\<close> on that part, after the
  rate limiter has let the frame pass.
\<close>

type_synonym 's visible = "bytes \<times> (nat \<times> go_err option) list \<times> 's"

definition visible :: "'s world \<Rightarrow> 's visible" where
  "visible w = (sent w, writes w, app w)"

definition send_visible :: "bytes \<Rightarrow> 's visible \<Rightarrow> (conn_err, unit) outcome \<times> 's visible" where
  "send_visible data v =
     (case v of (out, ws, s) \<Rightarrow>
        (case write_loop data ws out of (r, ws, out) \<Rightarrow> (r, (out, ws, s))))"

definition dispatch_visible ::
  "'ctx \<Rightarrow> message \<Rightarrow> ('ctx, 's) router \<Rightarrow> 's visible \<Rightarrow>
   (conn_err, message option) outcome \<times> 's visible" where
  "dispatch_visible ctx msg router v =
     (case v of (out, ws, s) \<Rightarrow>
        (case Dispatch ctx msg router s of
             (Ok resp, s) \<Rightarrow> (Ok resp, (out, ws, s))
           | (Fail e, s) \<Rightarrow> (Fail (HandlerErr e), (out, ws, s))
           | (Panic p, s) \<Rightarrow> (Panic p, (out, ws, s))
           | (Hang, s) \<Rightarrow> (Hang, (out, ws, s))))"

text \<open>The response frame of a message, as \<open>handleFrame\<close> builds it.\<close>

definition response_bytes :: "gzip \<Rightarrow> byte \<Rightarrow> message \<Rightarrow> message \<Rightarrow> (conn_err, bytes) outcome" where
  "response_bytes gz fl msg resp =
     (let resp = (if msg_request_id resp = 0
                  then resp\<lparr>msg_request_id := msg_request_id msg\<rparr> else resp) in
      case encode_message resp of
        Inl e \<Rightarrow> Fail (MessageErr e)
      | Inr respBytes \<Rightarrow>
          (case encode_frame_body gz (fl AND FlagCompressed) respBytes of
             Inl e \<Rightarrow> Fail (BodyErr e)
           | Inr (outFlags, outBody) \<Rightarrow>
               encode \<lparr>fr_version = 0, fr_flags = outFlags, fr_body = outBody\<rparr>))"

definition serve_frame ::
  "gzip \<Rightarrow> 'ctx \<Rightarrow> ('ctx, 's) router \<Rightarrow> frame \<Rightarrow> 's visible \<Rightarrow>
   (conn_err, unit) outcome \<times> 's visible" where
  "serve_frame gz ctx router frame v =
     and_then (lift_err BodyErr (decode_frame_body gz (Some frame)), v) (\<lambda>body v.
     and_then (lift_err MessageErr (decode_message body), v) (\<lambda>msg v.
     and_then (dispatch_visible ctx msg router v) (\<lambda>resp v.
       case resp of
         None \<Rightarrow> (Ok (), v)
       | Some resp \<Rightarrow>
           if fr_flags frame AND FlagOneWay \<noteq> 0 then (Ok (), v)
           else and_then (response_bytes gz (fr_flags frame) msg resp, v) send_visible)))"

fun serve_frames ::
  "gzip \<Rightarrow> 'ctx \<Rightarrow> ('ctx, 's) router \<Rightarrow> frame list \<Rightarrow> 's visible \<Rightarrow>
   (conn_err, unit) outcome \<times> 's visible" where
  "serve_frames gz ctx router [] v = (Ok (), v)"
| "serve_frames gz ctx router (f # fs) v =
     and_then (serve_frame gz ctx router f v) (\<lambda>_ v. serve_frames gz ctx router fs v)"

definition serve_stream ::
  "gzip \<Rightarrow> 'ctx \<Rightarrow> ('ctx, 's) router \<Rightarrow> bytes \<Rightarrow> 's visible \<Rightarrow>
   (conn_err, unit) outcome \<times> 's visible" where
  "serve_stream gz ctx router xs v =
     (case drain decode xs of
        (fs, e, rest) \<Rightarrow>
          and_then (serve_frames gz ctx router fs v) (\<lambda>_ v.
            case e of None \<Rightarrow> (Ok (), v) | Some e \<Rightarrow> (Fail (FrameErr e), v)))"

lemma visible_set_deadline [simp]:
  "visible (set_deadline ev t w) = visible w" "reads (set_deadline ev t w) = reads w"
  "app (set_deadline ev t w) = app w" "writes (set_deadline ev t w) = writes w"
  "sent (set_deadline ev t w) = sent w"
  by (simp_all add: set_deadline_def time_now_def visible_def)

lemma visible_update [simp]:
  "visible (w\<lparr>reads := x\<rparr>) = visible w" "visible (w\<lparr>tick := n\<rparr>) = visible w"
  by (simp_all add: visible_def)

lemma write_all_visible:
  "write_all data t w = (r, w') \<Longrightarrow>
     send_visible data (visible w) = (r, visible w') \<and> reads w' = reads w"
  by (auto simp: write_all_def send_visible_def visible_def Let_def split: prod.splits if_splits)

text \<open>
  A call on the world tracks a call on its visible part when both end the same way, in the same
  visible world, and the pending reads are the given ones.
\<close>

definition tracks ::
  "(bytes \<times> go_err option) list \<Rightarrow> (conn_err, 'a) outcome \<times> 's world \<Rightarrow>
   (conn_err, 'a) outcome \<times> 's visible \<Rightarrow> bool" where
  "tracks rd m v \<longleftrightarrow> (case m of (r, w) \<Rightarrow> reads w = rd \<and> v = (r, visible w))"

lemma tracks_then:
  assumes "tracks rd m v"
    and "\<And>x w. reads w = rd \<Longrightarrow> tracks rd (k x w) (kv x (visible w))"
  shows "tracks rd (and_then m k) (and_then v kv)"
proof -
  obtain r w where m: "m = (r, w)" by (cases m) auto
  with assms(1) have "reads w = rd" "v = (r, visible w)" by (auto simp: tracks_def)
  with assms(2) show ?thesis by (cases r) (auto simp: m tracks_def)
qed

lemma tracks_now: "reads w = rd \<Longrightarrow> tracks rd (r, w) (r, visible w)"
  by (simp add: tracks_def)

lemma tracks_dispatch:
  "reads w = rd \<Longrightarrow> tracks rd
     (case Dispatch ctx msg router (app w) of
        (Ok resp, s) \<Rightarrow> (Ok resp, w\<lparr>app := s\<rparr>)
      | (Fail e, s) \<Rightarrow> (Fail (HandlerErr e), w\<lparr>app := s\<rparr>)
      | (Panic p, s) \<Rightarrow> (Panic p, w\<lparr>app := s\<rparr>)
      | (Hang, s) \<Rightarrow> (Hang, w\<lparr>app := s\<rparr>))
     (dispatch_visible ctx msg router (visible w))"
  by (auto simp: tracks_def dispatch_visible_def visible_def split: prod.splits outcome.splits)

lemma tracks_write:
  "reads w = rd \<Longrightarrow> tracks rd (write_all out t w) (send_visible out (visible w))"
  by (auto simp: tracks_def split: prod.splits dest: write_all_visible)

lemma response_then:
  "and_then (response_bytes gz fl msg resp, v) k =
     (let resp = (if msg_request_id resp = 0
                  then resp\<lparr>msg_request_id := msg_request_id msg\<rparr> else resp) in
      and_then (lift_err MessageErr (encode_message resp), v) (\<lambda>respBytes v.
      and_then (lift_err BodyErr (encode_frame_body gz (fl AND FlagCompressed) respBytes), v)
        (\<lambda>outFrame v.
      and_then (encode \<lparr>fr_version = 0, fr_flags = fst outFrame, fr_body = snd outFrame\<rparr>, v) k)))"
  by (auto simp: response_bytes_def Let_def split: sum.splits prod.splits)

lemma tracks_response:
  "reads w = rd \<Longrightarrow> tracks rd (write_response gz frame msg resp t w)
     (and_then (response_bytes gz (fr_flags frame) msg resp, visible w) send_visible)"
  unfolding write_response_def response_then Let_def
  by (intro tracks_then tracks_now tracks_write)

lemma tracks_frame:
  "reads w = rd \<Longrightarrow> tracks rd (dispatch_frame gz ctx router frame t w)
     (serve_frame gz ctx router frame (visible w))"
  unfolding dispatch_frame_def serve_frame_def Let_def
  by (intro tracks_then tracks_now tracks_dispatch)
     (auto split: option.splits intro: tracks_now tracks_response)

lemma handle_frame_serves:
  assumes "handle_frame gz ctx router frame t (st, w) = (r, (st', w'))"
    and "Allow (clock w (tick w)) (cc st) = (ok, cc')"
  shows "st' = st\<lparr>cc := cc'\<rparr> \<and> reads w' = reads w \<and>
     (if ok then serve_frame gz ctx router frame (visible w) = (r, visible w')
      else r = Fail RateExceeded \<and> visible w' = visible w)"
proof -
  let ?w = "w\<lparr>tick := Suc (tick w)\<rparr>"
  obtain r1 w1 where d: "dispatch_frame gz ctx router frame t ?w = (r1, w1)" by fastforce
  have "tracks (reads w) (r1, w1) (serve_frame gz ctx router frame (visible w))"
    using tracks_frame [of ?w "reads w" gz ctx router frame t] by (simp add: d)
  then have s: "reads w1 = reads w" "serve_frame gz ctx router frame (visible w) = (r1, visible w1)"
    by (simp_all add: tracks_def)
  have "(r, (st', w')) =
      (if ok then (r1, (st\<lparr>cc := cc'\<rparr>, w1)) else (Fail RateExceeded, (st\<lparr>cc := cc'\<rparr>, ?w)))"
    unfolding assms(1) [symmetric]
    by (simp add: handle_frame_def time_now_def assms(2) d)
  then show ?thesis using s by (auto split: if_splits)
qed

section \<open>The buffer of a connection\<close>

definition conn_inv :: "conn_state \<Rightarrow> bool" where
  "conn_inv st \<longleftrightarrow> bufferUsed (cc st) = int (length (buf st)) \<and>
     maxBuffer (cc st) = 256 * 1024 \<and> length (buf st) \<le> 256 * 1024 \<and> limiter_inv (cc st)"

lemma handle_frame_state:
  assumes "handle_frame gz ctx router frame t (st, w) = (r, (st', w'))"
  shows "buf st' = buf st \<and> (conn_inv st \<longrightarrow> conn_inv st')"
proof -
  obtain ok cc' where a: "Allow (clock w (tick w)) (cc st) = (ok, cc')"
    by (cases "Allow (clock w (tick w)) (cc st)")
  have "st' = st\<lparr>cc := cc'\<rparr>" using handle_frame_serves [OF assms a] by simp
  then show ?thesis
    using Allow_frame [OF a] Allow_inv [OF _ a] by (auto simp: conn_inv_def limiter_inv_def)
qed

text \<open>
  One pass over the buffer: it changes nothing of the buffer, and unless the limiter stops it,
  it does to the visible world what serving the drained frames does, and ends where they end.
\<close>

lemma frames_loop_serves:
  assumes "frames_loop gz ctx router t b k (st, w) = (r, (st', w'))"
    and "drain decode (drop k b) = (fs, e, rest)" and "k \<le> length b"
  shows "buf st' = buf st \<and> reads w' = reads w \<and> (conn_inv st \<longrightarrow> conn_inv st') \<and>
    (r = Fail RateExceeded \<or>
     and_then (serve_frames gz ctx router fs (visible w)) (\<lambda>_ v.
        case e of None \<Rightarrow> (Ok (length b - length rest), v) | Some e \<Rightarrow> (Fail (FrameErr e), v)) =
     (r, visible w'))"
  using assms
proof (induction gz ctx router t b k "(st, w)" arbitrary: st w fs rule: frames_loop.induct)
  case (1 gz ctx router t b k st w)
  show ?case
  proof (cases "decode (drop k b)")
    case (Inl x)
    with "1.prems" show ?thesis by (auto simp: frames_loop.simps [of _ _ _ _ _ k] frames.drain_error)
  next
    case (Inr y)
    show ?thesis
    proof (cases y)
      case None
      with Inr "1.prems" show ?thesis
        by (auto simp: frames_loop.simps [of _ _ _ _ _ k] frames.drain_wait)
    next
      case (Some p)
      obtain f n where p: "p = (f, n)" by (cases p)
      have dec: "decode (drop k b) = Inr (Some (f, n))" using Inr Some p by simp
      note n = frames.dec_bounds [OF dec]
      obtain fs1 where fs: "fs = f # fs1" and tail: "drain decode (drop (k + n) b) = (fs1, e, rest)"
        using "1.prems"(2) by (auto simp: frames.drain_frame [OF dec] add.commute split: prod.splits)
      obtain r1 st1 w1 where h: "handle_frame gz ctx router f t (st, w) = (r1, (st1, w1))"
        by (metis surj_pair)
      obtain ok cc' where a: "Allow (clock w (tick w)) (cc st) = (ok, cc')"
        by (cases "Allow (clock w (tick w)) (cc st)")
      note hs = handle_frame_serves [OF h a]
      note hst = handle_frame_state [OF h]
      have loop: "(r, (st', w')) =
         (case (r1, (st1, w1)) of
             (Ok _, g) \<Rightarrow> frames_loop gz ctx router t b (k + n) g
           | (Fail e, g) \<Rightarrow> (Fail e, g)
           | (Panic p, g) \<Rightarrow> (Panic p, g)
           | (Hang, g) \<Rightarrow> (Hang, g))"
        using "1.prems"(1) by (subst (asm) frames_loop.simps) (simp add: dec h)
      show ?thesis
      proof (cases "\<exists>u. r1 = Ok u")
        case True
        then have r1: "r1 = Ok ()" by auto
        then have sf: "serve_frame gz ctx router f (visible w) = (Ok (), visible w1)"
          using hs by (auto split: if_splits)
        have "k + n \<le> length b" using n "1.prems"(3) by auto
        moreover have "frames_loop gz ctx router t b (k + n) (st1, w1) = (r, (st', w'))"
          using loop r1 by simp
        ultimately have "buf st' = buf st1 \<and> reads w' = reads w1 \<and> (conn_inv st1 \<longrightarrow> conn_inv st') \<and>
            (r = Fail RateExceeded \<or>
             and_then (serve_frames gz ctx router fs1 (visible w1)) (\<lambda>_ v. case e of
                None \<Rightarrow> (Ok (length b - length rest), v) | Some e \<Rightarrow> (Fail (FrameErr e), v)) =
             (r, visible w'))"
          using "1.hyps" [OF Inr Some p [symmetric] h [symmetric] r1 _ tail] by simp
        then
        show ?thesis using loop hs hst sf by (auto simp: r1 fs)
      next
        case False
        then show ?thesis using loop hs hst by (cases r1) (auto simp: fs split: if_splits)
      qed
    qed
  qed
qed
lemma release_inv:
  assumes "conn_inv st" and "k \<le> length (buf st)"
  shows "conn_inv (st\<lparr>cc := Release (int k) (cc st), buf := drop k (buf st)\<rparr>)"
proof -
  have "limiter_inv (Release (int k) (cc st))"
    using assms(1) by (simp add: conn_inv_def limiter_inv_def ctx_inv_def Release_def)
  moreover have "bufferUsed (Release (int k) (cc st)) = bufferUsed (cc st) - int k \<and>
      maxBuffer (Release (int k) (cc st)) = maxBuffer (cc st)"
    using assms by (intro quota.release_used) (auto simp: conn_inv_def)
  ultimately show ?thesis using assms by (auto simp: conn_inv_def)
qed

text \<open>
  After a pass that returns, what is left in the buffer is what draining it leaves: an incomplete
  frame.
\<close>

lemma process_serves:
  assumes "process_buffered_frames gz ctx router t (st, w) = (r, (st', w'))"
    and "drain decode (buf st) = (fs, e, rest)"
  shows "reads w' = reads w \<and> (conn_inv st \<longrightarrow> conn_inv st') \<and>
    (r = Ok () \<longrightarrow> buf st' = rest \<and> decode rest = Inr None) \<and>
    (r = Fail RateExceeded \<or>
     and_then (serve_frames gz ctx router fs (visible w)) (\<lambda>_ v.
        case e of None \<Rightarrow> (Ok (), v) | Some e \<Rightarrow> (Fail (FrameErr e), v)) = (r, visible w'))"
proof -
  obtain r1 st1 w1 where l: "frames_loop gz ctx router t (buf st) 0 (st, w) = (r1, (st1, w1))"
    by (metis surj_pair)
  have L: "buf st1 = buf st" "reads w1 = reads w" "conn_inv st \<longrightarrow> conn_inv st1"
    "r1 = Fail RateExceeded \<or>
     and_then (serve_frames gz ctx router fs (visible w)) (\<lambda>_ v.
        case e of None \<Rightarrow> (Ok (length (buf st) - length rest), v) | Some e \<Rightarrow> (Fail (FrameErr e), v)) =
     (r1, visible w1)"
    using frames_loop_serves [OF l] assms(2) by simp_all
  have P: "(r, (st', w')) = and_then (r1, (st1, w1)) (\<lambda>consumed (st, w).
       if consumed > 0
       then (Ok (), (st\<lparr>cc := Release (int consumed) (cc st), buf := drop consumed (buf st)\<rparr>, w))
       else (Ok (), (st, w)))"
    using assms(1) by (simp add: process_buffered_frames_def l)
  show ?thesis
  proof (cases "\<exists>k. r1 = Ok k")
    case False
    then show ?thesis using L P
      by (cases r1; cases "serve_frames gz ctx router fs (visible w)"; cases e; cases "fst (serve_frames gz ctx router fs (visible w))")
         auto
  next
    case True
    then obtain k where r1: "r1 = Ok k" by blast
    with L(4) obtain v where sf: "serve_frames gz ctx router fs (visible w) = (Ok (), v)" and
      e: "e = None" and k: "k = length (buf st) - length rest" and v: "v = visible w1"
      by (auto simp: and_then_Ok_iff split: option.splits)
    from frames.drain_rest [of "buf st"] assms(2) e obtain ys where
      rest: "decode rest = Inr None" "buf st = ys @ rest" by blast
    have kle: "k \<le> length (buf st)" "drop k (buf st) = rest" using k rest by simp_all
    show ?thesis using P L(1-3) sf kle rest release_inv [of st1 k]
      by (auto simp: r1 e v split: if_splits)
  qed
qed

lemma serve_frames_append:
  "serve_frames gz ctx router (fs @ gs) v =
     and_then (serve_frames gz ctx router fs v) (\<lambda>_ v. serve_frames gz ctx router gs v)"
proof (induction fs arbitrary: v)
  case Nil
  then show ?case by simp
next
  case (Cons f fs)
  have "serve_frames gz ctx router (fs @ gs) =
      (\<lambda>v. and_then (serve_frames gz ctx router fs v) (\<lambda>_ v. serve_frames gz ctx router gs v))"
    by (rule ext) (rule Cons.IH)
  then show ?case by (simp add: and_then_assoc)
qed

lemma serve_stream_append:
  assumes "drain decode xs = (fs, e, rest)"
  shows "serve_stream gz ctx router (xs @ ys) v =
    and_then (serve_frames gz ctx router fs v) (\<lambda>_ v.
      case e of None \<Rightarrow> serve_stream gz ctx router (rest @ ys) v
              | Some e \<Rightarrow> (Fail (FrameErr e), v))"
proof (cases e)
  case None
  obtain gs e' rest' where "drain decode (rest @ ys) = (gs, e', rest')"
    by (cases "drain decode (rest @ ys)")
  then show ?thesis using frames.drain_append [of xs ys] assms None
    by (simp add: serve_stream_def serve_frames_append and_then_assoc)
next
  case (Some x)
  then show ?thesis using frames.drain_append [of xs ys] assms
    by (simp add: serve_stream_def)
qed

lemma read_chunk:
  "read_result idle data None (st, w) =
     (if data = [] then (Ok (), (st, w))
      else let (ok, cc') = Reserve (int (length data)) (cc st) in
        if ok then (Ok (), (st\<lparr>cc := cc', buf := buf st @ data\<rparr>, w))
        else (Fail QuotaExceeded, (st\<lparr>cc := cc'\<rparr>, w)))"
  by (auto simp: read_result_def Let_def split: prod.splits)

text \<open>The reads of a connection whose peer sends the chunks and then closes its side.\<close>

definition chunk_reads :: "bytes list \<Rightarrow> (bytes \<times> go_err option) list" where
  "chunk_reads cs = map (\<lambda>c. (c, None)) cs @ [([], Some EOF)]"

lemma conn_loop_serves:
  assumes "conn_loop gz ctx router idle t (chunk_reads cs) (st, w) = (r, (st', w'))"
    and "decode (buf st) = Inr None"
  shows "r = Fail QuotaExceeded \<or> r = Fail RateExceeded \<or>
    serve_stream gz ctx router (buf st @ concat cs) (visible w) = (r, visible w')"
  using assms
proof (induction cs arbitrary: st w)
  case Nil
  then show ?case
    by (auto simp: chunk_reads_def read_result_def serve_stream_def frames.drain_wait)
next
  case (Cons c cs)
  let ?w = "(set_deadline ReadDeadline idle w)\<lparr>reads := chunk_reads cs\<rparr>"
  have reads: "chunk_reads (c # cs) = (c, None) # chunk_reads cs" by (simp add: chunk_reads_def)
  obtain ok cc' where res: "Reserve (int (length c)) (cc st) = (ok, cc')"
    by (cases "Reserve (int (length c)) (cc st)")
  define st1 where "st1 = (if c = [] then st else st\<lparr>cc := cc', buf := buf st @ c\<rparr>)"
  show ?case
  proof (cases "c \<noteq> [] \<and> \<not> ok")
    case True
    then show ?thesis using Cons.prems(1) by (simp add: reads read_chunk res)
  next
    case False
    then have rr: "read_result idle c None (st, ?w) = (Ok (), (st1, ?w))"
      by (auto simp: read_chunk res st1_def)
    have b1: "buf st1 = buf st @ c" by (simp add: st1_def)
    obtain r2 st2 w2 where p: "process_buffered_frames gz ctx router t (st1, ?w) = (r2, (st2, w2))"
      by (metis surj_pair)
    obtain fs e rest where d: "drain decode (buf st1) = (fs, e, rest)"
      by (cases "drain decode (buf st1)")
    note P = process_serves [OF p d]
    have run: "and_then (r2, (st2, w2)) (\<lambda>_ g. conn_loop gz ctx router idle t (chunk_reads cs) g) =
        (r, (st', w'))"
      using Cons.prems(1) by (simp add: reads rr p)
    have split: "serve_stream gz ctx router (buf st @ c @ concat cs) (visible w) =
      and_then (serve_frames gz ctx router fs (visible w)) (\<lambda>_ v.
        case e of None \<Rightarrow> serve_stream gz ctx router (rest @ concat cs) v
                | Some e \<Rightarrow> (Fail (FrameErr e), v))"
      using serve_stream_append [OF d] by (simp add: b1)
    show ?thesis
    proof (cases "r2 = Ok ()")
      case True
      with P have sf: "serve_frames gz ctx router fs (visible w) = (Ok (), visible w2)" "e = None"
        and b2: "buf st2 = rest" "decode rest = Inr None"
        by (auto simp: and_then_Ok_iff split: option.splits)
      from run have "conn_loop gz ctx router idle t (chunk_reads cs) (st2, w2) = (r, (st', w'))"
        by (simp add: True)
      from Cons.IH [OF this] show ?thesis by (simp add: b2 split sf)
    next
      case False
      then have "(r, (st', w')) = (r2, (st2, w2))" using run by (cases r2) auto
      then show ?thesis using P False
        by (cases "serve_frames gz ctx router fs (visible w)";
            cases "fst (serve_frames gz ctx router fs (visible w))"; cases e)
           (auto simp: split)
    qed
  qed
qed


section \<open>When the limits do not interfere\<close>

lemma Allow_tokens:
  assumes "ctx_inv c" and "Allow now c = (b, c')"
  shows "(0 < tokens c \<longrightarrow> b) \<and> tokens c - 1 \<le> tokens c'"
proof -
  have "ctx_inv (refill now c)" using assms(1) by (rule refill_inv)
  then have w: "0 < tokens (refill now c) \<Longrightarrow> wrap64 (tokens (refill now c) - 1) = tokens (refill now c) - 1"
    by (intro wrap64_id) (auto simp: ctx_inv_def)
  have "tokens c \<le> tokens (refill now c)"
    using assms(1) refill_amount_bound [of "wrap64 (now - lastRefill c) * rate c"]
    by (auto simp: refill_def ctx_inv_def Let_def wrap64_id)
  then show ?thesis using assms(2) w by (auto simp: Allow_def Let_def split: if_splits)
qed

lemma frames_loop_tokens:
  assumes "frames_loop gz ctx router t b k (st, w) = (r, (st', w'))"
    and "drain decode (drop k b) = (fs, e, rest)"
    and "ctx_inv (cc st)" and "int (length fs) \<le> tokens (cc st)"
  shows "(\<forall>n. r = Ok n \<longrightarrow> tokens (cc st) - int (length fs) \<le> tokens (cc st')) \<and>
    (r = Fail RateExceeded \<longrightarrow> fst (serve_frames gz ctx router fs (visible w)) = Fail RateExceeded)"
  using assms
proof (induction gz ctx router t b k "(st, w)" arbitrary: st w fs rule: frames_loop.induct)
  case (1 gz ctx router t b k st w)
  show ?case
  proof (cases "\<exists>f n. decode (drop k b) = Inr (Some (f, n))")
    case False
    then show ?thesis using "1.prems"
      by (auto simp: frames_loop.simps [of _ _ _ _ _ k] frames.drain_error frames.drain_wait
          split: sum.splits option.splits)
  next
    case True
    then obtain f n where dec: "decode (drop k b) = Inr (Some (f, n))" by blast
    obtain fs1 where fs: "fs = f # fs1" and tail: "drain decode (drop (k + n) b) = (fs1, e, rest)"
      using "1.prems"(2) by (auto simp: frames.drain_frame [OF dec] add.commute split: prod.splits)
    obtain r1 st1 w1 where h: "handle_frame gz ctx router f t (st, w) = (r1, (st1, w1))"
      by (metis surj_pair)
    obtain ok cc' where a: "Allow (clock w (tick w)) (cc st) = (ok, cc')"
      by (cases "Allow (clock w (tick w)) (cc st)")
    have ok: ok and tok: "tokens (cc st) - 1 \<le> tokens cc'" and inv: "ctx_inv cc'"
      using Allow_tokens [OF "1.prems"(3) a] "1.prems"(3,4) Allow_inv [OF _ a] by (auto simp: fs)
    have hs: "st1 = st\<lparr>cc := cc'\<rparr>" "serve_frame gz ctx router f (visible w) = (r1, visible w1)"
      using handle_frame_serves [OF h a] ok by simp_all
    have loop: "(r, (st', w')) =
         (case (r1, (st1, w1)) of
             (Ok _, g) \<Rightarrow> frames_loop gz ctx router t b (k + n) g
           | (Fail e, g) \<Rightarrow> (Fail e, g)
           | (Panic p, g) \<Rightarrow> (Panic p, g)
           | (Hang, g) \<Rightarrow> (Hang, g))"
      using "1.prems"(1) by (subst (asm) frames_loop.simps) (simp add: dec h)
    show ?thesis
    proof (cases "r1 = Ok ()")
      case True
      then have "frames_loop gz ctx router t b (k + n) (st1, w1) = (r, (st', w'))"
        using loop by simp
      from "1.hyps" [OF dec refl refl h [symmetric] True this tail] tok inv "1.prems"(4)
      show ?thesis by (force simp: fs hs True)
    next
      case False
      then show ?thesis using loop hs by (cases r1) (auto simp: fs)
    qed
  qed
qed

text \<open>When the limiter stops a pass over the buffer, some of the frames before have been served.\<close>

lemma frames_loop_rate:
  assumes "frames_loop gz ctx router t b k (st, w) = (Fail RateExceeded, (st', w'))"
    and "drain decode (drop k b) = (fs, e, rest)"
  shows "\<exists>j\<le>length fs. visible w' = snd (serve_frames gz ctx router (take j fs) (visible w))"
  using assms
proof (induction gz ctx router t b k "(st, w)" arbitrary: st w fs rule: frames_loop.induct)
  case (1 gz ctx router t b k st w)
  show ?case
  proof (cases "\<exists>f n. decode (drop k b) = Inr (Some (f, n))")
    case False
    then show ?thesis using "1.prems"
      by (auto simp: frames_loop.simps [of _ _ _ _ _ k] split: sum.splits option.splits)
  next
    case True
    then obtain f n where dec: "decode (drop k b) = Inr (Some (f, n))" by blast
    obtain fs1 where fs: "fs = f # fs1" and tail: "drain decode (drop (k + n) b) = (fs1, e, rest)"
      using "1.prems"(2) by (auto simp: frames.drain_frame [OF dec] add.commute split: prod.splits)
    obtain r1 st1 w1 where h: "handle_frame gz ctx router f t (st, w) = (r1, (st1, w1))"
      by (metis surj_pair)
    obtain ok cc' where a: "Allow (clock w (tick w)) (cc st) = (ok, cc')"
      by (cases "Allow (clock w (tick w)) (cc st)")
    note hs = handle_frame_serves [OF h a]
    have loop: "(Fail RateExceeded, (st', w')) =
         (case (r1, (st1, w1)) of
             (Ok _, g) \<Rightarrow> frames_loop gz ctx router t b (k + n) g
           | (Fail e, g) \<Rightarrow> (Fail e, g)
           | (Panic p, g) \<Rightarrow> (Panic p, g)
           | (Hang, g) \<Rightarrow> (Hang, g))"
      using "1.prems"(1) by (subst (asm) frames_loop.simps) (simp add: dec h)
    show ?thesis
    proof (cases "r1 = Ok ()")
      case True
      then have "frames_loop gz ctx router t b (k + n) (st1, w1) = (Fail RateExceeded, (st', w'))"
        using loop by simp
      from "1.hyps" [OF dec refl refl h [symmetric] True this tail] obtain j where
        "j \<le> length fs1" "visible w' = snd (serve_frames gz ctx router (take j fs1) (visible w1))" by blast
      moreover have "serve_frame gz ctx router f (visible w) = (Ok (), visible w1)"
        using hs True by (auto split: if_splits)
      ultimately show ?thesis by (intro exI [of _ "Suc j"]) (simp add: fs)
    next
      case False
      then have e: "r1 = Fail RateExceeded" "w' = w1" using loop by (cases r1; auto)+
      show ?thesis
      proof (cases ok)
        case True
        with hs e show ?thesis by (intro exI [of _ 1]) (simp add: fs)
      next
        case False
        with hs e show ?thesis by (intro exI [of _ 0]) simp
      qed
    qed
  qed
qed

lemma process_limits:
  assumes "process_buffered_frames gz ctx router t (st, w) = (r, (st', w'))"
    and "drain decode (buf st) = (fs, e, rest)"
  shows "(r = Fail RateExceeded \<longrightarrow>
      (\<exists>j\<le>length fs. visible w' = snd (serve_frames gz ctx router (take j fs) (visible w)))) \<and>
    (ctx_inv (cc st) \<longrightarrow> int (length fs) \<le> tokens (cc st) \<longrightarrow>
      (r = Fail RateExceeded \<longrightarrow> fst (serve_frames gz ctx router fs (visible w)) = Fail RateExceeded) \<and>
      (r = Ok () \<longrightarrow> tokens (cc st) - int (length fs) \<le> tokens (cc st')))"
proof -
  obtain r1 st1 w1 where l: "frames_loop gz ctx router t (buf st) 0 (st, w) = (r1, (st1, w1))"
    by (metis surj_pair)
  have d: "drain decode (drop 0 (buf st)) = (fs, e, rest)" using assms(2) by simp
  have P: "(r, (st', w')) = and_then (r1, (st1, w1)) (\<lambda>consumed (st, w).
       if consumed > 0
       then (Ok (), (st\<lparr>cc := Release (int consumed) (cc st), buf := drop consumed (buf st)\<rparr>, w))
       else (Ok (), (st, w)))"
    using assms(1) by (simp add: process_buffered_frames_def l)
  have "r = Fail RateExceeded \<Longrightarrow> r1 = Fail RateExceeded \<and> w1 = w'"
    using P by (cases r1) (auto split: if_splits)
  moreover have "r = Ok () \<Longrightarrow> \<exists>n. r1 = Ok n \<and> tokens (cc st') = tokens (cc st1)"
    using P by (cases r1) (auto simp: Release_def split: if_splits)
  ultimately show ?thesis using frames_loop_rate [of gz ctx router t "buf st" 0 st w st1 w1, OF _ d] l
      frames_loop_tokens [OF l d] by auto
qed

text \<open>The specification itself never ends in a limit error.\<close>

definition no_limit :: "(conn_err, 'a) outcome \<Rightarrow> bool" where
  "no_limit r \<longleftrightarrow> r \<noteq> Fail RateExceeded \<and> r \<noteq> Fail QuotaExceeded"

lemma no_limit_simps [simp]:
  "no_limit (Ok x)" "no_limit (Panic p)" "no_limit Hang"
  "no_limit (Fail (FrameErr a))" "no_limit (Fail (BodyErr b))" "no_limit (Fail (MessageErr c))"
  "no_limit (Fail (HandlerErr d))" "no_limit (Fail (NetworkErr n))"
  by (simp_all add: no_limit_def)

lemma no_limit_then:
  "no_limit (fst m) \<Longrightarrow> (\<And>x s. no_limit (fst (k x s))) \<Longrightarrow> no_limit (fst (and_then m k))"
  by (cases "(m, k)" rule: and_then.cases) (auto simp: no_limit_def)

lemma no_limit_lift:
  "no_limit (lift_err BodyErr x)" "no_limit (lift_err MessageErr y)"
  by (cases x; simp; fail) (cases y; simp)

lemma no_limit_write: "no_limit (fst (write_loop data ws out))"
  by (induction data ws out rule: write_loop.induct) auto

lemma no_limit_send: "no_limit (fst (send_visible data v))"
  using no_limit_write by (auto simp: send_visible_def split: prod.splits) (metis fst_conv)

lemma no_limit_dispatch: "no_limit (fst (dispatch_visible ctx m router v))"
  by (auto simp: dispatch_visible_def split: prod.splits outcome.splits)

lemma no_limit_response: "no_limit (response_bytes gz fl msg resp)"
  by (auto simp: response_bytes_def encode_def Let_def split: sum.splits prod.splits)

lemma no_limit_serve_frame: "no_limit (fst (serve_frame gz ctx router f v))"
  unfolding serve_frame_def
  by (auto intro!: no_limit_then simp: no_limit_lift no_limit_send no_limit_dispatch
      no_limit_response split: option.splits)

lemma no_limit_serve_frames: "no_limit (fst (serve_frames gz ctx router fs v))"
  by (induction fs arbitrary: v) (auto intro!: no_limit_then simp: no_limit_serve_frame)

text \<open>
  With as many tokens as there are frames in the stream, and a stream that fits the quota, the
  limits never stop the connection.
\<close>

lemma conn_loop_unlimited:
  assumes "conn_loop gz ctx router idle t (chunk_reads cs) (st, w) = (r, (st', w'))"
    and "decode (buf st) = Inr None" and "conn_inv st"
    and "length (buf st) + length (concat cs) \<le> 256 * 1024"
    and "int (length (fst (drain decode (buf st @ concat cs)))) \<le> tokens (cc st)"
  shows "no_limit r"
  using assms
proof (induction cs arbitrary: st w)
  case Nil
  then show ?case by (auto simp: chunk_reads_def read_result_def no_limit_def)
next
  case (Cons c cs)
  let ?w = "(set_deadline ReadDeadline idle w)\<lparr>reads := chunk_reads cs\<rparr>"
  have reads: "chunk_reads (c # cs) = (c, None) # chunk_reads cs" by (simp add: chunk_reads_def)
  obtain ok cc' where res: "Reserve (int (length c)) (cc st) = (ok, cc')"
    by (cases "Reserve (int (length c)) (cc st)")
  have ok: ok and used: "bufferUsed cc' = int (length (buf st)) + int (length c)"
    using quota.reserve_fits [OF _ _ _ _ res] Cons.prems(3,4) by (auto simp: conn_inv_def)
  have fr: "tokens cc' = tokens (cc st)" "maxBuffer cc' = maxBuffer (cc st)"
    "limiter_inv cc' = limiter_inv (cc st)"
    using res by (auto simp: Reserve_def Let_def limiter_inv_def ctx_inv_def)
  define st1 where "st1 = (if c = [] then st else st\<lparr>cc := cc', buf := buf st @ c\<rparr>)"
  have rr: "read_result idle c None (st, ?w) = (Ok (), (st1, ?w))"
    using ok by (auto simp: read_chunk res st1_def)
  have st1: "buf st1 = buf st @ c" "tokens (cc st1) = tokens (cc st)" "conn_inv st1"
    using Cons.prems(3,4) used fr by (auto simp: st1_def conn_inv_def)
  obtain r2 st2 w2 where p: "process_buffered_frames gz ctx router t (st1, ?w) = (r2, (st2, w2))"
    by (metis surj_pair)
  obtain fs e rest where d: "drain decode (buf st1) = (fs, e, rest)"
    by (cases "drain decode (buf st1)")
  note P = process_serves [OF p d]
  obtain r1 sta wa where l: "frames_loop gz ctx router t (buf st1) 0 (st1, ?w) = (r1, (sta, wa))"
    by (metis surj_pair)
  have run: "and_then (r2, (st2, w2)) (\<lambda>_ g. conn_loop gz ctx router idle t (chunk_reads cs) g) =
      (r, (st', w'))"
    using Cons.prems(1) by (simp add: reads rr p)
  have count: "int (length fs) \<le> tokens (cc st1) \<and>
      (e = None \<longrightarrow> length (fst (drain decode (rest @ concat cs))) + length fs =
         length (fst (drain decode (buf st @ c @ concat cs))))"
    using frames.drain_append [of "buf st1" "concat cs"] d Cons.prems(5) st1
    by (cases e; cases "drain decode (rest @ concat cs)") auto
  note toks = frames_loop_tokens [OF l, of fs e rest]
  have rate: "r1 \<noteq> Fail RateExceeded" and left: "\<forall>n. r1 = Ok n \<longrightarrow> tokens (cc st1) - int (length fs) \<le> tokens (cc sta)"
    using toks d count st1 no_limit_serve_frames [of gz ctx router fs "visible ?w"]
    by (auto simp: conn_inv_def limiter_inv_def no_limit_def)
  have r2: "r2 \<noteq> Fail RateExceeded"
    using p l rate by (cases r1) (auto simp: process_buffered_frames_def split: if_splits)
  show ?case
  proof (cases "r2 = Ok ()")
    case True
    with P have e: "e = None" and b2: "buf st2 = rest" "decode rest = Inr None" "conn_inv st2"
      using st1(3) by (auto simp: and_then_Ok_iff split: option.splits)
    have "tokens (cc st2) = tokens (cc sta)" "\<exists>n. r1 = Ok n"
      using p l True by (cases r1; auto simp: process_buffered_frames_def Release_def split: if_splits)+
    then have "int (length (fst (drain decode (rest @ concat cs)))) \<le> tokens (cc st2)"
      using left count e Cons.prems(5) st1 by auto
    moreover have "length rest \<le> length (buf st1)"
      using frames.drain_rest [of "buf st1" fs rest] d e by auto
    moreover from run have "conn_loop gz ctx router idle t (chunk_reads cs) (st2, w2) = (r, (st', w'))"
      by (simp add: True)
    ultimately show ?thesis
      using Cons.IH [of st2 w2] b2 Cons.prems(4) st1 by simp
  next
    case False
    then have "r = r2 \<or> (\<exists>x. r2 = Fail x \<and> r = Fail x)" using run by (cases r2) auto
    moreover have "no_limit (fst (and_then (serve_frames gz ctx router fs (visible ?w))
        (\<lambda>_ v. case e of None \<Rightarrow> (Ok (), v) | Some e \<Rightarrow> (Fail (FrameErr e), v))))"
      by (rule no_limit_then) (auto simp: no_limit_serve_frames split: option.splits)
    then have "no_limit r2" using P r2 by auto
    ultimately show ?thesis by auto
  qed
qed

end
