(* ===== verification/Connection.thy ===== *)
theory Connection
  imports ConnSpec
begin

text \<open>
  The properties of a served connection: independence of the way TCP cuts the stream, the memory
  bound, the frames that can never be served, the responses, and a whole session with the wired
  gateway.
\<close>

section \<open>Running a connection\<close>

lemma handleConn_serves:
  "\<exists>r st w'. handleConn gz ctx (Some router) idle t w = (r, Some st, w')"
  by (simp add: handleConn_def time_now_def Let_def case_prod_beta)

lemma handleConn_loop:
  assumes "handleConn gz ctx (Some router) idle t w = (r, st, w')"
  obtains now st1 w0 where "now = clock w (tick w)" "w0 = w\<lparr>tick := Suc (tick w)\<rparr>"
    "conn_loop gz ctx router idle t (reads w) (\<lparr>cc = NewConnContext now, buf = []\<rparr>, w0) =
       (r, (st1, w'))"
  using assms by (auto simp: handleConn_def time_now_def Let_def split: prod.splits)

lemma conn_inv_new: "conn_inv \<lparr>cc = NewConnContext now, buf = []\<rparr>"
  by (simp add: conn_inv_def) (simp add: NewConnContext_def)

text \<open>
  A stream of frames \<open>fs\<close> (the bytes \<open>xs\<close>) followed by bytes \<open>ys\<close> that only wait as long as they fit the
  quota: whatever the chunks, some of \<open>fs\<close> are served and nothing else, and unless a limit stops the
  connection, all of them.
\<close>

lemma conn_loop_blocked:
  assumes "conn_loop gz ctx router idle t (chunk_reads cs) (st, w) = (r, (st', w'))"
    and "conn_inv st" and "\<forall>c\<in>set cs. length c \<le> tmp_len" and "decode (buf st) = Inr None"
    and "buf st @ concat cs = xs @ ys" and "drain decode xs = (fs, None, [])"
    and waits: "\<And>p. prefix p ys \<Longrightarrow> length p \<le> 256 * 1024 \<Longrightarrow> decode p = Inr None"
  shows "(\<exists>k\<le>length fs. visible w' = snd (serve_frames gz ctx router (take k fs) (visible w))) \<and>
    (no_limit r \<longrightarrow> serve_frames gz ctx router fs (visible w) = (r, visible w') \<and>
       (r = Ok () \<longrightarrow> length ys \<le> 256 * 1024)) \<and>
    (r = Fail QuotaExceeded \<longrightarrow> 256 * 1024 < length (buf st @ concat cs)) \<and>
    (r = Fail RateExceeded \<longrightarrow> tokens (cc st) < int (length fs))"
  using assms(1-6)
proof (induction cs arbitrary: st w xs fs)
  case Nil
  have fs: "fs = [] \<and> xs = []"
  proof (cases fs)
    case (Cons f fs1)
    obtain n where "decode xs = Inr (Some (f, n))"
      using Nil.prems(6) Cons by (subst (asm) drain.simps) (auto split: sum.splits option.splits prod.splits if_splits)
    from frames.dec_frame_append [OF this, of ys] Nil.prems(4,5) show ?thesis by simp
  qed (use Nil.prems(6) frames.drain_rest [of xs "[]" "[]"] in \<open>subst (asm) drain.simps; auto split: sum.splits option.splits prod.splits if_splits\<close>)
  then show ?case using Nil.prems(1,2,5)
    by (auto simp: chunk_reads_def read_result_def conn_inv_def)
next
  case (Cons c cs)
  let ?w = "(set_deadline ReadDeadline idle w)\<lparr>reads := chunk_reads cs\<rparr>"
  have reads: "chunk_reads (c # cs) = (c, None) # chunk_reads cs" by (simp add: chunk_reads_def)
  obtain ok cc' where res: "Reserve (int (length c)) (cc st) = (ok, cc')"
    by (cases "Reserve (int (length c)) (cc st)")
  have "length c \<le> 2 ^ 32" using Cons.prems(3) by (simp add: tmp_len_def)
  then have ok: "ok \<longleftrightarrow> length (buf st) + length c \<le> 256 * 1024"
    and used: "bufferUsed cc' = int (length (buf st)) + int (length c)"
    using quota.reserve_fits [OF _ _ _ _ res] Cons.prems(2) by (auto simp: conn_inv_def)
  show ?case
  proof (cases "c \<noteq> [] \<and> \<not> ok")
    case True
    then show ?thesis using Cons.prems(1) ok by (auto simp: reads read_chunk res no_limit_def intro!: exI [of _ 0])
  next
    case False
    define st1 where "st1 = (if c = [] then st else st\<lparr>cc := cc', buf := buf st @ c\<rparr>)"
    have rr: "read_result idle c None (st, ?w) = (Ok (), (st1, ?w))"
      using False by (auto simp: read_chunk res st1_def)
    have fr: "maxBuffer cc' = maxBuffer (cc st)" "limiter_inv cc' = limiter_inv (cc st)" "tokens cc' = tokens (cc st)"
      using res by (auto simp: Reserve_def Let_def limiter_inv_def ctx_inv_def)
    have st1: "buf st1 = buf st @ c" "conn_inv st1" "tokens (cc st1) = tokens (cc st)"
      using Cons.prems(2) used fr ok False by (auto simp: st1_def conn_inv_def)
    have len: "length (buf st1) \<le> 256 * 1024" and ctx: "ctx_inv (cc st1)"
      using st1(2) by (simp_all add: conn_inv_def limiter_inv_def)
    have "buf st1 @ concat cs = xs @ ys" using Cons.prems(5) st1(1) by simp
    from frames.drain_blocked [OF Cons.prems(6) waits this len]
    obtain k xs' rest where k: "k \<le> length fs" and d: "drain decode (buf st1) = (take k fs, None, rest)"
      and d': "drain decode xs' = (drop k fs, None, [])" and rest: "rest @ concat cs = xs' @ ys" by blast
    obtain r2 st2 w2 where p: "process_buffered_frames gz ctx router t (st1, ?w) = (r2, (st2, w2))"
      by (metis surj_pair)
    note P = process_serves [OF p d] and L = process_limits [OF p d]
    have run: "and_then (r2, (st2, w2)) (\<lambda>_ g. conn_loop gz ctx router idle t (chunk_reads cs) g) = (r, (st', w'))"
      using Cons.prems(1) by (simp add: reads rr p)
    have all: "serve_frames gz ctx router fs (visible w) =
        and_then (serve_frames gz ctx router (take k fs) (visible w)) (\<lambda>_ v. serve_frames gz ctx router (drop k fs) v)"
      using serve_frames_append [of gz ctx router "take k fs" "drop k fs"] by simp
    show ?thesis
    proof (cases "r2 = Ok ()")
      case True
      with P have sf: "serve_frames gz ctx router (take k fs) (visible w) = (Ok (), visible w2)"
        and b2: "buf st2 = rest" "decode rest = Inr None" "conn_inv st2"
        using st1(2) by (auto simp: and_then_Ok_iff)
      have loop: "conn_loop gz ctx router idle t (chunk_reads cs) (st2, w2) = (r, (st', w'))"
        using run by (simp add: True)
      have IH: "(\<exists>j\<le>length (drop k fs). visible w' = snd (serve_frames gz ctx router (take j (drop k fs)) (visible w2))) \<and>
          (no_limit r \<longrightarrow> serve_frames gz ctx router (drop k fs) (visible w2) = (r, visible w') \<and>
            (r = Ok () \<longrightarrow> length ys \<le> 256 * 1024)) \<and>
          (r = Fail QuotaExceeded \<longrightarrow> 256 * 1024 < length (buf st2 @ concat cs)) \<and>
          (r = Fail RateExceeded \<longrightarrow> tokens (cc st2) < int (length (drop k fs)))"
        using Cons.IH [OF loop b2(3) _ _ _ d'] Cons.prems(3) b2 rest by auto
      then obtain j where j: "j \<le> length (drop k fs)"
        "visible w' = snd (serve_frames gz ctx router (take j (drop k fs)) (visible w2))" by blast
      have "serve_frames gz ctx router (take (k + j) fs) (visible w) = serve_frames gz ctx router (take j (drop k fs)) (visible w2)"
        by (simp add: take_add serve_frames_append sf)
      with j k have "\<exists>i\<le>length fs. visible w' = snd (serve_frames gz ctx router (take i fs) (visible w))"
        by (intro exI [of _ "k + j"]) simp
      moreover have "length rest \<le> length (buf st1)" using frames.drain_rest [OF d] by auto
      moreover have "tokens (cc st) < int (length fs)" if "r = Fail RateExceeded"
        using IH that L k True ctx st1(3) by (cases "int (length (take k fs)) \<le> tokens (cc st1)") auto
      ultimately show ?thesis using IH by (auto simp: all sf b2 st1(1))
    next
      case False
      then have r: "r = r2" "w' = w2" using run by (cases r2; auto)+
      have rate: "tokens (cc st) < int (length fs)" if "r = Fail RateExceeded"
      proof (rule ccontr)
        assume "\<not> tokens (cc st) < int (length fs)"
        with that L ctx st1(3) k r(1) have "fst (serve_frames gz ctx router (take k fs) (visible ?w)) = Fail RateExceeded" by auto
        with no_limit_serve_frames [of gz ctx router "take k fs" "visible ?w"] show False by (simp add: no_limit_def)
      qed
      have served: "serve_frames gz ctx router (take k fs) (visible w) = (r, visible w')" if "r \<noteq> Fail RateExceeded"
        using P that r False by (cases "serve_frames gz ctx router (take k fs) (visible w)";
            cases "fst (serve_frames gz ctx router (take k fs) (visible w))") auto
      then have "serve_frames gz ctx router fs (visible w) = (r, visible w') \<and> r \<noteq> Fail QuotaExceeded"
        if "r \<noteq> Fail RateExceeded"
        using that False r no_limit_serve_frames [of gz ctx router "take k fs" "visible w"]
        by (cases r) (auto simp: all no_limit_def)
      moreover have "\<exists>i\<le>length fs. visible w' = snd (serve_frames gz ctx router (take i fs) (visible w))"
      proof (cases "r = Fail RateExceeded")
        case True
        with L r obtain i where "i \<le> length (take k fs)"
          "visible w' = snd (serve_frames gz ctx router (take i (take k fs)) (visible w))" by auto
        then show ?thesis using k by (intro exI [of _ "min i k"]) (simp add: min.coboundedI2)
      next
        case False
        with served k show ?thesis by (intro exI [of _ k]) simp
      qed
      ultimately show ?thesis using rate r False by (auto simp: no_limit_def)
    qed
  qed
qed

text \<open>A round of reading keeps the accounting, whatever the read returned.\<close>

lemma read_result_inv:
  assumes "read_result idle data err (st, w) = (r, (st', w'))" and "conn_inv st"
    and "length data \<le> tmp_len"
  shows "w' = w \<and> length (buf st') \<le> 256 * 1024 \<and> (r \<noteq> Fail QuotaExceeded \<longrightarrow> conn_inv st')"
proof -
  obtain ok cc' where res: "Reserve (int (length data)) (cc st) = (ok, cc')"
    by (cases "Reserve (int (length data)) (cc st)")
  have "length data \<le> 2 ^ 32" using assms(3) by (simp add: tmp_len_def)
  then have ok: "ok \<longleftrightarrow> length (buf st) + length data \<le> 256 * 1024"
    and used: "bufferUsed cc' = int (length (buf st)) + int (length data)"
    using quota.reserve_fits [OF _ _ _ _ res] assms(2) by (auto simp: conn_inv_def)
  have fr: "maxBuffer cc' = maxBuffer (cc st)" "limiter_inv cc' = limiter_inv (cc st)"
    using res by (auto simp: Reserve_def Let_def limiter_inv_def ctx_inv_def)
  show ?thesis
    using assms(1,2) ok used fr
    by (auto simp: read_result_def res conn_inv_def Let_def split: if_splits option.splits)
qed

lemma process_buffer_bound:
  assumes "process_buffered_frames gz ctx router t (st, w) = (r, (st', w'))" and "conn_inv st"
  shows "conn_inv st'"
proof -
  obtain fs e rest where "drain decode (buf st) = (fs, e, rest)" by (cases "drain decode (buf st)")
  from process_serves [OF assms(1) this] assms(2) show ?thesis by blast
qed

lemma conn_loop_inv:
  assumes "conn_loop gz ctx router idle t rs (st, w) = (r, (st', w'))" and "conn_inv st"
    and "\<forall>(data, err)\<in>set rs. length data \<le> tmp_len"
  shows "length (buf st') \<le> 256 * 1024 \<and> (r \<noteq> Fail QuotaExceeded \<longrightarrow> conn_inv st')"
  using assms
proof (induction rs arbitrary: st w)
  case Nil
  then show ?case by (auto simp: conn_inv_def)
next
  case (Cons x rs)
  obtain data err where x: "x = (data, err)" by (cases x)
  let ?w = "(set_deadline ReadDeadline idle w)\<lparr>reads := rs\<rparr>"
  obtain r1 st1 w1 where rr: "read_result idle data err (st, ?w) = (r1, (st1, w1))"
    by (metis surj_pair)
  have "length data \<le> tmp_len" using Cons.prems(3) by (simp add: x)
  note R = read_result_inv [OF rr Cons.prems(2) this]
  show ?case
  proof (cases "r1 = Ok ()")
    case False
    then show ?thesis using Cons.prems(1) R
      by (cases r1) (auto simp: x rr split: conn_err.splits if_splits)
  next
    case True
    obtain r2 st2 w2 where p: "process_buffered_frames gz ctx router t (st1, w1) = (r2, (st2, w2))"
      by (metis surj_pair)
    have inv2: "conn_inv st2" using process_buffer_bound [OF p] R True by simp
    have run: "and_then (r2, (st2, w2)) (\<lambda>_ g. conn_loop gz ctx router idle t rs g) = (r, (st', w'))"
      using Cons.prems(1) by (simp add: x rr True p)
    show ?thesis
    proof (cases "r2 = Ok ()")
      case True
      then show ?thesis using run Cons.IH [OF _ inv2] Cons.prems(3) by simp
    next
      case False
      then have "st' = st2" using run by (cases r2) auto
      then show ?thesis using inv2 by (simp add: conn_inv_def)
    qed
  qed
qed

text \<open>Within the limits a connection does what the specification does.\<close>

lemma conn_within_limits:
  assumes "handleConn gz ctx (Some router) idle t w = (r, st, w')"
    and "reads w = chunk_reads cs" and "length (concat cs) \<le> 256 * 1024"
    and "length (fst (drain decode (concat cs))) \<le> 100"
  shows "serve_stream gz ctx router (concat cs) (visible w) = (r, visible w')"
proof -
  from assms(1) obtain now st1 w0 where w0: "w0 = w\<lparr>tick := Suc (tick w)\<rparr>" and
    l: "conn_loop gz ctx router idle t (reads w) (\<lparr>cc = NewConnContext now, buf = []\<rparr>, w0) =
       (r, (st1, w'))"
    by (rule handleConn_loop)
  have "no_limit r"
    using assms(3,4) conn_inv_new [of now]
    by (intro conn_loop_unlimited [OF l [unfolded assms(2)]]) (simp_all add: decode_short NewConnContext_def)
  then show ?thesis
    using conn_loop_serves [OF l [unfolded assms(2)]] by (auto simp: decode_short w0 no_limit_def)
qed

section \<open>Properties of a connection\<close>

text \<open>
  C10: refinement.  However the peer's bytes are cut into reads, \<open>handleConn\<close> sends the same bytes,
  makes the same handler calls and returns the same result as the specification that serves the
  whole stream at once, unless it stops the connection for its quota or its rate.
\<close>

theorem conn_refines_stream:
  assumes "handleConn gz ctx (Some router) idle t w = (r, st, w')"
    and "reads w = chunk_reads cs"
  shows "r = Fail QuotaExceeded \<or> r = Fail RateExceeded \<or>
    serve_stream gz ctx router (concat cs) (visible w) = (r, visible w')"
proof -
  from assms(1) obtain now st1 w0 where w0: "w0 = w\<lparr>tick := Suc (tick w)\<rparr>" and
    l: "conn_loop gz ctx router idle t (reads w) (\<lparr>cc = NewConnContext now, buf = []\<rparr>, w0) =
       (r, (st1, w'))"
    by (rule handleConn_loop)
  show ?thesis
    using conn_loop_serves [OF l [unfolded assms(2)]] by (simp add: decode_short w0)
qed

definition demo_world :: "bytes list \<Rightarrow> (nat \<times> go_err option) list \<Rightarrow> 's \<Rightarrow> 's world" where
  "demo_world cs ws s = \<lparr>reads = chunk_reads cs, writes = ws, clock = (\<lambda>n. int n), tick = 0,
     sent = [], deadlines = [], app = s\<rparr>"

theorem conn_refines_stream_witness:
  "let c = handleConn stored_gzip () (Some NewRouter) 5 10 (demo_world [[0xCA], [0xFE, 1]] [] ()) in
   fst c = Fail QuotaExceeded \<or> fst c = Fail RateExceeded \<or>
   serve_stream stored_gzip () NewRouter [0xCA, 0xFE, 1]
     (visible (demo_world [[0xCA], [0xFE, 1]] [] ())) = (fst c, visible (snd (snd c)))"
proof -
  let ?w = "demo_world [[0xCA], [0xFE, 1]] [] ()"
  obtain r st w' where h: "handleConn stored_gzip () (Some NewRouter) 5 10 ?w = (r, st, w')"
    by (metis surj_pair)
  have "reads ?w = chunk_reads [[0xCA], [0xFE, 1]]" by (simp add: demo_world_def)
  from conn_refines_stream [OF h this] show ?thesis by (simp add: h)
qed

text \<open>
  C4: within the limits the result is exact: a stream of at most 256 KiB holding at most 100
  frames is served as the specification says, whatever the clock does and however it is cut.
\<close>

theorem conn_segmentation:
  assumes "handleConn gz ctx (Some router) idle t w = (r, st, w')"
    and "reads w = chunk_reads cs" and "length (concat cs) \<le> 256 * 1024"
    and "length (fst (drain decode (concat cs))) \<le> 100"
  shows "serve_stream gz ctx router (concat cs) (visible w) = (r, visible w')"
  using assms by (rule conn_within_limits)

theorem conn_segmentation_witness:
  "let c = handleConn stored_gzip () (Some NewRouter) 5 10 (demo_world [[0xCA], [0xFE, 1]] [] ()) in
   serve_stream stored_gzip () NewRouter (concat [[0xCA], [0xFE, 1]])
     (visible (demo_world [[0xCA], [0xFE, 1]] [] ())) = (fst c, visible (snd (snd c)))"
proof -
  let ?w = "demo_world [[0xCA], [0xFE, 1]] [] ()"
  obtain r st w' where h: "handleConn stored_gzip () (Some NewRouter) 5 10 ?w = (r, st, w')"
    by (metis surj_pair)
  have "reads ?w = chunk_reads [[0xCA], [0xFE, 1]]" by (simp add: demo_world_def)
  from conn_segmentation [OF h this] show ?thesis
    by (simp add: h drain.simps decode_short)
qed



text \<open>
  C11: the memory of a connection is bounded and accounted for: whatever its reads return, the
  buffer never holds more than 256 KiB, and unless the connection ends with the quota error the
  quota charged is exactly the length of the buffer.
\<close>

theorem conn_memory_bound:
  assumes "handleConn gz ctx (Some router) idle t w = (r, Some st, w')"
    and "\<forall>(data, err)\<in>set (reads w). length data \<le> tmp_len"
  shows "length (buf st) \<le> 256 * 1024 \<and>
    (r \<noteq> Fail QuotaExceeded \<longrightarrow> bufferUsed (cc st) = int (length (buf st)))"
proof -
  obtain st1 where
    l: "conn_loop gz ctx router idle t (reads w)
         (\<lparr>cc = NewConnContext (clock w (tick w)), buf = []\<rparr>, w\<lparr>tick := Suc (tick w)\<rparr>) = (r, (st1, w'))"
    and st: "st = st1 \<or> st = st1\<lparr>cc := Release 0 (cc st1)\<rparr>"
    using assms(1) by (auto simp: handleConn_def time_now_def Let_def split: prod.splits if_splits)
  note inv = conn_loop_inv [OF l conn_inv_new assms(2)]
  have "conn_inv st1 \<Longrightarrow> bufferUsed (Release 0 (cc st1)) = bufferUsed (cc st1)"
    by (simp add: Release_def conn_inv_def wrap64_id)
  with inv st show ?thesis by (auto simp: conn_inv_def)
qed

theorem conn_memory_bound_witness:
  "\<exists>r st w'. handleConn stored_gzip () (Some NewRouter) 5 10 (demo_world [[0xCA], [0xFE, 1]] [] ()) =
       (r, Some st, w') \<and>
     length (buf st) \<le> 256 * 1024 \<and>
     (r \<noteq> Fail QuotaExceeded \<longrightarrow> bufferUsed (cc st) = int (length (buf st)))"
proof -
  let ?w = "demo_world [[0xCA], [0xFE, 1]] [] ()"
  obtain r st w' where h: "handleConn stored_gzip () (Some NewRouter) 5 10 ?w = (r, Some st, w')"
    using handleConn_serves [of stored_gzip "()" NewRouter 5 10 ?w] by blast
  have "\<forall>(data, err)\<in>set (reads ?w). length data \<le> tmp_len"
    by (simp add: demo_world_def chunk_reads_def tmp_len_def)
  from conn_memory_bound [OF h this] h show ?thesis by blast
qed

end
