(* ===== verification/Session.thy ===== *)
theory Session
  imports Connection
begin

text \<open>
  What a connection writes: the responses (\<open>writeAll\<close>, \<open>handleFrame\<close>), the one-way frames that get
  none, the responses that cannot be framed, and a whole session of a peer with the gateway that
  \<open>cmd/server\<close> wires: every request in the stream is answered, in order.
\<close>

section \<open>Writing\<close>

lemma write_loop_prefix:
  assumes "write_loop data ws out = (r, ws', out')"
  shows "\<exists>p. prefix p data \<and> out' = out @ p \<and> (r = Ok () \<longrightarrow> p = data)"
  using assms
proof (induction data ws out rule: write_loop.induct)
  case (4 v va n ws out)
  show ?case
  proof (cases "n > length (v # va)")
    case True
    then show ?thesis using 4(2) by (intro exI [of _ "v # va"]) simp
  next
    case False
    with 4(2) have "write_loop (drop n (v # va)) ws (out @ take n (v # va)) = (r, ws', out')"
      by simp
    from 4(1) [OF False this] obtain p where p: "prefix p (drop n (v # va))"
      "out' = (out @ take n (v # va)) @ p" "r = Ok () \<longrightarrow> p = drop n (v # va)"
      by blast
    have "prefix (take n (v # va) @ p) (take n (v # va) @ drop n (v # va))"
      using p(1) by (simp only: same_prefix_prefix)
    then have "prefix (take n (v # va) @ p) (v # va)" by (simp only: append_take_drop_id)
    moreover have "r = Ok () \<longrightarrow> take n (v # va) @ p = v # va"
      using p(3) by (auto simp only: append_take_drop_id)
    ultimately show ?thesis using p(2) by (intro exI [of _ "take n (v # va) @ p"]) simp
  qed
qed (auto simp: take_is_prefix)

text \<open>
  \<open>writeAll\<close> sends the whole response or, on an error, a prefix of it, never anything else;
  unless it blocks it leaves no write deadline behind, whatever timeout is configured.
\<close>

theorem write_all_result:
  assumes "write_all data wt w = (r, w')"
  shows "(\<exists>p. prefix p data \<and> sent w' = sent w @ p \<and> (r = Ok () \<longrightarrow> p = data)) \<and>
    (r \<noteq> Hang \<longrightarrow> deadlines w' \<noteq> [] \<and> last (deadlines w') = WriteDeadline None)"
proof -
  obtain r1 ws out where l: "write_loop data (writes w) (sent w) = (r1, ws, out)"
    by (metis surj_pair)
  from write_loop_prefix [OF l] assms l show ?thesis
    by (auto simp: write_all_def Let_def set_deadline_def time_now_def split: if_splits)
qed

theorem write_all_result_witness:
  "\<exists>r w'. write_all [1, 2, 3] 10 (demo_world [] [(2, None), (0, Some ErrClosed)] ()) = (r, w') \<and>
    (\<exists>p. prefix p [1, 2, 3] \<and> sent w' = p \<and> (r = Ok () \<longrightarrow> p = [1, 2, 3])) \<and>
    (r \<noteq> Hang \<longrightarrow> deadlines w' \<noteq> [] \<and> last (deadlines w') = WriteDeadline None)"
proof -
  let ?w = "demo_world [] [(2, None), (0, Some ErrClosed)] () :: unit world"
  obtain r w' where h: "write_all [1, 2, 3] 10 ?w = (r, w')" by fastforce
  have "sent ?w = []" by (simp add: demo_world_def)
  with write_all_result [OF h] h show ?thesis by auto
qed

text \<open>
  A one-way frame gets no response: whatever its body, its handler and the outcome, nothing is
  written and no deadline is set for it.
\<close>

theorem one_way_silent:
  assumes "fr_flags f AND FlagOneWay \<noteq> 0"
    and "dispatch_frame gz ctx router f wt w = (r, w')"
  shows "sent w' = sent w \<and> writes w' = writes w \<and> deadlines w' = deadlines w"
proof (cases "decode_frame_body gz (Some f)")
  case (Inr body)
  show ?thesis
  proof (cases "decode_message body")
    case (Inr msg)
    obtain d s where "Dispatch ctx msg router (app w) = (d, s)" by fastforce
    with assms Inr \<open>decode_frame_body gz (Some f) = Inr body\<close> show ?thesis
      by (cases d) (auto simp: dispatch_frame_def split: option.splits)
  qed (use assms Inr in \<open>auto simp: dispatch_frame_def\<close>)
qed (use assms in \<open>auto simp: dispatch_frame_def\<close>)

theorem one_way_silent_witness:
  "\<exists>r w'. dispatch_frame stored_gzip () (su_router (wire fresh_setup))
      \<lparr>fr_version = 1, fr_flags = 4, fr_body = [0, 1]\<rparr> 10
      (demo_world [] [] (su_table (wire fresh_setup), ())) = (r, w') \<and>
    sent w' = [] \<and> writes w' = [] \<and> deadlines w' = []"
proof -
  let ?w = "demo_world [] [] (su_table (wire fresh_setup), ()) ::
    ((unit, unit) dispatch_table \<times> unit) world"
  let ?f = "\<lparr>fr_version = 1, fr_flags = 4, fr_body = [0, 1]\<rparr> :: frame"
  have f: "fr_flags ?f AND FlagOneWay \<noteq> 0" by (simp add: FlagOneWay_def)
  obtain r w' where h: "dispatch_frame stored_gzip () (su_router (wire fresh_setup)) ?f 10 ?w = (r, w')"
    by fastforce
  from one_way_silent [OF f h] h show ?thesis by (auto simp: demo_world_def)
qed

section \<open>A session\<close>

text \<open>The bytes of an uncompressed message on the wire: what a client sends and the gateway answers.\<close>

definition wire_message :: "message \<Rightarrow> bytes" where
  "wire_message m =
     (case encode_message m of
        Inl _ \<Rightarrow> []
      | Inr body \<Rightarrow>
          (case (encode \<lparr>fr_version = 0, fr_flags = 0, fr_body = body\<rparr> :: (unit, bytes) outcome) of
             Ok w \<Rightarrow> w
           | _ \<Rightarrow> []))"

definition message_frame :: "message \<Rightarrow> frame" where
  "message_frame m = \<lparr>fr_version = FrameVersion, fr_flags = 0,
     fr_body = put_be16 (msg_command m) @ put_be64 (msg_request_id m) @ msg_payload m\<rparr>"

definition fits :: "message \<Rightarrow> bool" where
  "fits m \<longleftrightarrow> 10 + length (msg_payload m) \<le> MaxFrameBody"

lemma wire_message_header:
  "fits m \<Longrightarrow> wire_message m =
     header FrameMagic FrameVersion 0 (of_nat (length (fr_body (message_frame m)))) @
     fr_body (message_frame m)"
  by (simp add: wire_message_def encode_message_def encode_header message_frame_def fits_def)

lemma length_body [simp]: "length (fr_body (message_frame m)) = 10 + length (msg_payload m)"
  by (simp add: message_frame_def)

lemma length_wire_message: "fits m \<Longrightarrow> length (wire_message m) = 18 + length (msg_payload m)"
  by (simp add: wire_message_header)

lemma decode_wire:
  assumes "fits m"
  shows "decode (wire_message m @ xs) = Inr (Some (message_frame m, length (wire_message m)))"
proof -
  have "unat (of_nat (length (fr_body (message_frame m))) :: 32 word) = length (fr_body (message_frame m))"
    using assms by (intro unat_body_length) (simp add: fits_def)
  moreover have "message_frame m =
      \<lparr>fr_version = FrameVersion, fr_flags = 0, fr_body = fr_body (message_frame m)\<rparr>"
    by (simp add: message_frame_def)
  ultimately show ?thesis using assms
    by (simp add: wire_message_header decode_header fits_def)
qed

lemma drain_messages:
  assumes "\<forall>m\<in>set ms. fits m"
  shows "drain decode (concat (map wire_message ms)) = (map message_frame ms, None, [])"
  using assms
proof (induction ms)
  case Nil
  then show ?case by (simp add: frames.drain_wait decode_short)
next
  case (Cons m ms)
  then show ?case by (simp add: frames.drain_frame [OF decode_wire])
qed

lemma plain_body: 
  "decode_frame_body gz (Some (message_frame m)) = Inr (fr_body (message_frame m))"
  "encode_frame_body gz 0 body = Inr (0, body)"
  by (simp_all add: decode_frame_body_def encode_frame_body_def message_frame_def validate_flags_def Let_def)

lemma message_frame_simps [simp]:
  "fr_flags (message_frame m) = 0"
  "decode_message (fr_body (message_frame m)) = Inr m"
  by (simp_all add: message_frame_def decode_message_bytes)

lemma response_plain:
  assumes "fits resp" "msg_request_id resp = msg_request_id m"
  shows "response_bytes gz 0 m resp = Ok (wire_message resp)"
  using assms 
  by (simp add: response_bytes_def plain_body wire_message_def encode_message_def Let_def fits_def encode_header)

lemma serve_request:
  assumes "dispatch_visible ctx m router v = (Ok (Some resp), v)" "fits resp"
    "msg_request_id resp = msg_request_id m" 
  shows "serve_frame gz ctx router (message_frame m) v = send_visible (wire_message resp) v"
  using assms by (simp add: serve_frame_def plain_body response_plain)

lemma send_whole:
  "send_visible data (out, (length data, None) # ws, s) = (Ok (), (out @ data, ws, s))" if "data \<noteq> []"
  using that by (cases data) (simp_all add: send_visible_def)


definition answer :: "message \<Rightarrow> message" where
  "answer m = m\<lparr>msg_payload := (if msg_command m = CmdPing then go_bytes ''pong'' else go_bytes ''ok'')\<rparr>"

definition known :: "message \<Rightarrow> bool" where
  "known m \<longleftrightarrow> msg_command m \<in> {CmdPing, CmdUserLogin, CmdOrderCreate}"

lemma gateway_answer_known: "known m \<Longrightarrow> gateway_answer m = Ok (Some (answer m))"
  by (auto simp: known_def gateway_answer_def answer_def)

lemma answer_fits: "fits (answer m)" "wire_message (answer m) \<noteq> []"
proof -
  show "fits (answer m)" by (simp add: fits_def answer_def go_bytes_def MaxFrameBody_def)
  then show "wire_message (answer m) \<noteq> []" using length_wire_message [of "answer m"] by auto
qed

lemma serve_messages:
  assumes "su_router g = NewRouter" and "\<forall>m\<in>set ms. known m"
  shows "serve_frames gz ctx (su_router (wire g)) (map message_frame ms)
      (out, map (\<lambda>m. (length (wire_message (answer m)), None)) ms @ ws, (su_table (wire g), s)) =
    (Ok (), (out @ concat (map (\<lambda>m. wire_message (answer m)) ms), ws, (su_table (wire g), s)))"
  using assms(2)
proof (induction ms arbitrary: out)
  case (Cons m ms)
  have d: "dispatch_visible ctx m (su_router (wire g)) (out', ws', (su_table (wire g), s)) =
      (Ok (Some (answer m)), (out', ws', (su_table (wire g), s)))" for out' ws'
    using Cons.prems by (simp add: dispatch_visible_def gateway_dispatch [OF assms(1), simplified] gateway_answer_known)
  have "serve_frame gz ctx (su_router (wire g)) (message_frame m) (out', ws', (su_table (wire g), s)) =
      send_visible (wire_message (answer m)) (out', ws', (su_table (wire g), s))" for out' ws'
    by (rule serve_request [OF d answer_fits(1)]) (simp add: answer_def)
  then show ?case using Cons by (simp add: send_whole answer_fits)
qed simp

lemma session_answers:
  assumes "wired (su_mapper g)" and "su_router g = NewRouter" and "server_setup g = (Ok (), g')"
    and "handleConn gz ctx (Some (su_router g')) idle t w = (r, st, w')"
    and "reads w = chunk_reads cs" and "concat cs = concat (map wire_message ms)"
    and "\<forall>m\<in>set ms. fits m \<and> known m"
    and "length (concat cs) \<le> 256 * 1024" and "length ms \<le> 100"
    and "app w = (su_table g', s)"
    and "writes w = map (\<lambda>m. (length (wire_message (answer m)), None)) ms @ ws"
  shows "r = Ok () \<and> sent w' = sent w @ concat (map (\<lambda>m. wire_message (answer m)) ms) \<and>
    writes w' = ws \<and> app w' = app w"
proof -
  have g': "g' = wire g" using assms(3) server_setup_wire [OF assms(1)] by simp
  have d: "drain decode (concat cs) = (map message_frame ms, None, [])"
    using drain_messages assms(6,7) by simp
  have "serve_stream gz ctx (su_router g') (concat cs) (visible w) = (r, visible w')"
    using assms(8,9) d by (intro conn_within_limits [OF assms(4,5)]) simp_all
  moreover have "visible w = (sent w, map (\<lambda>m. (length (wire_message (answer m)), None)) ms @ ws,
      (su_table (wire g), s))"
    using assms(10,11) by (simp add: visible_def g')
  ultimately show ?thesis
    using serve_messages [OF assms(2), of ms] assms(7,10) by (simp add: serve_stream_def d g' visible_def)
qed

section \<open>Properties of a session\<close>

text \<open>
  C1: end to end: a peer that sends up to 100 requests for the gateway's commands, cut into reads
  in any way, within 256 KiB, gets exactly the answers to its requests, in order, and the
  connection ends without an error when the peer closes.
\<close>

theorem gateway_session:
  assumes "wired (su_mapper g)" and "su_router g = NewRouter" and "server_setup g = (Ok (), g')"
    and "handleConn gz ctx (Some (su_router g')) idle t w = (r, st, w')"
    and "reads w = chunk_reads cs" and "concat cs = concat (map wire_message ms)"
    and "\<forall>m\<in>set ms. fits m \<and> known m"
    and "length (concat cs) \<le> 256 * 1024" and "length ms \<le> 100"
    and "app w = (su_table g', s)"
    and "writes w = map (\<lambda>m. (length (wire_message (answer m)), None)) ms @ ws"
  shows "r = Ok () \<and> sent w' = sent w @ concat (map (\<lambda>m. wire_message (answer m)) ms) \<and>
    writes w' = ws \<and> app w' = app w"
  by (rule session_answers [OF assms])

definition demo_ping :: message where
  "demo_ping = \<lparr>msg_command = CmdPing, msg_request_id = 7, msg_payload = []\<rparr>"

theorem gateway_session_witness:
  "\<exists>r st w'. handleConn stored_gzip () (Some (su_router (wire fresh_setup))) 5 10
      (demo_world [take 5 (wire_message demo_ping), drop 5 (wire_message demo_ping)]
        [(length (wire_message (answer demo_ping)), None)] (su_table (wire fresh_setup), ())) = (r, st, w') \<and>
    r = Ok () \<and> sent w' = wire_message (answer demo_ping) \<and>
    writes w' = [] \<and> app w' = (su_table (wire fresh_setup), ())"
proof -
  let ?cs = "[take 5 (wire_message demo_ping), drop 5 (wire_message demo_ping)]"
  let ?w = "demo_world ?cs [(length (wire_message (answer demo_ping)), None)] (su_table (wire fresh_setup), ())"
  obtain r st w' where h: "handleConn stored_gzip () (Some (su_router (wire fresh_setup))) 5 10 ?w = (r, st, w')"
    by (metis surj_pair)
  have w: "wired (su_mapper fresh_setup)" and n: "su_router fresh_setup = NewRouter"
    by (simp_all add: fresh_setup_def wired_init)
  have f: "fits demo_ping" by (simp add: fits_def demo_ping_def MaxFrameBody_def)
  have "r = Ok () \<and> sent w' = sent ?w @ concat (map (\<lambda>m. wire_message (answer m)) [demo_ping]) \<and>
    writes w' = [] \<and> app w' = app ?w"
    by (rule gateway_session [OF w n server_setup_wire [OF w] h, of ?cs])
       (simp_all add: demo_world_def f known_def length_wire_message, simp_all add: demo_ping_def)
  then show ?thesis using h by (auto simp: demo_world_def)
qed

text \<open>
  C33: a handler whose answer does not fit a frame takes the connection's goroutine down: the frame
  encoder panics instead of returning an error, after the handler's effects.
\<close>

theorem response_too_large_panics:
  assumes "fr_flags f AND FlagOneWay = 0" "fr_flags f AND FlagCompressed = 0"
    and "fr_flags f AND FlagEncrypted = 0"
    and "decode_message (fr_body f) = Inr m" and "Dispatch ctx m router (app w) = (Ok (Some resp), s)"
    and "MaxFrameBody < 10 + length (msg_payload resp)"
  shows "dispatch_frame gz ctx router f wt w = (Panic ''frame body too large'', w\<lparr>app := s\<rparr>)"
  using assms
  by (simp add: dispatch_frame_def decode_frame_body_def validate_flags_def write_response_def Let_def
    encode_frame_body_def encode_message_def encode_def)

theorem response_too_large_panics_witness:
  "dispatch_frame stored_gzip () (Register 7 (Some (BridgeProtocolHandler 7
        (\<lambda>ctx p s. (Ok (replicate MaxFrameBody 0), s)))) NewRouter)
      \<lparr>fr_version = 1, fr_flags = 0, fr_body = [0, 7, 0, 0, 0, 0, 0, 0, 0, 1]\<rparr> 10 (demo_world [] [] ()) =
    (Panic ''frame body too large'', demo_world [] [] ())"
proof -
  let ?w = "demo_world [] [] () :: unit world"
  let ?m = "\<lparr>msg_command = 7, msg_request_id = 1, msg_payload = []\<rparr>"
  have dm: "decode_message [0, 7, 0, 0, 0, 0, 0, 0, 0, 1] = Inr ?m"
    by (simp add: decode_message_def MessageHeaderLen_def be_defs half_defs)
  have "dispatch_frame stored_gzip () (Register 7 (Some (BridgeProtocolHandler 7
        (\<lambda>ctx p s. (Ok (replicate MaxFrameBody 0), s)))) NewRouter)
      \<lparr>fr_version = 1, fr_flags = 0, fr_body = [0, 7, 0, 0, 0, 0, 0, 0, 0, 1]\<rparr> 10 ?w =
    (Panic ''frame body too large'', ?w\<lparr>app := ()\<rparr>)"
    by (rule response_too_large_panics [where m = ?m and resp = "\<lparr>msg_command = 7, msg_request_id = 1,
           msg_payload = replicate MaxFrameBody 0\<rparr>"])
       (simp_all add: dm Dispatch_def Register_def BridgeProtocolHandler_def)
  then show ?thesis by simp
qed
end
