(* ===== verification/Server.thy ===== *)
theory Server
  imports Session
begin

text \<open>
  \<open>main.go\<close>: serve options, the accept loop with its backoff, and the goroutine around a
  connection.  The world is explicit again: the results of the successive \<open>listener.Accept\<close> calls
  are a list (the loop blocks when it is exhausted), a canceled context shows as the
  \<open>net.ErrClosed\<close> that the closed listener answers, and what the server does is a list of actions.
  Durations are nanoseconds.
\<close>

section \<open>Options\<close>

record serve_options =
  addr :: string
  idleTimeout :: int
  writeTimeout :: int

type_synonym serve_option = "serve_options \<Rightarrow> serve_options"

definition defaultServeOptions :: serve_options where
  "defaultServeOptions =
     \<lparr>addr = '':9000'', idleTimeout = 5 * 60 * Second, writeTimeout = 10 * Second\<rparr>"

definition WithIdleTimeout :: "int \<Rightarrow> serve_option" where
  "WithIdleTimeout d = (\<lambda>so. so\<lparr>idleTimeout := d\<rparr>)"

definition WithWriteTimeout :: "int \<Rightarrow> serve_option" where
  "WithWriteTimeout d = (\<lambda>so. so\<lparr>writeTimeout := d\<rparr>)"

definition WithAddr :: "string \<Rightarrow> serve_option" where
  "WithAddr a = (\<lambda>so. so\<lparr>addr := a\<rparr>)"

text \<open>The loop over the options; a \<open>nil\<close> option is \<open>None\<close>.\<close>

fun apply_options :: "serve_option option list \<Rightarrow> serve_options \<Rightarrow> serve_options" where
  "apply_options [] so = so"
| "apply_options (None # opts) so = apply_options opts so"
| "apply_options (Some opt # opts) so = apply_options opts (opt so)"

definition applyServeOptions :: "serve_option option list \<Rightarrow> serve_options" where
  "applyServeOptions opts = apply_options opts defaultServeOptions"

definition normalizeAddr :: "string \<Rightarrow> serve_option option list \<Rightarrow> string" where
  "normalizeAddr a opts =
     (if a \<noteq> [] then a
      else let so = applyServeOptions opts in
        if addr so \<noteq> [] then addr so else '':9000'')"

section \<open>Accepting\<close>

definition isRetryableAcceptError :: "go_err option \<Rightarrow> bool" where
  "isRetryableAcceptError err =
     (case err of
        None \<Rightarrow> False
      | Some e \<Rightarrow>
          if net_timeout e then True
          else if errors_is e (Errno EINTR) then True
          else if errors_is e (Errno EAGAIN) then True
          else if errors_is e (Errno ECONNABORTED) then True
          else if errors_is e (Errno EMFILE) then True
          else if errors_is e (Errno ENFILE) then True
          else if errors_is e (Errno ENOBUFS) then True
          else if errors_is e (Errno ENOMEM) then True
          else False)"

definition nextAcceptBackoff :: "int \<Rightarrow> int" where
  "nextAcceptBackoff current =
     (let next = wrap64 (current * 2) in if next > Second then Second else next)"

definition Millisecond :: int where "Millisecond = 1000000"

datatype 'c accept_result = Accepted 'c | AcceptErr go_err

text \<open>What the server does: start a goroutine for a connection, log, sleep, close the listener.\<close>

datatype 'c server_action =
    Spawn 'c
  | LogRetry go_err
  | Sleep int
  | CloseListener

datatype server_err =
    NoSetup
  | SetupErr go_err
  | AcceptFailed go_err
  | ListenErr go_err

fun accept_from ::
  "int \<Rightarrow> 'c accept_result list \<Rightarrow> (server_err, unit) outcome \<times> 'c server_action list" where
  "accept_from backoff [] = (Hang, [])"
| "accept_from backoff (AcceptErr err # rs) =
     (if errors_is err ErrClosed then (Ok (), [])
      else if isRetryableAcceptError (Some err) then
        (case accept_from (nextAcceptBackoff backoff) rs of
           (r, acts) \<Rightarrow> (r, LogRetry err # Sleep backoff # acts))
      else (Fail (AcceptFailed err), []))"
| "accept_from backoff (Accepted c # rs) =
     (case accept_from (5 * Millisecond) rs of (r, acts) \<Rightarrow> (r, Spawn c # acts))"

definition acceptLoop ::
  "'c accept_result list \<Rightarrow> (server_err, unit) outcome \<times> 'c server_action list" where
  "acceptLoop rs = accept_from (5 * Millisecond) rs"

section \<open>Serving\<close>

text \<open>
  \<open>ServeWithContext\<close>: the \<open>setup\<close> function fills the router (and may change other state \<open>'g\<close>); the
  result carries the router and the options every connection is served with.
\<close>

type_synonym ('ctx, 's, 'g) setup_func =
  "('ctx, 's) router \<Rightarrow> 'g \<Rightarrow> (go_err, ('ctx, 's) router) outcome \<times> 'g"

definition serveWithContext ::
  "('ctx, 's, 'g) setup_func option \<Rightarrow> serve_option option list \<Rightarrow> 'c accept_result list \<Rightarrow> 'g \<Rightarrow>
   (server_err, unit) outcome \<times> (('ctx, 's) router \<times> serve_options) option \<times>
   'c server_action list \<times> 'g" where
  "serveWithContext setup opts rs g =
     (case setup of
        None \<Rightarrow> (Fail NoSetup, None, [], g)
      | Some setup \<Rightarrow>
          let so = applyServeOptions opts in
          (case setup NewRouter g of
             (Ok router, g) \<Rightarrow>
               (case acceptLoop rs of (r, acts) \<Rightarrow> (r, Some (router, so), acts, g))
           | (Fail e, g) \<Rightarrow> (Fail (SetupErr e), None, [], g)
           | (Panic p, g) \<Rightarrow> (Panic p, None, [], g)
           | (Hang, g) \<Rightarrow> (Hang, None, [], g)))"

text \<open>
  \<open>ListenAndServeWithContext\<close>: \<open>net.Listen\<close> is the argument \<open>listen\<close>; the deferred
  \<open>listener.Close()\<close> runs unless the call never returns.
\<close>

definition listenAndServeWithContext ::
  "(string \<Rightarrow> go_err + 'c accept_result list) \<Rightarrow> string \<Rightarrow> ('ctx, 's, 'g) setup_func option \<Rightarrow>
   serve_option option list \<Rightarrow> 'g \<Rightarrow>
   (server_err, unit) outcome \<times> (('ctx, 's) router \<times> serve_options) option \<times>
   'c server_action list \<times> 'g" where
  "listenAndServeWithContext listen a setup opts g =
     (case listen (normalizeAddr a opts) of
        Inl e \<Rightarrow> (Fail (ListenErr e), None, [], g)
      | Inr rs \<Rightarrow>
          (case serveWithContext setup opts rs g of
             (r, served, acts, g) \<Rightarrow>
               (r, served, if r = Hang then acts else acts @ [CloseListener], g)))"

definition listenAndServeWithContextOptions where
  "listenAndServeWithContextOptions listen setup opts g =
     listenAndServeWithContext listen [] setup opts g"

definition listenAndServeWithOptions where
  "listenAndServeWithOptions listen a setup opts g = listenAndServeWithContext listen a setup opts g"

definition listenAndServeWithOptionsOptions where
  "listenAndServeWithOptionsOptions listen setup opts g =
     listenAndServeWithContextOptions listen setup opts g"

definition serveWithOptions where
  "serveWithOptions setup opts rs g = serveWithContext setup opts rs g"

definition serve where
  "serve setup rs g = serveWithOptions setup [] rs g"

text \<open>\<open>ListenAndServe\<close>: unlike the variants above it has no deferred \<open>Close\<close>.\<close>

definition listenAndServe ::
  "(string \<Rightarrow> go_err + 'c accept_result list) \<Rightarrow> string \<Rightarrow> ('ctx, 's, 'g) setup_func option \<Rightarrow> 'g \<Rightarrow>
   (server_err, unit) outcome \<times> (('ctx, 's) router \<times> serve_options) option \<times>
   'c server_action list \<times> 'g" where
  "listenAndServe listen a setup g =
     (case listen (normalizeAddr a []) of
        Inl e \<Rightarrow> (Fail (ListenErr e), None, [], g)
      | Inr rs \<Rightarrow> serve setup rs g)"

text \<open>
  A listener opened by the variants with options is closed whenever the call ends;
  \<open>ListenAndServe\<close> never closes the one it opened.
\<close>

lemma accept_from_open: "CloseListener \<notin> set (snd (accept_from b rs))"
  by (induction b rs rule: accept_from.induct) (auto split: prod.splits)

lemma listener_closed:
  assumes "listen (normalizeAddr a opts) = Inr rs"
    and "listenAndServeWithOptions listen a setup opts g = (r, served, acts, g')" and "r \<noteq> Hang"
  shows "CloseListener \<in> set acts"
  using assms
  by (auto simp: listenAndServeWithOptions_def listenAndServeWithContext_def split: prod.splits if_splits)

lemma listener_left_open:
  assumes "listenAndServe listen a setup g = (r, served, acts, g')"
  shows "CloseListener \<notin> set acts"
proof -
  have open_rs: "accept_from b rs = (o1, acts1) \<Longrightarrow> CloseListener \<notin> set acts1" for b rs o1 acts1
    using accept_from_open [of b rs] by simp
  show ?thesis using assms
    by (auto simp: listenAndServe_def serve_def serveWithOptions_def serveWithContext_def acceptLoop_def Let_def
        split: sum.splits option.splits prod.splits outcome.splits dest: open_rs)
qed

section \<open>The goroutine of a connection\<close>

fun conn_err_is :: "conn_err \<Rightarrow> go_err \<Rightarrow> bool" where
  "conn_err_is (NetworkErr e) target = errors_is e target"
| "conn_err_is (HandlerErr (AppErr e)) target = errors_is e target"
| "conn_err_is (BodyErr (GzipErr e)) target = errors_is e target"
| "conn_err_is _ target = False"

definition isBenignConnError :: "conn_err option \<Rightarrow> bool" where
  "isBenignConnError err =
     (case err of
        None \<Rightarrow> True
      | Some e \<Rightarrow>
          if conn_err_is e ErrClosed then True
          else if conn_err_is e Canceled then True
          else if conn_err_is e (Errno EPIPE) then True
          else if conn_err_is e (Errno ECONNRESET) then True
          else False)"

text \<open>
  \<open>serveConn\<close>: a watcher goroutine closes the connection when the context is done, if it can be
  done; the deferred calls stop the watcher and close the connection, in that order, also when
  \<open>handleConn\<close> panics.
\<close>

datatype conn_event = StartWatcher | StopWatcher | LogConnErr conn_err | CloseConn

definition serveConn ::
  "gzip \<Rightarrow> 'ctx \<Rightarrow> bool \<Rightarrow> ('ctx, 's) router option \<Rightarrow> serve_options \<Rightarrow> 's world \<Rightarrow>
   (conn_err, unit) outcome \<times> conn_event list \<times> 's world" where
  "serveConn gz ctx cancellable router so w =
     (let start = (if cancellable then [StartWatcher] else []);
          finish = (if cancellable then [StopWatcher] else []) @ [CloseConn] in
      case handleConn gz ctx router (idleTimeout so) (writeTimeout so) w of
        (Ok _, st, w) \<Rightarrow> (Ok (), start @ finish, w)
      | (Fail e, st, w) \<Rightarrow>
          (Ok (), start @ (if \<not> isBenignConnError (Some e) then [LogConnErr e] else []) @ finish, w)
      | (Panic p, st, w) \<Rightarrow> (Panic p, start @ finish, w)
      | (Hang, st, w) \<Rightarrow> (Hang, start, w))"

definition HandleConn ::
  "gzip \<Rightarrow> 'ctx \<Rightarrow> ('ctx, 's) router option \<Rightarrow> 's world \<Rightarrow>
   (conn_err, unit) outcome \<times> (conn_state option \<times> 's world)" where
  "HandleConn gz ctx router w =
     (let so = defaultServeOptions in
      handleConn gz ctx router (idleTimeout so) (writeTimeout so) w)"

section \<open>Lemmas\<close>

text \<open>The backoff after \<open>n\<close> consecutive errors, in closed form.\<close>

definition backoff_after :: "nat \<Rightarrow> int" where
  "backoff_after n = min (5 * Millisecond * 2 ^ n) Second"

lemma backoff_after_0: "backoff_after 0 = 5 * Millisecond"
  by (simp add: backoff_after_def Millisecond_def Second_def)

lemma next_backoff: "nextAcceptBackoff (backoff_after n) = backoff_after (Suc n)"
proof -
  have "0 < backoff_after n" "backoff_after n \<le> Second"
    by (simp_all add: backoff_after_def Millisecond_def Second_def)
  then have "wrap64 (backoff_after n * 2) = backoff_after n * 2"
    by (intro wrap64_id) (simp_all add: Second_def)
  then show ?thesis
    by (simp add: nextAcceptBackoff_def Let_def)
       (simp add: backoff_after_def min_def Second_def Millisecond_def split: if_splits)
qed

lemma backoff_bounds: "5 * Millisecond \<le> backoff_after n" "backoff_after n \<le> Second"
  using one_le_power [of "2 :: int" n]
  by (auto simp: backoff_after_def Millisecond_def Second_def min_def)

text \<open>
  What the accept loop should do with the results before its end: a goroutine for every
  connection, and a sleep for every error whose length only depends on how many errors came since
  the last connection.
\<close>

fun expected_actions :: "nat \<Rightarrow> 'c accept_result list \<Rightarrow> 'c server_action list" where
  "expected_actions n [] = []"
| "expected_actions n (AcceptErr e # rs) =
     LogRetry e # Sleep (backoff_after n) # expected_actions (Suc n) rs"
| "expected_actions n (Accepted c # rs) = Spawn c # expected_actions 0 rs"

fun survivable :: "'c accept_result \<Rightarrow> bool" where
  "survivable (Accepted c) = True"
| "survivable (AcceptErr e) \<longleftrightarrow> \<not> errors_is e ErrClosed \<and> isRetryableAcceptError (Some e)"

fun stop_result :: "go_err \<Rightarrow> (server_err, unit) outcome" where
  "stop_result e = (if errors_is e ErrClosed then Ok () else Fail (AcceptFailed e))"

lemma accept_from_expected:
  assumes "\<forall>x\<in>set rs. survivable x" and "\<not> survivable (AcceptErr e)"
  shows "accept_from (backoff_after n) (rs @ AcceptErr e # rest) = (stop_result e, expected_actions n rs)"
  using assms(1)
proof (induction rs arbitrary: n)
  case Nil
  then show ?case using assms(2) by auto
next
  case (Cons x rs)
  then show ?case by (cases x) (simp_all add: next_backoff flip: backoff_after_0)
qed

lemma expected_spawns:
  "[c. Spawn c \<leftarrow> expected_actions n rs] = [c. Accepted c \<leftarrow> rs]"
  by (induction n rs rule: expected_actions.induct) simp_all

lemma expected_sleeps:
  "Sleep d \<in> set (expected_actions n rs) \<Longrightarrow> 5 * Millisecond \<le> d \<and> d \<le> Second"
  by (induction n rs rule: expected_actions.induct) (auto simp: backoff_bounds)

section \<open>Properties\<close>

text \<open>
  C34: the accept loop survives every retryable error and ends only with the listener: whatever
  results precede the one that stops it, exactly the accepted connections are served, in order,
  the sleeps double from 5 ms to at most one second and restart after a connection, and a closed
  listener is a clean end.
\<close>

theorem accept_loop_actions:
  assumes "\<forall>x\<in>set rs. survivable x" and "\<not> survivable (AcceptErr e)"
  shows "acceptLoop (rs @ AcceptErr e # rest) = (stop_result e, expected_actions 0 rs) \<and>
    [c. Spawn c \<leftarrow> expected_actions 0 rs] = [c. Accepted c \<leftarrow> rs] \<and>
    (\<forall>d. Sleep d \<in> set (expected_actions 0 rs) \<longrightarrow> 5 * Millisecond \<le> d \<and> d \<le> Second)"
  using accept_from_expected [OF assms, of 0] expected_spawns [of 0 rs] expected_sleeps [of _ 0 rs]
  by (simp add: acceptLoop_def backoff_after_0)

theorem accept_loop_actions_witness:
  "acceptLoop [AcceptErr (Errno EMFILE), AcceptErr (NetErr True (ErrText ''timeout'')), Accepted ''c'',
       AcceptErr (Wrapped ''accept'' (Errno EINTR)), AcceptErr (NetErr False ErrClosed)] =
     (Ok (), [LogRetry (Errno EMFILE), Sleep 5000000,
              LogRetry (NetErr True (ErrText ''timeout'')), Sleep 10000000, Spawn ''c'',
              LogRetry (Wrapped ''accept'' (Errno EINTR)), Sleep 5000000])"
  using accept_loop_actions [of "[AcceptErr (Errno EMFILE), AcceptErr (NetErr True (ErrText ''timeout'')),
       Accepted ''c'', AcceptErr (Wrapped ''accept'' (Errno EINTR))]" "NetErr False ErrClosed" "[]"]
  by (simp add: isRetryableAcceptError_def backoff_after_def Millisecond_def Second_def)

text \<open>
  A connection that ends is closed, once and last, after its watcher is stopped, however
  \<open>handleConn\<close> ended; its error is logged exactly when it is not benign, and no error escapes the
  goroutine.
\<close>

theorem serve_conn_closes:
  assumes "serveConn gz ctx cancellable router so w = (r, evs, w')"
    and "handleConn gz ctx router (idleTimeout so) (writeTimeout so) w = (h, st, w'')"
  shows "w' = w'' \<and>
    (if h = Hang then r = Hang \<and> CloseConn \<notin> set evs
     else count_list evs CloseConn = 1 \<and> last evs = CloseConn \<and>
       count_list evs StartWatcher = count_list evs StopWatcher) \<and>
    (\<forall>e. LogConnErr e \<in> set evs \<longleftrightarrow> h = Fail e \<and> \<not> isBenignConnError (Some e)) \<and>
    (\<forall>e. r \<noteq> Fail e)"
  using assms by (cases h) (auto simp: serveConn_def Let_def split: if_splits)

theorem serve_conn_closes_witness:
  "\<exists>r evs w'. serveConn stored_gzip () True None defaultServeOptions (demo_world [] [] ()) = (r, evs, w') \<and>
     count_list evs CloseConn = 1 \<and> last evs = CloseConn"
proof -
  let ?w = "demo_world [] [] () :: unit world"
  obtain r evs w' where s: "serveConn stored_gzip () True None defaultServeOptions ?w = (r, evs, w')"
    by (metis surj_pair)
  have h: "handleConn stored_gzip () None (idleTimeout defaultServeOptions) (writeTimeout defaultServeOptions) ?w =
      (Fail NilRouter, None, ?w)"
    by (simp add: handleConn_def)
  from serve_conn_closes [OF s h] s show ?thesis by auto
qed

end
