(* ===== verification/ServerConfig.thy ===== *)
theory ServerConfig
  imports GoFlag Server
begin

text \<open>
  \<open>cmd/server/config.go\<close>: where the gateway's address and timeouts come from.  Values are looked up
  in a YAML file (two spellings per value), in the environment and on the command line; the later
  ones win, and the source of each value is reported.  The operating system, the YAML parser, the
  \<open>.env\<close> loader and \<open>time.ParseDuration\<close> are the fields of \<open>host\<close>; the environment \<open>lookup_env\<close> is
  the one after \<open>.env\<close> was loaded.
\<close>

section \<open>YAML values\<close>

text \<open>
  Keys of a \<open>map[interface{}]interface{}\<close> are strings or something else; every other value that is
  not a string or a map is \<open>YOther\<close>.
\<close>

datatype yaml_key = KeyString string | KeyOther string

datatype yaml =
    YString string
  | YAnyMap "(yaml_key \<times> yaml) list"
  | YStringMap "(string \<times> yaml) list"
  | YOther string

type_synonym yamlConfig = "(yaml_key \<times> yaml) list"

datatype config_error =
    MustBeString string
  | ValueEmpty string
  | InvalidDuration string go_err
  | OpenErr go_err
  | ReadErr go_err
  | ParseErr string go_err
  | EnvEmpty string
  | EnvDuration string go_err
  | FlagExit flag_error

text \<open>A Go triple \<open>(value, ok, err)\<close>.\<close>

type_synonym 'a got = "'a \<times> bool \<times> config_error option"

record host =
  os_open :: "string \<Rightarrow> go_err + (go_err + bytes)"
  filepath_abs :: "string \<Rightarrow> go_err + string"
  lookup_env :: "string \<Rightarrow> string option"
  dotenv_load :: "string \<Rightarrow> go_err option"
  yaml_unmarshal :: "bytes \<Rightarrow> go_err + yamlConfig"
  parse_duration :: "string \<Rightarrow> go_err + int"

definition ErrNotExist :: go_err where "ErrNotExist = ErrText ''file does not exist''"

fun yaml_walk :: "string list \<Rightarrow> yaml \<Rightarrow> yaml option" where
  "yaml_walk [] cur = Some cur"
| "yaml_walk (p # ps) (YAnyMap m) =
     (case map_of m (KeyString p) of None \<Rightarrow> None | Some v \<Rightarrow> yaml_walk ps v)"
| "yaml_walk (p # ps) (YStringMap m) =
     (case map_of m p of None \<Rightarrow> None | Some v \<Rightarrow> yaml_walk ps v)"
| "yaml_walk (p # ps) cur = None"

definition yaml_get :: "yamlConfig option \<Rightarrow> string \<Rightarrow> yaml option" where
  "yaml_get yc path =
     (case yc of
        None \<Rightarrow> None
      | Some data \<Rightarrow> if path = [] then None else yaml_walk (Split (CHR ''.'') path) (YAnyMap data))"

definition getString :: "yamlConfig option \<Rightarrow> string \<Rightarrow> string got" where
  "getString yc path =
     (case yaml_get yc path of
        None \<Rightarrow> ([], False, None)
      | Some (YString s) \<Rightarrow> if s = [] then ([], True, Some (ValueEmpty path)) else (s, True, None)
      | Some _ \<Rightarrow> ([], True, Some (MustBeString path)))"

definition getDuration :: "host \<Rightarrow> yamlConfig option \<Rightarrow> string \<Rightarrow> int got" where
  "getDuration h yc path =
     (case getString yc path of
        (s, ok, err) \<Rightarrow>
          if err \<noteq> None \<or> \<not> ok then (0, ok, err)
          else
            (case parse_duration h s of
               Inl e \<Rightarrow> (0, True, Some (InvalidDuration path e))
             | Inr d \<Rightarrow> (d, True, None)))"

definition yamlStringCompat :: "yamlConfig option \<Rightarrow> string \<Rightarrow> string \<Rightarrow> string got" where
  "yamlStringCompat yc primary legacy =
     (if yc = None then ([], False, None)
      else
        (case getString yc primary of
           (v, ok, err) \<Rightarrow>
             if err \<noteq> None then ([], ok, err)
             else if ok then (v, True, None)
             else if legacy = [] then ([], False, None)
             else getString yc legacy))"

definition yamlDurationCompat :: "host \<Rightarrow> yamlConfig option \<Rightarrow> string \<Rightarrow> string \<Rightarrow> int got" where
  "yamlDurationCompat h yc primary legacy =
     (if yc = None then (0, False, None)
      else
        (case getDuration h yc primary of
           (v, ok, err) \<Rightarrow>
             if err \<noteq> None then (0, ok, err)
             else if ok then (v, True, None)
             else if legacy = [] then (0, False, None)
             else getDuration h yc legacy))"

section \<open>Values from the file and the environment\<close>

record read_values =
  v_addr :: string
  v_idleTimeout :: int
  v_writeTimeout :: int
  v_addrOK :: bool
  v_idleTimeoutOK :: bool
  v_writeTimeoutOK :: bool

text \<open>Three readings, the first error ending them, as \<open>readFileValues\<close> and \<open>readEnvValues\<close> do.\<close>

definition three_values :: "string got \<Rightarrow> int got \<Rightarrow> int got \<Rightarrow> config_error + read_values" where
  "three_values a i w =
     (case a of (a, addrOK, err) \<Rightarrow>
      if err \<noteq> None then Inl (the err)
      else (case i of (idle, idleOK, err) \<Rightarrow>
      if err \<noteq> None then Inl (the err)
      else (case w of (write, writeOK, err) \<Rightarrow>
      if err \<noteq> None then Inl (the err)
      else Inr \<lparr>v_addr = a, v_idleTimeout = idle, v_writeTimeout = write,
                v_addrOK = addrOK, v_idleTimeoutOK = idleOK, v_writeTimeoutOK = writeOK\<rparr>)))"

definition readFileValues :: "host \<Rightarrow> yamlConfig option \<Rightarrow> config_error + read_values" where
  "readFileValues h yc =
     three_values (yamlStringCompat yc ''server.addr'' ''addr'')
       (yamlDurationCompat h yc ''timeouts.idle'' ''idle_timeout'')
       (yamlDurationCompat h yc ''timeouts.write'' ''write_timeout'')"

definition getenvStringStrict :: "host \<Rightarrow> string \<Rightarrow> string got" where
  "getenvStringStrict h key =
     (case lookup_env h key of
        None \<Rightarrow> ([], False, None)
      | Some v \<Rightarrow> if v = [] then ([], True, Some (EnvEmpty key)) else (v, True, None))"

definition getenvDurationStrict :: "host \<Rightarrow> string \<Rightarrow> int got" where
  "getenvDurationStrict h key =
     (case lookup_env h key of
        None \<Rightarrow> (0, False, None)
      | Some v \<Rightarrow>
          if v = [] then (0, True, Some (EnvEmpty key))
          else (case parse_duration h v of
                  Inl e \<Rightarrow> (0, True, Some (EnvDuration key e))
                | Inr d \<Rightarrow> (d, True, None)))"

definition readEnvValues :: "host \<Rightarrow> config_error + read_values" where
  "readEnvValues h =
     three_values (getenvStringStrict h ''NOVAGATE_ADDR'')
       (getenvDurationStrict h ''NOVAGATE_IDLE_TIMEOUT'')
       (getenvDurationStrict h ''NOVAGATE_WRITE_TIMEOUT'')"

definition computeDefaults :: "read_values \<Rightarrow> read_values \<Rightarrow> string \<times> int \<times> int" where
  "computeDefaults f e =
     (let addrDefault = '':9000'';
          addrDefault = (if v_addrOK f then v_addr f else addrDefault);
          addrDefault = (if v_addrOK e then v_addr e else addrDefault);
          idleTimeoutDefault = 5 * 60 * Second;
          idleTimeoutDefault = (if v_idleTimeoutOK f then v_idleTimeout f else idleTimeoutDefault);
          idleTimeoutDefault = (if v_idleTimeoutOK e then v_idleTimeout e else idleTimeoutDefault);
          writeTimeoutDefault = 10 * Second;
          writeTimeoutDefault = (if v_writeTimeoutOK f then v_writeTimeout f else writeTimeoutDefault);
          writeTimeoutDefault = (if v_writeTimeoutOK e then v_writeTimeout e else writeTimeoutDefault)
      in (addrDefault, idleTimeoutDefault, writeTimeoutDefault))"

section \<open>The configuration file\<close>

definition readYAMLConfigFile :: "host \<Rightarrow> string \<Rightarrow> config_error + yamlConfig" where
  "readYAMLConfigFile h path =
     (case os_open h path of
        Inl e \<Rightarrow> Inl (OpenErr e)
      | Inr (Inl e) \<Rightarrow> Inl (ReadErr e)
      | Inr (Inr b) \<Rightarrow>
          (case yaml_unmarshal h b of
             Inl e \<Rightarrow> Inl (ParseErr path e)
           | Inr data \<Rightarrow> Inr data))"

text \<open>\<open>errors.Is(err, os.ErrNotExist)\<close>; the parse error wraps the parser's.\<close>

fun is_not_exist :: "config_error \<Rightarrow> bool" where
  "is_not_exist (OpenErr e) = errors_is e ErrNotExist"
| "is_not_exist (ReadErr e) = errors_is e ErrNotExist"
| "is_not_exist (ParseErr p e) = errors_is e ErrNotExist"
| "is_not_exist _ = False"

text \<open>
  \<open>parseConfigPath\<close>: a flag set that knows \<open>config\<close> only, whose errors are dropped.
\<close>

definition parseConfigPath :: "string list \<Rightarrow> string \<Rightarrow> string \<times> bool" where
  "parseConfigPath args defaultValue =
     (case parse_flags [''config'' \<mapsto> (\<lambda>_. True)] args of
        (xs, _) \<Rightarrow>
          (case flag_value xs ''config'' of
             None \<Rightarrow> (defaultValue, False)
           | Some v \<Rightarrow> (v, True)))"

record resolvedYAML =
  r_yc :: "yamlConfig option"
  r_path :: string
  r_loaded :: bool

definition resolveYAML :: "host \<Rightarrow> string list \<Rightarrow> config_error + resolvedYAML" where
  "resolveYAML h args =
     (let defaultConfigPath = ''novagate.yaml'';
          (configPath, configExplicit) = parseConfigPath args defaultConfigPath;
          configPath = (if configPath = [] then defaultConfigPath else configPath);
          configPath = (case filepath_abs h configPath of Inr p \<Rightarrow> p | Inl _ \<Rightarrow> configPath) in
      case readYAMLConfigFile h configPath of
        Inr yc \<Rightarrow> Inr \<lparr>r_yc = Some yc, r_path = configPath, r_loaded = True\<rparr>
      | Inl e \<Rightarrow>
          if is_not_exist e then
            if configExplicit then Inl e
            else Inr \<lparr>r_yc = None, r_path = configPath, r_loaded = False\<rparr>
          else Inl e)"

definition loadDotenv :: "host \<Rightarrow> string \<Rightarrow> string \<times> bool" where
  "loadDotenv h path =
     (if path = [] then ([], False)
      else (case dotenv_load h path of Some e \<Rightarrow> (path, False) | None \<Rightarrow> (path, True)))"

section \<open>Loading\<close>

datatype configSource = SourceDefault | SourceFile | SourceEnv | SourceFlag

definition pickSource :: "bool \<Rightarrow> bool \<Rightarrow> bool \<Rightarrow> configSource" where
  "pickSource flagSet envOK fileOK =
     (if flagSet then SourceFlag
      else if envOK then SourceEnv
      else if fileOK then SourceFile
      else SourceDefault)"

record serverConfig =
  c_addr :: string
  c_idleTimeout :: int
  c_writeTimeout :: int
  addrSource :: configSource
  idleTimeoutSource :: configSource
  writeTimeoutSource :: configSource
  dotenvPath :: string
  dotenvLoaded :: bool
  configPath :: string
  configLoaded :: bool

definition is_duration :: "host \<Rightarrow> string \<Rightarrow> bool" where
  "is_duration h s = (case parse_duration h s of Inl _ \<Rightarrow> False | Inr _ \<Rightarrow> True)"

definition server_flags :: "host \<Rightarrow> flag_set" where
  "server_flags h = [''config'' \<mapsto> (\<lambda>_. True), ''addr'' \<mapsto> (\<lambda>_. True),
     ''idle-timeout'' \<mapsto> is_duration h, ''write-timeout'' \<mapsto> is_duration h]"

definition visitedFlags :: "(string \<times> string) list \<Rightarrow> string set" where
  "visitedFlags xs = set (map fst xs)"

definition isFlagSet :: "string \<Rightarrow> string set \<Rightarrow> bool" where
  "isFlagSet name visited = (name \<in> visited)"

lemma isFlagSet_value: "isFlagSet name (visitedFlags xs) \<longleftrightarrow> flag_value xs name \<noteq> None"
  by (auto simp: isFlagSet_def visitedFlags_def flag_value_def map_of_eq_None_iff image_iff)

definition string_flag :: "(string \<times> string) list \<Rightarrow> string \<Rightarrow> string \<Rightarrow> string" where
  "string_flag xs name def = (case flag_value xs name of None \<Rightarrow> def | Some v \<Rightarrow> v)"

definition duration_flag :: "host \<Rightarrow> (string \<times> string) list \<Rightarrow> string \<Rightarrow> int \<Rightarrow> int" where
  "duration_flag h xs name def =
     (case flag_value xs name of
        None \<Rightarrow> def
      | Some v \<Rightarrow> (case parse_duration h v of Inl _ \<Rightarrow> def | Inr d \<Rightarrow> d))"

text \<open>With \<open>flag.ExitOnError\<close> a bad command line ends the process: \<open>FlagExit\<close>.\<close>

definition loadConfig :: "host \<Rightarrow> string list \<Rightarrow> config_error + serverConfig" where
  "loadConfig h args =
     (case resolveYAML h args of
        Inl e \<Rightarrow> Inl e
      | Inr resolved \<Rightarrow>
          let (dotPath, dotLoaded) = loadDotenv h ''.env'' in
          case readFileValues h (r_yc resolved) of
            Inl e \<Rightarrow> Inl e
          | Inr fileVals \<Rightarrow>
              (case readEnvValues h of
                 Inl e \<Rightarrow> Inl e
               | Inr envVals \<Rightarrow>
                   let (addrDefault, idleTimeoutDefault, writeTimeoutDefault) = computeDefaults fileVals envVals in
                   case parse_flags (server_flags h) args of
                     (_, Some e) \<Rightarrow> Inl (FlagExit e)
                   | (xs, None) \<Rightarrow>
                       let finalConfigPath = string_flag xs ''config'' (r_path resolved);
                           finalConfigPath =
                             (case filepath_abs h finalConfigPath of Inr p \<Rightarrow> p | Inl _ \<Rightarrow> finalConfigPath)
                       in Inr \<lparr>c_addr = string_flag xs ''addr'' addrDefault,
                               c_idleTimeout = duration_flag h xs ''idle-timeout'' idleTimeoutDefault,
                               c_writeTimeout = duration_flag h xs ''write-timeout'' writeTimeoutDefault,
                               addrSource = pickSource (isFlagSet ''addr'' (visitedFlags xs)) (v_addrOK envVals) (v_addrOK fileVals),
                               idleTimeoutSource = pickSource (isFlagSet ''idle-timeout'' (visitedFlags xs))
                                 (v_idleTimeoutOK envVals) (v_idleTimeoutOK fileVals),
                               writeTimeoutSource = pickSource (isFlagSet ''write-timeout'' (visitedFlags xs))
                                 (v_writeTimeoutOK envVals) (v_writeTimeoutOK fileVals),
                               dotenvPath = dotPath, dotenvLoaded = dotLoaded,
                               configPath = finalConfigPath, configLoaded = r_loaded resolved\<rparr>))"

definition config_serveOptions :: "serverConfig \<Rightarrow> serve_option option list" where
  "config_serveOptions c = [Some (WithIdleTimeout (c_idleTimeout c)), Some (WithWriteTimeout (c_writeTimeout c))]"

section \<open>Specification: the last source that speaks wins\<close>

text \<open>
  A setting is looked for in four places; each either says nothing or gives a value.  \<open>chosen\<close> is the
  value of the strongest place that speaks, with the name of that place.
\<close>

fun chosen :: "'a option \<Rightarrow> 'a option \<Rightarrow> 'a option \<Rightarrow> 'a \<Rightarrow> 'a \<times> configSource" where
  "chosen (Some v) e f d = (v, SourceFlag)"
| "chosen None (Some v) f d = (v, SourceEnv)"
| "chosen None None (Some v) d = (v, SourceFile)"
| "chosen None None None d = (d, SourceDefault)"

definition duration_of :: "host \<Rightarrow> string \<Rightarrow> int" where
  "duration_of h s = (case parse_duration h s of Inl _ \<Rightarrow> 0 | Inr d \<Rightarrow> d)"

fun yaml_string :: "yaml option \<Rightarrow> string option" where
  "yaml_string (Some (YString s)) = Some s"
| "yaml_string _ = None"

text \<open>The value of a setting in the file: its path, or else its old name.\<close>

definition file_setting :: "yamlConfig option \<Rightarrow> string \<Rightarrow> string \<Rightarrow> string option" where
  "file_setting yc primary legacy =
     (case yaml_get yc primary of None \<Rightarrow> yaml_string (yaml_get yc legacy) | Some v \<Rightarrow> yaml_string (Some v))"

lemma getString_ok:
  assumes "getString yc p = (s, ok, None)"
  shows "yaml_get yc p = (if ok then Some (YString s) else None)"
  using assms by (auto simp: getString_def split: option.splits yaml.splits if_splits)

lemma getDuration_ok:
  assumes "getDuration h yc p = (d, ok, None)"
  shows "if ok then \<exists>s. yaml_get yc p = Some (YString s) \<and> parse_duration h s = Inr d else yaml_get yc p = None"
  using assms getString_ok [of yc p]
  by (auto simp: getDuration_def split: prod.splits if_splits sum.splits)

lemma yaml_get_None [simp]: "yaml_get None p = None"
  by (simp add: yaml_get_def)

lemma yaml_get_empty: "yaml_get yc [] = None"
  by (simp add: yaml_get_def split: option.split)

lemma yamlStringCompat_ok:
  assumes "yamlStringCompat yc p l = (s, ok, None)"
  shows "file_setting yc p l = (if ok then Some s else None)"
proof -
  obtain v ok1 e1 where g: "getString yc p = (v, ok1, e1)" by (metis surj_pair)
  obtain v2 ok2 e2 where g2: "getString yc l = (v2, ok2, e2)" by (metis surj_pair)
  show ?thesis
    using assms g g2 getString_ok [of yc p v ok1] getString_ok [of yc l v2 ok2]
    by (auto simp: yamlStringCompat_def file_setting_def yaml_get_empty split: if_splits)
qed

lemma yamlDurationCompat_ok:
  assumes "yamlDurationCompat h yc p l = (d, ok, None)"
  shows "map_option (duration_of h) (file_setting yc p l) = (if ok then Some d else None)"
proof -
  obtain v ok1 e1 where g: "getDuration h yc p = (v, ok1, e1)" by (metis surj_pair)
  obtain v2 ok2 e2 where g2: "getDuration h yc l = (v2, ok2, e2)" by (metis surj_pair)
  show ?thesis
    using assms g g2 getDuration_ok [of h yc p v ok1] getDuration_ok [of h yc l v2 ok2]
    by (auto simp: yamlDurationCompat_def file_setting_def duration_of_def yaml_get_empty split: if_splits)
qed

lemma getenvStringStrict_ok:
  "getenvStringStrict h k = (s, ok, None) \<Longrightarrow> lookup_env h k = (if ok then Some s else None)"
  by (auto simp: getenvStringStrict_def split: option.splits if_splits)

lemma getenvDurationStrict_ok:
  "getenvDurationStrict h k = (d, ok, None) \<Longrightarrow>
    map_option (duration_of h) (lookup_env h k) = (if ok then Some d else None)"
  by (auto simp: getenvDurationStrict_def duration_of_def split: option.splits if_splits sum.splits)

lemma three_values_ok:
  assumes "three_values a i w = Inr v"
  shows "a = (v_addr v, v_addrOK v, None) \<and> i = (v_idleTimeout v, v_idleTimeoutOK v, None) \<and>
    w = (v_writeTimeout v, v_writeTimeoutOK v, None)"
  using assms by (auto simp: three_values_def split: prod.splits if_splits)

text \<open>What the two tables of values say, as settings.\<close>

lemma readFileValues_ok:
  assumes "readFileValues h yc = Inr f"
  shows "file_setting yc ''server.addr'' ''addr'' = (if v_addrOK f then Some (v_addr f) else None)"
    and "map_option (duration_of h) (file_setting yc ''timeouts.idle'' ''idle_timeout'') =
      (if v_idleTimeoutOK f then Some (v_idleTimeout f) else None)"
    and "map_option (duration_of h) (file_setting yc ''timeouts.write'' ''write_timeout'') =
      (if v_writeTimeoutOK f then Some (v_writeTimeout f) else None)"
  using three_values_ok [OF assms [unfolded readFileValues_def]]
  by (blast intro: yamlStringCompat_ok yamlDurationCompat_ok)+

lemma readEnvValues_ok:
  assumes "readEnvValues h = Inr e"
  shows "lookup_env h ''NOVAGATE_ADDR'' = (if v_addrOK e then Some (v_addr e) else None)"
    and "map_option (duration_of h) (lookup_env h ''NOVAGATE_IDLE_TIMEOUT'') =
      (if v_idleTimeoutOK e then Some (v_idleTimeout e) else None)"
    and "map_option (duration_of h) (lookup_env h ''NOVAGATE_WRITE_TIMEOUT'') =
      (if v_writeTimeoutOK e then Some (v_writeTimeout e) else None)"
  using three_values_ok [OF assms [unfolded readEnvValues_def]]
  by (blast intro: getenvStringStrict_ok getenvDurationStrict_ok)+

lemma chosen_flags:
  "(string_flag xs name d, pickSource (isFlagSet name (visitedFlags xs)) eOK fOK) =
     chosen (flag_value xs name) (if eOK then Some e else None) (if fOK then Some f else None) def"
  if "d = (if eOK then e else if fOK then f else def)"
  using that by (cases "flag_value xs name") (auto simp: string_flag_def isFlagSet_value pickSource_def)

lemma chosen_durations:
  assumes "parse_flags (server_flags h) args = (xs, None)" and "name = ''idle-timeout'' \<or> name = ''write-timeout''"
    and "d = (if eOK then e else if fOK then f else def)"
  shows "(duration_flag h xs name d, pickSource (isFlagSet name (visitedFlags xs)) eOK fOK) =
     chosen (map_option (duration_of h) (flag_value xs name)) (if eOK then Some e else None)
       (if fOK then Some f else None) def"
proof (cases "flag_value xs name")
  case (Some v)
  with flag_set_valid [OF assms(1), of name v] assms(2) have "is_duration h v"
    by (auto simp: server_flags_def)
  with Some show ?thesis
    by (auto simp: duration_flag_def isFlagSet_value pickSource_def duration_of_def is_duration_def split: sum.splits)
qed (use assms(3) in \<open>auto simp: duration_flag_def isFlagSet_value pickSource_def\<close>)

text \<open>A host with a small configuration file, for concrete runs.\<close>

definition demo_host :: host where
  "demo_host =
     \<lparr>os_open = (\<lambda>p. if p = ''/novagate.yaml'' then Inr (Inr [1]) else Inl (NetErr False ErrNotExist)),
      filepath_abs = (\<lambda>p. Inr (CHR ''/'' # p)),
      lookup_env = [''NOVAGATE_IDLE_TIMEOUT'' \<mapsto> ''7s''],
      dotenv_load = (\<lambda>_. Some ErrNotExist),
      yaml_unmarshal = (\<lambda>b. if b = [1]
        then Inr [(KeyString ''server'', YStringMap [(''addr'', YString '':7000'')]),
                  (KeyString ''idle_timeout'', YString ''9s'')]
        else Inl (ErrText ''yaml'')),
      parse_duration = (\<lambda>s. if s = ''7s'' then Inr 7000000000 else if s = ''9s'' then Inr 9000000000
        else Inl (ErrText ''time: invalid duration''))\<rparr>"

lemmas config_eval = loadConfig_def resolveYAML_def parseConfigPath_def classify_arg_def flag_name_def
  set_flag_def flag_value_def readYAMLConfigFile_def loadDotenv_def readFileValues_def yamlStringCompat_def
  yamlDurationCompat_def getString_def getDuration_def yaml_get_def readEnvValues_def three_values_def
  getenvStringStrict_def getenvDurationStrict_def computeDefaults_def server_flags_def is_duration_def
  string_flag_def duration_flag_def isFlagSet_value pickSource_def demo_host_def

lemma demo_config:
  "loadConfig demo_host [''-addr'', ''a:1'', ''-config'', ''x.yaml''] =
    Inr \<lparr>c_addr = ''a:1'', c_idleTimeout = 7000000000, c_writeTimeout = 10 * Second,
      addrSource = SourceFlag, idleTimeoutSource = SourceEnv, writeTimeoutSource = SourceDefault,
      dotenvPath = ''.env'', dotenvLoaded = False, configPath = ''/x.yaml'', configLoaded = True\<rparr>"
  by (simp add: config_eval)

section \<open>Properties\<close>

text \<open>
  C37: configuration precedence: in every configuration that loads, the address and both timeouts are
  the value of the strongest place that speaks (flag, environment, file by path, file by its old
  name, default), and the reported source is that place.
\<close>

theorem config_precedence:
  assumes "loadConfig h args = Inr c"
  shows "\<exists>r xs. resolveYAML h args = Inr r \<and> parse_flags (server_flags h) args = (xs, None) \<and>
    (c_addr c, addrSource c) =
      chosen (flag_value xs ''addr'') (lookup_env h ''NOVAGATE_ADDR'')
        (file_setting (r_yc r) ''server.addr'' ''addr'') '':9000'' \<and>
    (c_idleTimeout c, idleTimeoutSource c) =
      chosen (map_option (duration_of h) (flag_value xs ''idle-timeout''))
        (map_option (duration_of h) (lookup_env h ''NOVAGATE_IDLE_TIMEOUT''))
        (map_option (duration_of h) (file_setting (r_yc r) ''timeouts.idle'' ''idle_timeout''))
        (5 * 60 * Second) \<and>
    (c_writeTimeout c, writeTimeoutSource c) =
      chosen (map_option (duration_of h) (flag_value xs ''write-timeout''))
        (map_option (duration_of h) (lookup_env h ''NOVAGATE_WRITE_TIMEOUT''))
        (map_option (duration_of h) (file_setting (r_yc r) ''timeouts.write'' ''write_timeout''))
        (10 * Second)"
proof -
  from assms obtain r f e xs where l: "resolveYAML h args = Inr r" "readFileValues h (r_yc r) = Inr f"
    "readEnvValues h = Inr e" "parse_flags (server_flags h) args = (xs, None)"
    by (auto simp: loadConfig_def Let_def split: sum.splits prod.splits option.splits)
  obtain a i w where d: "computeDefaults f e = (a, i, w)" by (metis surj_pair)
  have def_a: "a = (if v_addrOK e then v_addr e else if v_addrOK f then v_addr f else '':9000'')"
    and def_i: "i = (if v_idleTimeoutOK e then v_idleTimeout e else if v_idleTimeoutOK f then v_idleTimeout f
      else 5 * 60 * Second)"
    and def_w: "w = (if v_writeTimeoutOK e then v_writeTimeout e else if v_writeTimeoutOK f then v_writeTimeout f
      else 10 * Second)"
    using d unfolding computeDefaults_def Let_def by simp_all
  have c: "c_addr c = string_flag xs ''addr'' a"
    "addrSource c = pickSource (isFlagSet ''addr'' (visitedFlags xs)) (v_addrOK e) (v_addrOK f)"
    "c_idleTimeout c = duration_flag h xs ''idle-timeout'' i"
    "idleTimeoutSource c = pickSource (isFlagSet ''idle-timeout'' (visitedFlags xs)) (v_idleTimeoutOK e) (v_idleTimeoutOK f)"
    "c_writeTimeout c = duration_flag h xs ''write-timeout'' w"
    "writeTimeoutSource c = pickSource (isFlagSet ''write-timeout'' (visitedFlags xs)) (v_writeTimeoutOK e) (v_writeTimeoutOK f)"
    using assms l d by (auto simp: loadConfig_def Let_def split: prod.splits)
  note settings = readEnvValues_ok [OF l(3)] readFileValues_ok [OF l(2)]
  show ?thesis
    by (rule exI [of _ r], rule exI [of _ xs], unfold c settings,
        intro conjI l(1,4) chosen_flags [OF def_a] chosen_durations [OF l(4) disjI1 [OF refl] def_i]
          chosen_durations [OF l(4) disjI2 [OF refl] def_w])
qed

theorem config_precedence_witness:
  "\<exists>r xs. resolveYAML demo_host [''-addr'', ''a:1'', ''-config'', ''x.yaml''] = Inr r \<and>
    parse_flags (server_flags demo_host) [''-addr'', ''a:1'', ''-config'', ''x.yaml''] = (xs, None) \<and>
    (''a:1'', SourceFlag) =
      chosen (flag_value xs ''addr'') (lookup_env demo_host ''NOVAGATE_ADDR'')
        (file_setting (r_yc r) ''server.addr'' ''addr'') '':9000''"
  using config_precedence [OF demo_config] by auto

text \<open>
  A \<open>-config\<close> that does not come first is not loaded: after another flag the file named on the
  command line is never opened (whatever it holds, or if it is missing, the result is the same), yet
  it is the configuration path that is reported.
\<close>

theorem later_config_ignored:
  assumes "loadConfig h [''-addr'', a, ''-config'', p] = Inr c"
    and "filepath_abs h ''novagate.yaml'' = Inr d" and "filepath_abs h p = Inr q"
    and "op d = os_open h d"
  shows "loadConfig (h\<lparr>os_open := op\<rparr>) [''-addr'', a, ''-config'', p] = Inr c \<and> configPath c = q"
proof -
  let ?args = "[''-addr'', a, ''-config'', p]"
  have path: "parseConfigPath ?args ''novagate.yaml'' = (''novagate.yaml'', False)"
    by (simp add: parseConfigPath_def classify_arg_def flag_name_def set_flag_def flag_value_def)
  have flags: "parse_flags (server_flags h) ?args = ([(''addr'', a), (''config'', p)], None)"
    by (simp add: server_flags_def classify_arg_def flag_name_def set_flag_def)
  let ?h = "h\<lparr>os_open := op\<rparr>"
  have same: "resolveYAML ?h ?args = resolveYAML h ?args"
    using assms(2,4) by (auto simp: resolveYAML_def path readYAMLConfigFile_def split: sum.split)
  have h: "parse_duration ?h = parse_duration h" "lookup_env ?h = lookup_env h"
    "dotenv_load ?h = dotenv_load h" "filepath_abs ?h = filepath_abs h" by simp_all
  have "loadConfig ?h ?args = loadConfig h ?args"
    unfolding loadConfig_def same readFileValues_def yamlDurationCompat_def getDuration_def readEnvValues_def
      getenvStringStrict_def getenvDurationStrict_def server_flags_def is_duration_def [abs_def]
      loadDotenv_def duration_flag_def h by (rule refl)
  then have "loadConfig ?h ?args = Inr c" using assms(1) by simp
  moreover have "configPath c = q"
    using assms(1,3) flags
    by (auto simp: loadConfig_def string_flag_def flag_value_def Let_def split: sum.splits prod.splits)
  ultimately show ?thesis by blast
qed

theorem later_config_ignored_witness:
  "configPath \<lparr>c_addr = ''a:1'', c_idleTimeout = 7000000000, c_writeTimeout = 10 * Second,
      addrSource = SourceFlag, idleTimeoutSource = SourceEnv, writeTimeoutSource = SourceDefault,
      dotenvPath = ''.env'', dotenvLoaded = False, configPath = ''/x.yaml'', configLoaded = True\<rparr> = ''/x.yaml'' \<and>
   (\<exists>c. loadConfig (demo_host\<lparr>os_open := (\<lambda>p. if p = ''/x.yaml'' then Inr (Inl (ErrText ''disk''))
      else os_open demo_host p)\<rparr>) [''-addr'', ''a:1'', ''-config'', ''x.yaml''] = Inr c)"
  using later_config_ignored [OF demo_config, of "''/novagate.yaml''" "''/x.yaml''"
    "\<lambda>p. if p = ''/x.yaml'' then Inr (Inl (ErrText ''disk'')) else os_open demo_host p"]
  by (auto simp: demo_host_def)

end
