(* ===== verification/Gateway.thy ===== *)
theory Gateway
  imports ServerConfig Session
begin

text \<open>
  \<open>cmd/server/main.go\<close>: the gateway process, from the configuration to the served connections.  The
  configuration comes from \<open>ServerConfig\<close>, the listener and the accept loop from \<open>Server\<close>, and \<open>setup\<close>
  from \<open>Router\<close>, here as the function \<open>ListenAndServeWithOptions\<close> is given; the process-wide state it
  changes is the method table and the dispatcher's table.  Log output and the test for a \<open>.test\<close>
  binary are left out.
\<close>

definition gateway_setup ::
  "('ctx, ('ctx, 's) dispatch_table \<times> 's, mapper \<times> ('ctx, 's) dispatch_table) setup_func" where
  "gateway_setup r g =
     (case server_setup \<lparr>su_mapper = fst g, su_table = snd g, su_router = r\<rparr> of
        (Ok _, g') \<Rightarrow> (Ok (su_router g'), (su_mapper g', su_table g'))
      | (Fail e, g') \<Rightarrow> (Panic ''setup'', (su_mapper g', su_table g'))
      | (Panic p, g') \<Rightarrow> (Panic p, (su_mapper g', su_table g'))
      | (Hang, g') \<Rightarrow> (Hang, (su_mapper g', su_table g')))"

text \<open>\<open>setup\<close> itself returns no error; the branch for one is never taken.\<close>

lemma setup_no_fail: "fst (server_setup g) \<noteq> Fail e"
proof -
  have reg: "fst (on_mapper (RegisterFullMethodCommand m c) g) \<noteq> Fail e" for m c g
    by (simp add: on_mapper_def RegisterFullMethodCommand_def Let_def split: prod.split sum.split option.split)
  have strict: "fst (on_mapper (SetStrictCommandMapping b) g) \<noteq> Fail e" for b g
    by (simp add: on_mapper_def SetStrictCommandMapping_def split: prod.split)
  have seq: "fst (and_then m k) \<noteq> Fail e" if "fst m \<noteq> Fail e" "\<And>x s. fst (k x s) \<noteq> Fail e"
    for m :: "(mapper_error, unit) outcome \<times> ('a, 'b) setup_state" and k
    using that by (cases "(m, k)" rule: and_then.cases) auto
  show ?thesis unfolding server_setup_def
    by (intro seq reg strict) (simp add: Let_def)
qed

definition server_main ::
  "host \<Rightarrow> (string \<Rightarrow> go_err + 'c accept_result list) \<Rightarrow> string list \<Rightarrow>
   mapper \<times> ('ctx, 's) dispatch_table \<Rightarrow>
   config_error + (server_err, unit) outcome \<times> (('ctx, ('ctx, 's) dispatch_table \<times> 's) router \<times> serve_options) option \<times>
     'c server_action list \<times> mapper \<times> ('ctx, 's) dispatch_table" where
  "server_main h listen args g =
     (case loadConfig h args of
        Inl e \<Rightarrow> Inl e
      | Inr cfg \<Rightarrow> Inr (listenAndServeWithOptions listen (c_addr cfg) (Some gateway_setup) (config_serveOptions cfg) g))"

section \<open>Properties\<close>

text \<open>
  C32: the gateway process.  When its configuration loads and its address can be listened on, the
  process accepts connections exactly as the accept loop does, closes the listener when the loop
  ends, and serves every connection with the configured timeouts and with a router that answers every
  message as the command table of the protocol says.
\<close>

theorem gateway_process:
  assumes "loadConfig h args = Inr cfg" and "wired mp"
    and "listen (if c_addr cfg = [] then '':9000'' else c_addr cfg) = Inr rs"
  shows "\<exists>router so g'. server_main h listen args (mp, tab) =
      Inr (fst (acceptLoop rs), Some (router, so),
           snd (acceptLoop rs) @ (if fst (acceptLoop rs) = Hang then [] else [CloseListener]), g') \<and>
    idleTimeout so = c_idleTimeout cfg \<and> writeTimeout so = c_writeTimeout cfg \<and>
    (\<forall>ctx m s. Dispatch ctx m router (snd g', s) = (gateway_answer m, (snd g', s)))"
proof -
  let ?g = "\<lparr>su_mapper = mp, su_table = tab, su_router = NewRouter\<rparr>"
  have run: "gateway_setup NewRouter (mp, tab) =
      (Ok (su_router (wire ?g)), (su_mapper (wire ?g), su_table (wire ?g)))"
    using assms(2) server_setup_wire [of ?g] by (simp add: gateway_setup_def)
  have a: "normalizeAddr (c_addr cfg) (config_serveOptions cfg) = (if c_addr cfg = [] then '':9000'' else c_addr cfg)"
    by (simp add: normalizeAddr_def applyServeOptions_def config_serveOptions_def WithIdleTimeout_def
        WithWriteTimeout_def defaultServeOptions_def Let_def)
  obtain r acts where l: "acceptLoop rs = (r, acts)" by fastforce
  let ?so = "applyServeOptions (config_serveOptions cfg)"
  have "server_main h listen args (mp, tab) = Inr (r, Some (su_router (wire ?g), ?so),
      acts @ (if r = Hang then [] else [CloseListener]), (su_mapper (wire ?g), su_table (wire ?g)))"
    using assms(1,3) a run l
    by (simp add: server_main_def listenAndServeWithOptions_def listenAndServeWithContext_def
        serveWithContext_def Let_def)
  moreover have "idleTimeout ?so = c_idleTimeout cfg \<and> writeTimeout ?so = c_writeTimeout cfg"
    by (simp add: applyServeOptions_def config_serveOptions_def WithIdleTimeout_def WithWriteTimeout_def)
  moreover have "Dispatch ctx m (su_router (wire ?g)) (su_table (wire ?g), s) =
      (gateway_answer m, (su_table (wire ?g), s))" for ctx m s
    by (rule gateway_dispatch) simp
  ultimately show ?thesis using l by (intro exI conjI allI) auto
qed

theorem gateway_process_witness:
  "\<exists>router so g'. server_main demo_host (\<lambda>a. if a = ''a:1'' then Inr [Accepted (), AcceptErr ErrClosed] else Inl EOF)
      [''-addr'', ''a:1'', ''-config'', ''x.yaml''] (init_mapper, Map.empty :: (unit, unit) dispatch_table) =
      Inr (Ok (), Some (router, so), [Spawn (), CloseListener], g') \<and>
    idleTimeout so = 7000000000 \<and> writeTimeout so = 10 * Second \<and>
    (\<forall>ctx m s. Dispatch ctx m router (snd g', s) = (gateway_answer m, (snd g', s)))"
proof -
  let ?listen = "\<lambda>a. if a = ''a:1'' then Inr [Accepted (), AcceptErr ErrClosed] else Inl EOF"
  have l: "acceptLoop [Accepted (), AcceptErr ErrClosed] = (Ok (), [Spawn ()])"
    by (simp add: acceptLoop_def)
  show ?thesis
    using gateway_process [OF demo_config wired_init, of ?listen "[Accepted (), AcceptErr ErrClosed]" "Map.empty :: (unit, unit) dispatch_table"]
    by (simp add: l)
qed

end
