(* ===== verification/Lifecycle.thy ===== *)
theory Lifecycle
  imports Server
begin

text \<open>
  The goroutines of \<open>main.go\<close> and how they end: the accept loop, the watcher of the listener
  (\<open>closeOnDone\<close>), and for each connection its server (\<open>serveConn\<close>) and its watcher
  (\<open>closeConnOnDone\<close>).  They run in any interleaving; a step of \<open>goroutine_step\<close> is one statement of
  one goroutine, a step of \<open>env_step\<close> is what the process does not decide: the cancellation, the results
  of \<open>listener.Accept\<close>, and what the peers do to a pending \<open>conn.Read\<close> or \<open>conn.Write\<close>.  Inside
  \<open>handleConn\<close> a connection is either at its own code, which goes on to the next \<open>Read\<close> or \<open>Write\<close> or
  ends with an error, or it is blocked in one of them: there only the peer, the idle timeout or the
  closing of the connection lets it go on.  Handlers are assumed to return, and a panic, which ends the
  process, is left out.
\<close>

section \<open>Connections\<close>

datatype watcher_state = NoWatcher | Watching | WatcherEnded

text \<open>
  Where \<open>serveConn\<close> is: before \<open>closeConnOnDone\<close>, in the code of \<open>handleConn\<close>, blocked in its \<open>conn.Read\<close>
  or \<open>conn.Write\<close>, before the deferred \<open>stop()\<close>, before the deferred \<open>c.Close()\<close>, or at its end.
\<close>

datatype serve_pc = Started | Working | Blocked | Returned | Closing | ServeEnded

text \<open>
  \<open>stop\<close> is the channel of \<open>closeConnOnDone\<close>: \<open>None\<close> when there is none, else how often it has been
  closed; a second \<open>close\<close> would panic.  \<open>sock_open\<close>: no goroutine has closed the connection.  \<open>events\<close>
  is what \<open>serveConn\<close> has done so far, as in \<open>Server\<close>.
\<close>

record conn_life =
  pc :: serve_pc
  stop :: "nat option"
  watcher :: watcher_state
  watcher_closes :: nat
  sock_open :: bool
  result :: "(conn_err, unit) outcome option"
  events :: "conn_event list"

definition new_conn :: conn_life where
  "new_conn = \<lparr>pc = Started, stop = None, watcher = NoWatcher, watcher_closes = 0, sock_open = True,
     result = None, events = []\<rparr>"

definition handled_log :: "(conn_err, unit) outcome \<Rightarrow> conn_event list" where
  "handled_log r = (case r of Fail e \<Rightarrow> if \<not> isBenignConnError (Some e) then [LogConnErr e] else [] | _ \<Rightarrow> [])"

definition handled :: "(conn_err, unit) outcome \<Rightarrow> conn_life \<Rightarrow> conn_life" where
  "handled r c = c\<lparr>pc := Returned, result := Some r, events := events c @ handled_log r\<rparr>"

text \<open>
  \<open>serveConn\<close>.  A \<open>Read\<close> or \<open>Write\<close> on a connection that the watcher has closed returns \<open>net.ErrClosed\<close>;
  on an open one it returns nothing by itself.
\<close>

inductive serve_step :: "bool \<Rightarrow> conn_life \<Rightarrow> conn_life \<Rightarrow> bool" for cancellable where
  watch: "pc c = Started \<Longrightarrow> cancellable \<Longrightarrow>
    serve_step cancellable c
      (c\<lparr>pc := Working, stop := Some 0, watcher := Watching, events := events c @ [StartWatcher]\<rparr>)"
| no_watch: "pc c = Started \<Longrightarrow> \<not> cancellable \<Longrightarrow> serve_step cancellable c (c\<lparr>pc := Working\<rparr>)"
| block: "pc c = Working \<Longrightarrow> serve_step cancellable c (c\<lparr>pc := Blocked\<rparr>)"
| fail: "pc c = Working \<Longrightarrow> serve_step cancellable c (handled (Fail e) c)"
| closed: "pc c = Blocked \<Longrightarrow> \<not> sock_open c \<Longrightarrow> errors_is e ErrClosed \<Longrightarrow>
    serve_step cancellable c (handled (Fail (NetworkErr e)) c)"
| stop: "pc c = Returned \<Longrightarrow> stop c = Some n \<Longrightarrow>
    serve_step cancellable c
      (c\<lparr>pc := Closing, stop := Some (Suc n), events := events c @ [StopWatcher]\<rparr>)"
| no_stop: "pc c = Returned \<Longrightarrow> stop c = None \<Longrightarrow> serve_step cancellable c (c\<lparr>pc := Closing\<rparr>)"
| close: "pc c = Closing \<Longrightarrow>
    serve_step cancellable c (c\<lparr>pc := ServeEnded, sock_open := False, events := events c @ [CloseConn]\<rparr>)"

text \<open>The goroutine of \<open>closeConnOnDone\<close>.\<close>

inductive watcher_step :: "bool \<Rightarrow> conn_life \<Rightarrow> conn_life \<Rightarrow> bool" for cancelled where
  watch_done: "watcher c = Watching \<Longrightarrow> cancelled \<Longrightarrow>
    watcher_step cancelled c
      (c\<lparr>watcher := WatcherEnded, watcher_closes := Suc (watcher_closes c), sock_open := False\<rparr>)"
| watch_stop: "watcher c = Watching \<Longrightarrow> stop c = Some (Suc n) \<Longrightarrow>
    watcher_step cancelled c (c\<lparr>watcher := WatcherEnded\<rparr>)"

text \<open>
  What lets a pending \<open>Read\<close> or \<open>Write\<close> on an open connection go on: bytes that arrive or are taken,
  the end of the stream or the idle timeout (\<open>handleConn\<close> returns \<open>nil\<close>), or a network error.
\<close>

inductive peer_step :: "conn_life \<Rightarrow> conn_life \<Rightarrow> bool" where
  transfer: "pc c = Blocked \<Longrightarrow> sock_open c \<Longrightarrow> peer_step c (c\<lparr>pc := Working\<rparr>)"
| finish: "pc c = Blocked \<Longrightarrow> sock_open c \<Longrightarrow> r = Ok () \<or> r = Fail (NetworkErr e) \<Longrightarrow>
    peer_step c (handled r c)"

section \<open>The server\<close>

datatype accept_pc = Accepting | Backoff | AcceptEnded "(server_err, unit) outcome"

text \<open>
  \<open>results\<close> are the results of \<open>listener.Accept\<close> so far.  \<open>own_listener\<close>: the server runs under
  \<open>ListenAndServeWithContext\<close>, whose deferred call closes the listener at the end.
\<close>

record 'c server_life =
  cancellable :: bool
  own_listener :: bool
  cancelled :: bool
  lis_open :: bool
  lis_watcher :: watcher_state
  acceptor :: accept_pc
  results :: "'c accept_result list"
  conns :: "conn_life list"

definition new_server :: "bool \<Rightarrow> bool \<Rightarrow> 'c server_life" where
  "new_server cancel own =
     \<lparr>cancellable = cancel, own_listener = own, cancelled = False, lis_open = True,
      lis_watcher = (if cancel then Watching else NoWatcher), acceptor = Accepting, results = [], conns = []\<rparr>"

datatype goroutine = AcceptLoop | ListenerWatcher | ConnServer nat | ConnWatcher nat

inductive goroutine_step :: "goroutine \<Rightarrow> 'c server_life \<Rightarrow> 'c server_life \<Rightarrow> bool" where
  close_listener: "lis_watcher s = Watching \<Longrightarrow> cancelled s \<Longrightarrow>
    goroutine_step ListenerWatcher s (s\<lparr>lis_open := False, lis_watcher := WatcherEnded\<rparr>)"
| wake: "acceptor s = Backoff \<Longrightarrow> goroutine_step AcceptLoop s (s\<lparr>acceptor := Accepting\<rparr>)"
| accept_closed: "acceptor s = Accepting \<Longrightarrow> \<not> lis_open s \<Longrightarrow> errors_is e ErrClosed \<Longrightarrow>
    goroutine_step AcceptLoop s (s\<lparr>results := results s @ [AcceptErr e], acceptor := AcceptEnded (stop_result e)\<rparr>)"
| deferred_close: "acceptor s = AcceptEnded r \<Longrightarrow> own_listener s \<Longrightarrow> lis_open s \<Longrightarrow>
    goroutine_step AcceptLoop s (s\<lparr>lis_open := False\<rparr>)"
| serve: "i < length (conns s) \<Longrightarrow> serve_step (cancellable s) (conns s ! i) c \<Longrightarrow>
    goroutine_step (ConnServer i) s (s\<lparr>conns := (conns s)[i := c]\<rparr>)"
| watch_conn: "i < length (conns s) \<Longrightarrow> watcher_step (cancelled s) (conns s ! i) c \<Longrightarrow>
    goroutine_step (ConnWatcher i) s (s\<lparr>conns := (conns s)[i := c]\<rparr>)"

inductive env_step :: "'c server_life \<Rightarrow> 'c server_life \<Rightarrow> bool" where
  cancel: "cancellable s \<Longrightarrow> \<not> cancelled s \<Longrightarrow> env_step s (s\<lparr>cancelled := True\<rparr>)"
| accept: "acceptor s = Accepting \<Longrightarrow> lis_open s \<Longrightarrow>
    env_step s (s\<lparr>results := results s @ [Accepted c], conns := conns s @ [new_conn]\<rparr>)"
| accept_retry: "acceptor s = Accepting \<Longrightarrow> lis_open s \<Longrightarrow> survivable (AcceptErr e :: 'c accept_result) \<Longrightarrow>
    env_step s (s\<lparr>results := results s @ [AcceptErr e], acceptor := Backoff\<rparr>)"
| accept_fail: "acceptor s = Accepting \<Longrightarrow> lis_open s \<Longrightarrow> \<not> survivable (AcceptErr e :: 'c accept_result) \<Longrightarrow>
    \<not> errors_is e ErrClosed \<Longrightarrow>
    env_step s (s\<lparr>results := results s @ [AcceptErr e], acceptor := AcceptEnded (stop_result e)\<rparr>)"
| peer: "i < length (conns s) \<Longrightarrow> peer_step (conns s ! i) c \<Longrightarrow> env_step s (s\<lparr>conns := (conns s)[i := c]\<rparr>)"

definition life_step :: "'c server_life \<Rightarrow> 'c server_life \<Rightarrow> bool" where
  "life_step s t \<longleftrightarrow> (\<exists>g. goroutine_step g s t) \<or> env_step s t"

inductive reachable :: "bool \<Rightarrow> bool \<Rightarrow> 'c server_life \<Rightarrow> bool" for cancel own where
  start: "reachable cancel own (new_server cancel own)"
| step: "reachable cancel own s \<Longrightarrow> life_step s t \<Longrightarrow> reachable cancel own t"

inductive_cases serve_stepE: "serve_step has_done c d"
inductive_cases watcher_stepE: "watcher_step done_now c d"
inductive_cases peer_stepE: "peer_step c d"
inductive_cases listener_stepE: "goroutine_step ListenerWatcher s t"
inductive_cases watch_connE: "goroutine_step (ConnWatcher i) s t"

lemma life_step_own: "goroutine_step g s t \<Longrightarrow> life_step s t"
  by (auto simp: life_step_def)

lemma life_step_env: "env_step s t \<Longrightarrow> life_step s t"
  by (simp add: life_step_def)

section \<open>What one goroutine keeps\<close>

text \<open>What \<open>serveConn\<close> has done when it is at a statement, its result being known.\<close>

definition events_at :: "bool \<Rightarrow> serve_pc \<Rightarrow> (conn_err, unit) outcome option \<Rightarrow> conn_event list" where
  "events_at has_done p r =
     (if p = Started \<or> \<not> has_done then [] else [StartWatcher]) @
     (case r of None \<Rightarrow> [] | Some r \<Rightarrow> handled_log r) @
     (if p \<in> {Closing, ServeEnded} \<and> has_done then [StopWatcher] else []) @
     (if p = ServeEnded then [CloseConn] else [])"

definition serve_inv :: "bool \<Rightarrow> bool \<Rightarrow> conn_life \<Rightarrow> bool" where
  "serve_inv has_done done_now c \<longleftrightarrow>
     stop c = (if pc c = Started \<or> \<not> has_done then None
               else Some (if pc c \<in> {Closing, ServeEnded} then 1 else 0)) \<and>
     (watcher c = NoWatcher \<longleftrightarrow> pc c = Started \<or> \<not> has_done) \<and>
     (if watcher_closes c = 0 then watcher c = WatcherEnded \<longrightarrow> stop c = Some 1
      else watcher_closes c = 1 \<and> watcher c = WatcherEnded \<and> done_now) \<and>
     (sock_open c \<longleftrightarrow> watcher_closes c = 0 \<and> pc c \<noteq> ServeEnded) \<and>
     (result c = None \<longleftrightarrow> pc c \<in> {Started, Working, Blocked}) \<and>
     (\<forall>r. result c = Some r \<longrightarrow> r = Ok () \<or> (\<exists>e. r = Fail e)) \<and>
     events c = events_at has_done (pc c) (result c)"

lemma serve_inv_new: "serve_inv has_done done_now new_conn"
  by (simp add: serve_inv_def new_conn_def events_at_def)

lemmas conn_stepEs = serve_stepE watcher_stepE peer_stepE

lemma conn_steps_inv:
  "serve_step has_done c d \<Longrightarrow> serve_inv has_done done_now c \<Longrightarrow> serve_inv has_done done_now d"
  "watcher_step done_now c d \<Longrightarrow> serve_inv has_done done_now c \<Longrightarrow> serve_inv has_done done_now d"
  "peer_step c d \<Longrightarrow> serve_inv has_done done_now c \<Longrightarrow> serve_inv has_done done_now d"
  by (erule conn_stepEs; auto simp: serve_inv_def events_at_def handled_def split: if_splits)+

lemma serve_inv_cancel: "serve_inv has_done False c \<Longrightarrow> serve_inv has_done True c"
  by (auto simp: serve_inv_def split: if_splits)

section \<open>What the server keeps\<close>

definition accept_ok :: "watcher_state \<Rightarrow> 'c accept_result list \<Rightarrow> accept_pc \<Rightarrow> bool" where
  "accept_ok w xs a =
     (case a of
        AcceptEnded r \<Rightarrow> (\<exists>rs e. xs = rs @ [AcceptErr e] \<and> (\<forall>x\<in>set rs. survivable x) \<and>
          \<not> survivable (AcceptErr e :: 'c accept_result) \<and> r = stop_result e \<and>
          (errors_is e ErrClosed \<longrightarrow> w = WatcherEnded))
      | _ \<Rightarrow> \<forall>x\<in>set xs. survivable x)"

lemma accept_ok_simps:
  "accept_ok w xs Accepting \<longleftrightarrow> (\<forall>x\<in>set xs. survivable x)"
  "accept_ok w xs Backoff \<longleftrightarrow> (\<forall>x\<in>set xs. survivable x)"
  by (simp_all add: accept_ok_def)

lemma accept_ok_end:
  "accept_ok w xs Accepting \<Longrightarrow> \<not> survivable (AcceptErr e :: 'c accept_result) \<Longrightarrow>
    errors_is e ErrClosed \<longrightarrow> w = WatcherEnded \<Longrightarrow>
    accept_ok w (xs @ [AcceptErr e :: 'c accept_result]) (AcceptEnded (stop_result e))"
  unfolding accept_ok_def by (auto simp del: survivable.simps)

lemma accept_ok_closed: "accept_ok w xs a \<Longrightarrow> accept_ok WatcherEnded xs a"
  unfolding accept_ok_def by (cases a; simp only: accept_pc.case) blast

definition server_inv :: "bool \<Rightarrow> bool \<Rightarrow> 'c server_life \<Rightarrow> bool" where
  "server_inv cancel own s \<longleftrightarrow>
     cancellable s = cancel \<and> own_listener s = own \<and> (cancelled s \<longrightarrow> cancel) \<and>
     (lis_watcher s = NoWatcher \<longleftrightarrow> \<not> cancel) \<and>
     (lis_watcher s = WatcherEnded \<longrightarrow> cancelled s \<and> \<not> lis_open s) \<and>
     (\<not> lis_open s \<longrightarrow> lis_watcher s = WatcherEnded \<or> own \<and> (\<exists>r. acceptor s = AcceptEnded r)) \<and>
     accept_ok (lis_watcher s) (results s) (acceptor s) \<and>
     length (conns s) = length [c. Accepted c \<leftarrow> results s] \<and>
     (\<forall>c\<in>set (conns s). serve_inv cancel (cancelled s) c)"

lemma server_inv_new: "server_inv cancel own (new_server cancel own)"
  by (simp add: server_inv_def new_server_def accept_ok_simps)

lemma accepted_append [simp]:
  "[c. Accepted c \<leftarrow> rs @ [Accepted x]] = [c. Accepted c \<leftarrow> rs] @ [x]"
  "[c. Accepted c \<leftarrow> rs @ [AcceptErr e]] = [c. Accepted c \<leftarrow> rs]"
  by simp_all

lemma conn_update_inv:
  assumes "server_inv cancel own s" and "i < length (conns s)"
    and "serve_inv cancel (cancelled s) (conns s ! i) \<Longrightarrow> serve_inv cancel (cancelled s) c"
  shows "server_inv cancel own (s\<lparr>conns := (conns s)[i := c]\<rparr>)"
proof -
  have all: "\<forall>c\<in>set (conns s). serve_inv cancel (cancelled s) c" using assms(1) by (simp add: server_inv_def)
  then have "serve_inv cancel (cancelled s) c" using assms(2,3) by simp
  then have "\<forall>d\<in>set ((conns s)[i := c]). serve_inv cancel (cancelled s) d"
    using all set_update_subset_insert [of "conns s" i c] by blast
  then show ?thesis using assms(1) by (simp add: server_inv_def)
qed

lemma goroutine_step_inv:
  assumes "goroutine_step g s t" and "server_inv cancel own s"
  shows "server_inv cancel own t"
  using assms
proof (cases rule: goroutine_step.cases)
  case close_listener
  then show ?thesis using assms(2) by (auto simp: server_inv_def intro: accept_ok_closed)
next
  case wake
  then show ?thesis using assms(2) by (auto simp: server_inv_def accept_ok_simps)
next
  case (accept_closed e)
  then have "accept_ok (lis_watcher s) (results s @ [AcceptErr e]) (AcceptEnded (stop_result e))"
    using assms(2) by (intro accept_ok_end) (auto simp: server_inv_def)
  then show ?thesis using accept_closed assms(2) by (auto simp: server_inv_def)
next
  case (deferred_close r)
  then show ?thesis using assms(2) by (auto simp: server_inv_def)
next
  case (serve i c)
  have "cancellable s = cancel" using assms(2) by (simp add: server_inv_def)
  with serve(4) have step: "serve_step cancel (conns s ! i) c" by simp
  show ?thesis unfolding serve(2)
    by (rule conn_update_inv [OF assms(2) serve(3)]) (rule conn_steps_inv(1) [OF step])
next
  case (watch_conn i c)
  show ?thesis unfolding watch_conn(2)
    by (rule conn_update_inv [OF assms(2) watch_conn(3)]) (rule conn_steps_inv(2) [OF watch_conn(4)])
qed

lemma env_step_inv:
  assumes "env_step s t" and "server_inv cancel own s"
  shows "server_inv cancel own t"
  using assms
proof (cases rule: env_step.cases)
  case cancel
  then show ?thesis using assms(2) serve_inv_cancel
    by (auto simp: server_inv_def)
next
  case (accept c)
  then show ?thesis using assms(2) serve_inv_new by (auto simp: server_inv_def accept_ok_simps)
next
  case (accept_retry e)
  then show ?thesis using assms(2)
    by (auto simp: server_inv_def accept_ok_simps simp del: survivable.simps)
next
  case (accept_fail e)
  then have "accept_ok (lis_watcher s) (results s @ [AcceptErr e]) (AcceptEnded (stop_result e))"
    using assms(2) by (intro accept_ok_end) (auto simp: server_inv_def)
  then show ?thesis using accept_fail assms(2) by (auto simp: server_inv_def)
next
  case (peer i c)
  show ?thesis unfolding peer(1)
    by (rule conn_update_inv [OF assms(2) peer(2)]) (rule conn_steps_inv(3) [OF peer(3)])
qed

lemma life_step_inv: "life_step s t \<Longrightarrow> server_inv cancel own s \<Longrightarrow> server_inv cancel own t"
  by (auto simp: life_step_def intro: goroutine_step_inv env_step_inv)

lemma reachable_inv: "reachable cancel own s \<Longrightarrow> server_inv cancel own s"
  by (induction rule: reachable.induct) (auto intro: server_inv_new life_step_inv)

section \<open>Progress\<close>

text \<open>
  A run is an infinite sequence of states in which nothing may happen for a while.  It is (weakly) fair:
  a goroutine whose next statement stays possible is run at some time.  Nothing is asked of the
  environment: peers may stay silent for ever, and may send as long as their connections are open.
\<close>

definition fair_run :: "bool \<Rightarrow> bool \<Rightarrow> (nat \<Rightarrow> 'c server_life) \<Rightarrow> bool" where
  "fair_run cancel own run \<longleftrightarrow>
     run 0 = new_server cancel own \<and>
     (\<forall>i. run (Suc i) = run i \<or> life_step (run i) (run (Suc i))) \<and>
     (\<forall>g i. (\<forall>j\<ge>i. \<exists>t. goroutine_step g (run j) t) \<longrightarrow> (\<exists>j\<ge>i. goroutine_step g (run j) (run (Suc j))))"

definition all_ended :: "'c server_life \<Rightarrow> bool" where
  "all_ended s \<longleftrightarrow> (\<exists>r. acceptor s = AcceptEnded r) \<and> lis_watcher s \<noteq> Watching \<and>
     (\<forall>c\<in>set (conns s). pc c = ServeEnded \<and> watcher c \<noteq> Watching)"

text \<open>
  Two measures: the watchers that have not ended, which nothing increases once the listener is closed,
  and the statements left, which only a peer increases.
\<close>

fun pc_work :: "serve_pc \<Rightarrow> nat" where
  "pc_work Started = 5"
| "pc_work Working = 4"
| "pc_work Blocked = 3"
| "pc_work Returned = 2"
| "pc_work Closing = 1"
| "pc_work ServeEnded = 0"

fun watch_work :: "watcher_state \<Rightarrow> nat" where
  "watch_work NoWatcher = 2"
| "watch_work Watching = 1"
| "watch_work WatcherEnded = 0"

definition serve_work :: "conn_life \<Rightarrow> nat" where
  "serve_work c = pc_work (pc c) + watch_work (watcher c)"

fun accept_work :: "accept_pc \<Rightarrow> nat" where
  "accept_work Accepting = 1"
| "accept_work Backoff = 2"
| "accept_work (AcceptEnded r) = 0"

definition watchers_work :: "'c server_life \<Rightarrow> nat" where
  "watchers_work s = sum_list (map (\<lambda>c. watch_work (watcher c)) (conns s))"

definition life_work :: "'c server_life \<Rightarrow> nat" where
  "life_work s = sum_list (map serve_work (conns s)) + accept_work (acceptor s) + watch_work (lis_watcher s)"

lemma sum_list_update_less:
  "i < length xs \<Longrightarrow> f y < f (xs ! i) \<Longrightarrow> sum_list (map f (xs[i := y])) < sum_list (map f (xs :: 'a list) :: nat list)"
  by (induction xs arbitrary: i) (auto split: nat.split)

lemma conn_steps_work:
  assumes "serve_inv has_done done_now c"
  shows "serve_step has_done c d \<Longrightarrow> serve_work d < serve_work c"
    and "watcher_step done_now c d \<Longrightarrow> serve_work d < serve_work c"
  by (erule conn_stepEs; use assms in \<open>auto simp: serve_work_def serve_inv_def handled_def\<close>)+

lemma conn_steps_watcher:
  assumes "serve_inv has_done done_now c"
  shows "serve_step has_done c d \<Longrightarrow> watcher d = watcher c \<or> watch_work (watcher d) < watch_work (watcher c)"
    and "watcher_step done_now c d \<Longrightarrow> watcher d = watcher c \<or> watch_work (watcher d) < watch_work (watcher c)"
    and "peer_step c d \<Longrightarrow> watcher d = watcher c \<or> watch_work (watcher d) < watch_work (watcher c)"
  by (erule conn_stepEs; use assms in \<open>auto simp: serve_inv_def handled_def\<close>)+

lemma server_conn_inv:
  "server_inv cancel own s \<Longrightarrow> i < length (conns s) \<Longrightarrow> serve_inv (cancellable s) (cancelled s) (conns s ! i)"
  by (simp add: server_inv_def)

lemma goroutine_step_work:
  assumes "goroutine_step g s t" and "server_inv cancel own s" and "\<not> lis_open s"
  shows "life_work t < life_work s"
  using assms
proof (cases rule: goroutine_step.cases)
  case (serve i c)
  have "serve_work c < serve_work (conns s ! i)"
    by (rule conn_steps_work(1) [OF server_conn_inv [OF assms(2) serve(3)] serve(4)])
  then show ?thesis using serve(2,3) sum_list_update_less [of i "conns s" serve_work c] by (simp add: life_work_def)
next
  case (watch_conn i c)
  have "serve_work c < serve_work (conns s ! i)"
    by (rule conn_steps_work(2) [OF server_conn_inv [OF assms(2) watch_conn(3)] watch_conn(4)])
  then show ?thesis using watch_conn(2,3) sum_list_update_less [of i "conns s" serve_work c] by (simp add: life_work_def)
qed (use assms(3) in \<open>simp_all add: life_work_def\<close>)

lemma life_step_watchers:
  assumes "life_step s t" and "server_inv cancel own s" and "\<not> lis_open s"
  shows "map watcher (conns t) = map watcher (conns s) \<or> watchers_work t < watchers_work s"
proof -
  have upd: "map watcher ((conns s)[i := c]) = map watcher (conns s) \<or>
      watchers_work (s\<lparr>conns := (conns s)[i := c]\<rparr>) < watchers_work s"
    if "i < length (conns s)" "watcher c = watcher (conns s ! i) \<or> watch_work (watcher c) < watch_work (watcher (conns s ! i))"
    for i c
    using that sum_list_update_less [of i "conns s" "\<lambda>c. watch_work (watcher c)" c]
    by (auto simp: watchers_work_def map_update)
      (metis length_map list_update_id nth_map)
  consider g where "goroutine_step g s t" | "env_step s t" using assms(1) by (auto simp: life_step_def)
  then show ?thesis
  proof cases
    case 1
    then show ?thesis
    proof (cases rule: goroutine_step.cases)
      case (serve i c)
      show ?thesis unfolding serve(2)
        using upd [OF serve(3) conn_steps_watcher(1) [OF server_conn_inv [OF assms(2) serve(3)] serve(4)]] by simp
    next
      case (watch_conn i c)
      show ?thesis unfolding watch_conn(2)
        using upd [OF watch_conn(3) conn_steps_watcher(2) [OF server_conn_inv [OF assms(2) watch_conn(3)] watch_conn(4)]]
        by simp
    qed simp_all
  next
    case 2
    then show ?thesis
    proof (cases rule: env_step.cases)
      case (peer i c)
      show ?thesis unfolding peer(1)
        using upd [OF peer(2) conn_steps_watcher(3) [OF server_conn_inv [OF assms(2) peer(2)] peer(3)]] by simp
    qed (use assms(3) in simp_all)
  qed
qed

lemma life_step_keeps:
  "life_step s t \<Longrightarrow> (cancelled s \<longrightarrow> cancelled t) \<and> (\<not> lis_open s \<longrightarrow> \<not> lis_open t)"
  by (auto simp: life_step_def elim!: goroutine_step.cases env_step.cases)

lemma conn_not_stuck:
  assumes "serve_inv True True c" and "pc c \<noteq> ServeEnded" and "watcher c \<noteq> Watching"
  shows "\<exists>d. serve_step True c d"
proof (cases "pc c")
  case Started
  then show ?thesis by (intro exI) (rule serve_step.watch, simp_all)
next
  case Working
  then show ?thesis by (intro exI) (rule serve_step.block)
next
  case Blocked
  then have "\<not> sock_open c" using assms by (cases "watcher c") (auto simp: serve_inv_def split: if_splits)
  with Blocked show ?thesis by (intro exI) (rule serve_step.closed [where e = ErrClosed], simp_all)
next
  case Returned
  then show ?thesis
    by (cases "stop c") (intro exI, rule serve_step.no_stop serve_step.stop, simp_all)+
next
  case Closing
  then show ?thesis by (intro exI) (rule serve_step.close)
qed (use assms in simp)

lemma server_not_stuck:
  assumes inv: "server_inv cancel own s" and "cancelled s" and "\<not> lis_open s" and "\<not> all_ended s"
    and no_watcher: "\<forall>c\<in>set (conns s). watcher c \<noteq> Watching"
  shows "\<exists>g t. goroutine_step g s t"
proof -
  have can: "cancellable s" using inv assms(2) by (auto simp: server_inv_def)
  consider "lis_watcher s = Watching" | "acceptor s = Backoff" | "acceptor s = Accepting"
    | c where "c \<in> set (conns s)" "pc c \<noteq> ServeEnded"
    using assms(4) no_watcher by (cases "acceptor s") (auto simp: all_ended_def)
  then show ?thesis
  proof cases
    case 1
    then show ?thesis using assms(2) goroutine_step.close_listener by blast
  next
    case 2
    then show ?thesis using goroutine_step.wake by blast
  next
    case 3
    then show ?thesis using assms(3) goroutine_step.accept_closed [where e = ErrClosed] by fastforce
  next
    case (4 c)
    then obtain i where i: "i < length (conns s)" "conns s ! i = c" by (auto simp: in_set_conv_nth)
    then obtain d where "serve_step (cancellable s) (conns s ! i) d"
      using conn_not_stuck [of c] server_conn_inv [OF inv i(1)] can assms(2) 4 no_watcher by auto
    then show ?thesis using goroutine_step.serve [OF i(1)] by blast
  qed
qed

text \<open>Without a running watcher no peer can do anything: its connection is closed, or not yet read.\<close>

lemma no_env_step:
  assumes inv: "server_inv cancel own s" and "cancelled s" and "\<not> lis_open s"
    and no_watcher: "\<forall>c\<in>set (conns s). watcher c \<noteq> Watching"
  shows "\<not> env_step s t"
proof
  assume "env_step s t"
  then obtain i c where i: "i < length (conns s)" and step: "peer_step (conns s ! i) c"
    using assms(2,3) by (cases rule: env_step.cases) auto
  have "watcher (conns s ! i) \<noteq> Watching" using i no_watcher by simp
  moreover have "serve_inv True True (conns s ! i)"
    using server_conn_inv [OF inv i] inv assms(2) by (auto simp: server_inv_def)
  moreover have "pc (conns s ! i) = Blocked \<and> sock_open (conns s ! i)" using step by (auto elim: peer_stepE)
  ultimately show False by (cases "watcher (conns s ! i)") (auto simp: serve_inv_def split: if_splits)
qed

lemma all_ended_final:
  assumes "server_inv cancel own s" and "cancelled s" and "all_ended s"
  shows "\<not> lis_open s \<and> \<not> life_step s t \<and> (\<forall>c\<in>set (conns s). \<not> sock_open c \<and> CloseConn \<in> set (events c))"
proof -
  have closed: "\<not> lis_open s"
    using assms by (cases "lis_watcher s") (auto simp: server_inv_def all_ended_def)
  have "\<not> goroutine_step g s t" for g
    using assms(3) closed
    by (auto simp: all_ended_def elim!: goroutine_step.cases elim: conn_stepEs dest: nth_mem)
  moreover have "\<not> env_step s t"
    using no_env_step [OF assms(1,2) closed] assms(3) by (auto simp: all_ended_def)
  moreover have "\<forall>c\<in>set (conns s). \<not> sock_open c \<and> CloseConn \<in> set (events c)"
    using assms(1,3) by (force simp: all_ended_def server_inv_def serve_inv_def events_at_def)
  ultimately show ?thesis using closed by (simp add: life_step_def)
qed

section \<open>Fair runs\<close>

lemma fair_run_reachable: "fair_run cancel own run \<Longrightarrow> reachable cancel own (run i)"
proof (induction i)
  case 0
  then show ?case by (simp add: fair_run_def reachable.start)
next
  case (Suc i)
  then have "run (Suc i) = run i \<or> life_step (run i) (run (Suc i))" by (simp add: fair_run_def)
  then show ?case using Suc by (auto intro: reachable.step)
qed

lemma fair_run_inv: "fair_run cancel own run \<Longrightarrow> server_inv cancel own (run i)"
  by (rule reachable_inv [OF fair_run_reachable])

lemma fair_run_step:
  "fair_run cancel own run \<Longrightarrow> run (Suc i) = run i \<or> life_step (run i) (run (Suc i))"
  by (simp add: fair_run_def)

lemma fair_run_taken:
  "fair_run cancel own run \<Longrightarrow> (\<And>j. i \<le> j \<Longrightarrow> \<exists>t. goroutine_step g (run j) t) \<Longrightarrow>
    \<exists>j\<ge>i. goroutine_step g (run j) (run (Suc j))"
  by (simp add: fair_run_def)

lemma fair_run_keeps:
  assumes "fair_run cancel own run" and "i \<le> j"
  shows "(cancelled (run i) \<longrightarrow> cancelled (run j)) \<and> (\<not> lis_open (run i) \<longrightarrow> \<not> lis_open (run j))"
  using assms(2)
proof (induction j rule: dec_induct)
  case (step j)
  then show ?case using fair_run_step [OF assms(1), of j] life_step_keeps by auto
qed simp

lemma watchers_work_map:
  "map watcher (conns t) = map watcher (conns s) \<Longrightarrow> watchers_work t = watchers_work s"
  by (drule arg_cong [where f = "\<lambda>ws. sum_list (map watch_work ws)"]) (simp add: watchers_work_def comp_def)

lemma listener_closes:
  assumes fair: "fair_run cancel own run" and "cancelled (run i)"
  shows "\<exists>j\<ge>i. \<not> lis_open (run j)"
proof (rule ccontr)
  assume "\<not> ?thesis"
  then have opened: "lis_open (run j)" if "i \<le> j" for j using that by blast
  have "\<exists>t. goroutine_step ListenerWatcher (run j) t" if "i \<le> j" for j
  proof -
    have "cancelled (run j)" using fair_run_keeps [OF fair that] assms(2) by simp
    moreover from this have "lis_watcher (run j) = Watching"
      using fair_run_inv [OF fair, of j] opened [OF that] by (cases "lis_watcher (run j)") (auto simp: server_inv_def)
    ultimately show ?thesis using goroutine_step.close_listener by blast
  qed
  from fair_run_taken [OF fair this] obtain j where "i \<le> j" "goroutine_step ListenerWatcher (run j) (run (Suc j))"
    by blast
  then show False using opened [of "Suc j"] by (auto elim!: listener_stepE)
qed

text \<open>A watcher that waits after the cancellation closes its connection, or is stopped.\<close>

lemma watcher_ends:
  assumes fair: "fair_run cancel own run" and "cancelled (run i)" and "\<not> lis_open (run i)"
    and k: "k < length (conns (run i))" "watcher (conns (run i) ! k) = Watching"
  shows "\<exists>j\<ge>i. watchers_work (run j) < watchers_work (run i)"
proof (rule ccontr)
  assume stuck: "\<not> ?thesis"
  have same: "map watcher (conns (run j)) = map watcher (conns (run i))" if "i \<le> j" for j
    using that
  proof (induction j rule: dec_induct)
    case (step j)
    have "\<not> lis_open (run j)" using fair_run_keeps [OF fair \<open>i \<le> j\<close>] assms(3) by simp
    then have "map watcher (conns (run (Suc j))) = map watcher (conns (run j)) \<or>
        watchers_work (run (Suc j)) < watchers_work (run j)"
      using fair_run_step [OF fair, of j] life_step_watchers [OF _ fair_run_inv [OF fair]] by auto
    moreover have "watchers_work (run j) = watchers_work (run i)" by (rule watchers_work_map [OF step.IH])
    moreover have "\<not> watchers_work (run (Suc j)) < watchers_work (run i)"
      using stuck \<open>i \<le> j\<close> le_SucI by blast
    ultimately show ?case using step.IH by simp
  qed simp
  have still: "k < length (conns (run j)) \<and> watcher (conns (run j) ! k) = Watching" if "i \<le> j" for j
    using same [OF that] k by (metis length_map nth_map)
  have "\<exists>t. goroutine_step (ConnWatcher k) (run j) t" if "i \<le> j" for j
    using still [OF that] fair_run_keeps [OF fair that] assms(2)
      goroutine_step.watch_conn [OF _ watcher_step.watch_done] by blast
  from fair_run_taken [OF fair this] obtain j where j: "i \<le> j" "goroutine_step (ConnWatcher k) (run j) (run (Suc j))"
    by blast
  then have "watcher (conns (run (Suc j)) ! k) = WatcherEnded" by (auto elim!: watch_connE watcher_stepE)
  then show False using still [of "Suc j"] j(1) by simp
qed

lemma first_change:
  "i \<le> m \<Longrightarrow> f m \<noteq> f i \<Longrightarrow> \<exists>j\<ge>i. f j = f i \<and> f (Suc j) \<noteq> f (i :: nat)"
  by (induction m rule: dec_induct) auto

text \<open>With no watcher waiting, the next thing that happens is a statement of some goroutine.\<close>

lemma work_goes_on:
  assumes fair: "fair_run cancel own run" and "cancelled (run i)" and "\<not> lis_open (run i)" and "\<not> all_ended (run i)"
    and no_watcher: "\<forall>c\<in>set (conns (run i)). watcher c \<noteq> Watching"
  shows "\<exists>j\<ge>i. run j = run i \<and> (\<exists>g. goroutine_step g (run i) (run (Suc j)))"
proof -
  note inv = fair_run_inv [OF fair, of i]
  obtain g where g: "\<exists>t. goroutine_step g (run i) t"
    using server_not_stuck [OF inv assms(2-4) no_watcher] by blast
  have "\<exists>m\<ge>i. run m \<noteq> run i"
  proof (rule ccontr)
    assume "\<not> ?thesis"
    then have const: "run m = run i" if "i \<le> m" for m using that by blast
    have "\<exists>t. goroutine_step g (run j) t" if "i \<le> j" for j unfolding const [OF that] by (rule g)
    from fair_run_taken [OF fair this] obtain j where "i \<le> j" "goroutine_step g (run j) (run (Suc j))" by blast
    moreover have "run j = run i" "run (Suc j) = run i" by (rule const, use \<open>i \<le> j\<close> in simp)+
    ultimately have "goroutine_step g (run i) (run i)" by simp
    then show False using goroutine_step_work [OF _ inv assms(3)] by blast
  qed
  then obtain j where j: "i \<le> j" "run j = run i" "run (Suc j) \<noteq> run i" using first_change [of i _ run] by blast
  then have "life_step (run i) (run (Suc j))" using fair_run_step [OF fair, of j] by auto
  then show ?thesis using j no_env_step [OF inv assms(2,3) no_watcher] by (auto simp: life_step_def)
qed

lemma run_ends:
  assumes fair: "fair_run cancel own run"
  shows "cancelled (run i) \<Longrightarrow> \<not> lis_open (run i) \<Longrightarrow> \<exists>n\<ge>i. all_ended (run n)"
proof (induction i rule: wf_induct_rule
    [OF wf_measures [where fs = "[\<lambda>i. watchers_work (run i), \<lambda>i. life_work (run i)]"]])
  case (1 i)
  have next_state: "\<exists>n\<ge>i. all_ended (run n)"
    if "i \<le> j" "watchers_work (run j) < watchers_work (run i) \<or>
      watchers_work (run j) \<le> watchers_work (run i) \<and> life_work (run j) < life_work (run i)" for j
  proof -
    have "(j, i) \<in> measures [\<lambda>i. watchers_work (run i), \<lambda>i. life_work (run i)]" using that(2) by auto
    moreover have "cancelled (run j)" "\<not> lis_open (run j)" using fair_run_keeps [OF fair that(1)] 1(2,3) by simp_all
    ultimately have "\<exists>n\<ge>j. all_ended (run n)" by (rule 1(1))
    then show ?thesis using that(1) le_trans by blast
  qed
  show ?case
  proof (cases "all_ended (run i)")
    case False
    show ?thesis
    proof (cases "\<exists>c\<in>set (conns (run i)). watcher c = Watching")
      case True
      then obtain k where "k < length (conns (run i))" "watcher (conns (run i) ! k) = Watching"
        by (auto simp: in_set_conv_nth)
      from watcher_ends [OF fair 1(2,3) this] obtain j
        where "j \<ge> i" "watchers_work (run j) < watchers_work (run i)" by blast
      then show ?thesis using next_state [of j] by simp
    next
      case none: False
      then obtain j g where j: "i \<le> j" "goroutine_step g (run i) (run (Suc j))"
        using work_goes_on [OF fair 1(2,3) False] by blast
      note inv = fair_run_inv [OF fair, of i]
      have "map watcher (conns (run (Suc j))) = map watcher (conns (run i)) \<or>
          watchers_work (run (Suc j)) < watchers_work (run i)"
        by (rule life_step_watchers [OF life_step_own [OF j(2)] inv 1(3)])
      then have "watchers_work (run (Suc j)) \<le> watchers_work (run i)"
        using watchers_work_map less_imp_le by (metis order_refl)
      then show ?thesis
        using j(1) goroutine_step_work [OF j(2) inv 1(3)] by (intro next_state [of "Suc j"]) simp_all
    qed
  qed blast
qed

section \<open>Against the sequential model\<close>

text \<open>The goroutines do what the functions of \<open>Server\<close> say of them alone.\<close>

lemma accept_from_survivable: "\<forall>x\<in>set rs. survivable x \<Longrightarrow> fst (accept_from b rs) = Hang"
proof (induction rs arbitrary: b)
  case (Cons x rs)
  then show ?case by (cases x) (simp_all add: case_prod_beta)
qed simp

lemma acceptor_result:
  assumes "server_inv cancel own s"
  shows "fst (acceptLoop (results s)) = (case acceptor s of AcceptEnded r \<Rightarrow> r | _ \<Rightarrow> Hang)"
proof (cases "acceptor s")
  case (AcceptEnded r)
  then obtain rs e where "results s = rs @ [AcceptErr e]" "\<forall>x\<in>set rs. survivable x"
    "\<not> survivable (AcceptErr e :: 'a accept_result)" "r = stop_result e"
    using assms by (auto simp: server_inv_def accept_ok_def simp del: survivable.simps)
  then show ?thesis using accept_from_expected [of rs e 0 "[]"] AcceptEnded
    by (simp add: acceptLoop_def backoff_after_0)
qed (use assms in \<open>simp_all add: server_inv_def accept_ok_simps acceptLoop_def accept_from_survivable\<close>)

lemma served_events:
  assumes "serve_inv has_done done_now c" and "pc c = ServeEnded"
    and "handleConn gz ctx router (idleTimeout so) (writeTimeout so) w = (r, st, w')" and "result c = Some r"
  shows "serveConn gz ctx has_done router so w = (Ok (), events c, w')"
  using assms by (cases r) (auto simp: serve_inv_def events_at_def handled_log_def serveConn_def Let_def)

section \<open>Properties\<close>

text \<open>
  C12: the goroutines of the server are safe in every interleaving.  The accept loop has returned what
  its sequential model returns on the results so far, and has started one goroutine per accepted
  connection; a \<open>stop\<close> channel is never closed twice (which would panic); a watcher closes its
  connection at most once and only after the context is canceled; and a connection's goroutine that
  has ended has done exactly what \<open>serveConn\<close> does for the result of its \<open>handleConn\<close>, closing the
  connection last.
\<close>

theorem goroutines_safe:
  assumes "reachable cancel own s"
  shows "fst (acceptLoop (results s)) = (case acceptor s of AcceptEnded r \<Rightarrow> r | _ \<Rightarrow> Hang) \<and>
    length (conns s) = length [c. Accepted c \<leftarrow> results s] \<and>
    (\<forall>c\<in>set (conns s). stop c \<in> {None, Some 0, Some 1} \<and> watcher_closes c \<le> 1 \<and>
       (watcher_closes c = 1 \<longrightarrow> cancelled s) \<and>
       (pc c = ServeEnded \<longrightarrow> last (events c) = CloseConn \<and> (\<exists>r. result c = Some r \<and>
          (\<forall>gz ctx (router :: ('x, 'y) router option) so w st w'. handleConn gz ctx router (idleTimeout so) (writeTimeout so) w = (r, st, w') \<longrightarrow>
             serveConn gz ctx cancel router so w = (Ok (), events c, w')))))"
proof -
  have inv: "server_inv cancel own s" by (rule reachable_inv [OF assms])
  have "stop c \<in> {None, Some 0, Some 1} \<and> watcher_closes c \<le> 1 \<and> (watcher_closes c = 1 \<longrightarrow> cancelled s) \<and>
      (pc c = ServeEnded \<longrightarrow> last (events c) = CloseConn \<and> (\<exists>r. result c = Some r \<and>
          (\<forall>gz ctx (router :: ('x, 'y) router option) so w st w'. handleConn gz ctx router (idleTimeout so) (writeTimeout so) w = (r, st, w') \<longrightarrow>
             serveConn gz ctx cancel router so w = (Ok (), events c, w'))))"
    if "c \<in> set (conns s)" for c
  proof -
    have c: "serve_inv cancel (cancelled s) c" using inv that by (simp add: server_inv_def)
    then have "pc c = ServeEnded \<longrightarrow> last (events c) = CloseConn \<and> result c \<noteq> None"
      by (auto simp: serve_inv_def events_at_def)
    moreover have "stop c \<in> {None, Some 0, Some 1} \<and> watcher_closes c \<le> 1 \<and> (watcher_closes c = 1 \<longrightarrow> cancelled s)"
      using c by (auto simp: serve_inv_def split: if_splits)
    ultimately show ?thesis by (auto intro!: served_events [OF c])
  qed
  then show ?thesis using acceptor_result [OF inv] inv by (auto simp: server_inv_def)
qed

definition demo_conn :: conn_life where
  "demo_conn = \<lparr>pc = Working, stop = Some 0, watcher = Watching, watcher_closes = 0, sock_open = True,
     result = None, events = [StartWatcher]\<rparr>"

definition demo_closed :: conn_life where
  "demo_closed = demo_conn\<lparr>pc := Blocked, watcher := WatcherEnded, watcher_closes := 1, sock_open := False\<rparr>"

definition demo_server :: "bool \<Rightarrow> conn_life \<Rightarrow> unit server_life" where
  "demo_server c d = (new_server True False)\<lparr>cancelled := c, results := [Accepted ()], conns := [d]\<rparr>"

definition demo_closing :: "conn_life \<Rightarrow> unit server_life" where
  "demo_closing d = (demo_server True d)\<lparr>lis_open := False, lis_watcher := WatcherEnded\<rparr>"

text \<open>
  One connection whose peer sends something once and then stays silent: the context is canceled while
  the connection waits for its peer.
\<close>

definition demo_states :: "unit server_life list" where
  "demo_states =
     [new_server True False,
      demo_server False new_conn,
      demo_server False demo_conn,
      demo_server False (demo_conn\<lparr>pc := Blocked\<rparr>),
      demo_server False demo_conn,
      demo_server False (demo_conn\<lparr>pc := Blocked\<rparr>),
      demo_server True (demo_conn\<lparr>pc := Blocked\<rparr>),
      demo_closing (demo_conn\<lparr>pc := Blocked\<rparr>),
      demo_closing demo_closed,
      demo_closing (handled (Fail (NetworkErr ErrClosed)) demo_closed),
      demo_closing ((handled (Fail (NetworkErr ErrClosed)) demo_closed)\<lparr>pc := Closing, stop := Some 1,
        events := [StartWatcher, StopWatcher]\<rparr>),
      demo_closing ((handled (Fail (NetworkErr ErrClosed)) demo_closed)\<lparr>pc := ServeEnded, stop := Some 1,
        events := [StartWatcher, StopWatcher, CloseConn]\<rparr>),
      (demo_closing ((handled (Fail (NetworkErr ErrClosed)) demo_closed)\<lparr>pc := ServeEnded, stop := Some 1,
        events := [StartWatcher, StopWatcher, CloseConn]\<rparr>))
        \<lparr>results := [Accepted (), AcceptErr ErrClosed], acceptor := AcceptEnded (Ok ())\<rparr>]"

definition demo_run :: "nat \<Rightarrow> unit server_life" where
  "demo_run i = demo_states ! min i 12"

lemmas demo_defs = demo_states_def demo_server_def demo_closing_def demo_closed_def demo_conn_def
  new_server_def new_conn_def handled_def handled_log_def

lemma demo_conn_steps:
  "serve_step True new_conn demo_conn"
  "serve_step True demo_conn (demo_conn\<lparr>pc := Blocked\<rparr>)"
  "peer_step (demo_conn\<lparr>pc := Blocked\<rparr>) demo_conn"
  "watcher_step True (demo_conn\<lparr>pc := Blocked\<rparr>) demo_closed"
  "serve_step True demo_closed (handled (Fail (NetworkErr ErrClosed)) demo_closed)"
  using serve_step.watch [of new_conn True] serve_step.block [of demo_conn True]
    peer_step.transfer [of "demo_conn\<lparr>pc := Blocked\<rparr>"]
    watcher_step.watch_done [of "demo_conn\<lparr>pc := Blocked\<rparr>" True]
    serve_step.closed [of demo_closed ErrClosed True]
  by (simp_all add: demo_defs)

lemma demo_ends:
  "serve_step True (handled (Fail (NetworkErr ErrClosed)) demo_closed)
     ((handled (Fail (NetworkErr ErrClosed)) demo_closed)\<lparr>pc := Closing, stop := Some 1,
        events := [StartWatcher, StopWatcher]\<rparr>)"
  "serve_step True ((handled (Fail (NetworkErr ErrClosed)) demo_closed)\<lparr>pc := Closing, stop := Some 1,
        events := [StartWatcher, StopWatcher]\<rparr>)
     ((handled (Fail (NetworkErr ErrClosed)) demo_closed)\<lparr>pc := ServeEnded, stop := Some 1,
        events := [StartWatcher, StopWatcher, CloseConn]\<rparr>)"
  using serve_step.stop [of "handled (Fail (NetworkErr ErrClosed)) demo_closed" 0 True]
    serve_step.close [of "(handled (Fail (NetworkErr ErrClosed)) demo_closed)\<lparr>pc := Closing, stop := Some 1,
        events := [StartWatcher, StopWatcher]\<rparr>" True]
  by (simp_all add: demo_defs isBenignConnError_def)

lemma demo_serve:
  "serve_step True d e \<Longrightarrow> life_step (demo_server c d) (demo_server c e)"
  "serve_step True d e \<Longrightarrow> life_step (demo_closing d) (demo_closing e)"
  "watcher_step True d e \<Longrightarrow> life_step (demo_closing d) (demo_closing e)"
  "peer_step d e \<Longrightarrow> life_step (demo_server c d) (demo_server c e)"
  using life_step_own [OF goroutine_step.serve [of 0 "demo_server c d" e]]
    life_step_own [OF goroutine_step.serve [of 0 "demo_closing d" e]]
    life_step_own [OF goroutine_step.watch_conn [of 0 "demo_closing d" e]]
    life_step_env [OF env_step.peer [of 0 "demo_server c d" e]]
  by (simp_all add: demo_server_def demo_closing_def new_server_def)

lemma demo_server_steps:
  "life_step (new_server True False) (demo_server False new_conn)"
  "life_step (demo_server False d) (demo_server True d)"
  "life_step (demo_server True d) (demo_closing d)"
  "life_step (demo_closing d)
     ((demo_closing d)\<lparr>results := [Accepted (), AcceptErr ErrClosed], acceptor := AcceptEnded (Ok ())\<rparr>)"
  using life_step_env [OF env_step.accept [of "new_server True False" "()"]]
    life_step_env [OF env_step.cancel [of "demo_server False d"]]
    life_step_own [OF goroutine_step.close_listener [of "demo_server True d"]]
    life_step_own [OF goroutine_step.accept_closed [of "demo_closing d" ErrClosed]]
  by (simp_all add: demo_server_def demo_closing_def new_server_def)

lemma demo_steps: "successively life_step demo_states"
  unfolding demo_states_def
  by (simp only: successively.simps demo_serve demo_server_steps demo_conn_steps demo_ends simp_thms)

lemma demo_run_step: "demo_run (Suc i) = demo_run i \<or> life_step (demo_run i) (demo_run (Suc i))"
proof (cases "i < 12")
  case True
  then show ?thesis using demo_steps
    by (simp add: successively_conv_nth demo_run_def demo_states_def min_def)
qed (simp add: demo_run_def min_def)

lemma demo_reachable: "reachable True False (demo_run i)"
proof (induction i)
  case 0
  then show ?case by (simp add: demo_run_def demo_states_def reachable.start)
next
  case (Suc i)
  then show ?case using demo_run_step [of i] by (auto intro: reachable.step)
qed

lemma demo_final: "12 \<le> i \<Longrightarrow> all_ended (demo_run i) \<and> cancelled (demo_run i)"
  by (simp add: demo_run_def min_def all_ended_def demo_defs)

lemma demo_fair: "fair_run True False demo_run"
  unfolding fair_run_def
proof (intro conjI allI impI)
  show "demo_run 0 = new_server True False" by (simp add: demo_run_def demo_states_def)
next
  fix g i
  assume "\<forall>j\<ge>i. \<exists>t. goroutine_step g (demo_run j) t"
  then obtain t where "goroutine_step g (demo_run (max i 12)) t" by (meson max.cobounded1)
  moreover have "\<not> life_step (demo_run (max i 12)) t"
    using all_ended_final [OF reachable_inv [OF demo_reachable]] demo_final [of "max i 12"] by simp
  ultimately show "\<exists>j\<ge>i. goroutine_step g (demo_run j) (demo_run (Suc j))" using life_step_own by blast
qed (rule demo_run_step)

theorem goroutines_safe_witness:
  "fst (acceptLoop (results (demo_run 12))) = Ok () \<and>
    (\<exists>c. conns (demo_run 12) = [c] \<and> watcher_closes c = 1 \<and>
       result c = Some (Fail (NetworkErr ErrClosed)) \<and> last (events c) = CloseConn)"
  using goroutines_safe [OF demo_reachable [of 12]] by (auto simp: demo_run_def demo_defs)

text \<open>
  C13: shutdown completes.  In every fair run, once the context is canceled, there comes a moment from
  which on the listener is closed, the accept loop, every server and every watcher have ended, every
  connection is closed by its server, and nothing happens any more.  No peer has to do anything for
  that, and no peer can prevent it: a connection may be blocked for ever in a \<open>Read\<close> or \<open>Write\<close> that only
  its watcher ends by closing it, and other peers may go on sending.  Fair means that a goroutine
  whose next statement stays possible is run at some time; a handler is assumed to return.
\<close>

theorem shutdown_completes:
  assumes "fair_run cancel own run" and "cancelled (run i)"
  shows "\<exists>n\<ge>i. \<forall>m\<ge>n. run m = run n \<and> all_ended (run m) \<and> \<not> lis_open (run m) \<and>
    (\<forall>c\<in>set (conns (run m)). \<not> sock_open c \<and> CloseConn \<in> set (events c))"
proof -
  obtain j where j: "i \<le> j" "\<not> lis_open (run j)" using listener_closes [OF assms] by blast
  then obtain n where n: "j \<le> n" "all_ended (run n)"
    using run_ends [OF assms(1)] fair_run_keeps [OF assms(1) j(1)] assms(2) by blast
  have "i \<le> n" using j(1) n(1) by simp
  then have final: "\<not> lis_open (run n) \<and> \<not> life_step (run n) t \<and>
      (\<forall>c\<in>set (conns (run n)). \<not> sock_open c \<and> CloseConn \<in> set (events c))" for t
    using all_ended_final [OF fair_run_inv [OF assms(1)] _ n(2)] fair_run_keeps [OF assms(1)] assms(2) by blast
  have "run m = run n" if "n \<le> m" for m
    using that
  proof (induction m rule: dec_induct)
    case (step m)
    then show ?case using fair_run_step [OF assms(1), of m] final by metis
  qed simp
  then show ?thesis using \<open>i \<le> n\<close> n(2) final by metis
qed

theorem shutdown_completes_witness:
  "pc (hd (conns (demo_run 6))) = Blocked \<and> cancelled (demo_run 6) \<and>
    (\<exists>n\<ge>6. \<forall>m\<ge>n. demo_run m = demo_run n \<and> all_ended (demo_run m) \<and> \<not> lis_open (demo_run m) \<and>
       (\<forall>c\<in>set (conns (demo_run m)). \<not> sock_open c \<and> CloseConn \<in> set (events c)))"
  using shutdown_completes [OF demo_fair, of 6] by (simp add: demo_run_def demo_defs)

text \<open>
  The watcher of the listener has no \<open>stop\<close> channel: after the accept loop has failed it stays until
  the context is canceled, if that ever happens.
\<close>

lemma listener_watcher_stays:
  assumes "reachable True own s" and "acceptor s = AcceptEnded (Fail e)" and "\<not> cancelled s"
  shows "lis_watcher s = Watching"
  using reachable_inv [OF assms(1)] assms(3) by (cases "lis_watcher s") (auto simp: server_inv_def)

end
