(* ===== verification/Concurrent.thy ===== *)
theory Concurrent
  imports Session
begin

text \<open>
  Several connections of one server at once.  Each connection of \<open>ConnHandler\<close> becomes a process
  whose steps are those between which the goroutines of other connections can run: a read, one
  frame, the compaction of the buffer.  First the process is shown to do what \<open>handleConn\<close> does; then
  processes that share the state behind the router are interleaved by an arbitrary schedule.
\<close>

section \<open>One connection in steps\<close>

text \<open>
  Where a connection is: before \<open>readIntoBuffer\<close>, in the loop of \<open>processBufferedFrames\<close> with so many
  bytes consumed, or at its end.
\<close>

datatype phase = Reading | Frames nat | Finished "(conn_err, unit) outcome"

record 'ctx serving =
  sv_gzip :: gzip
  sv_ctx :: 'ctx
  sv_idle :: int
  sv_write :: int

type_synonym 's proc = "phase \<times> conn_state \<times> 's world"

text \<open>How \<open>handleConn\<close> ends after an error of \<open>readIntoBuffer\<close>.\<close>

definition read_end :: "conn_err \<Rightarrow> (conn_err, unit) outcome" where
  "read_end e =
     (case e of
        NetworkErr n \<Rightarrow> if errors_is n EOF then Ok () else Fail e
      | IdleTimeout \<Rightarrow> Ok ()
      | _ \<Rightarrow> Fail e)"

definition compact_buf :: "nat \<Rightarrow> conn_state \<Rightarrow> conn_state" where
  "compact_buf consumed st =
     (if consumed > 0 then st\<lparr>cc := Release (int consumed) (cc st), buf := drop consumed (buf st)\<rparr> else st)"

fun proc_step :: "'ctx serving \<Rightarrow> ('ctx, 's) router \<Rightarrow> 's proc \<Rightarrow> 's proc" where
  "proc_step sv router (Finished r, st, w) = (Finished r, st, w)"
| "proc_step sv router (Reading, st, w) =
     (let w1 = set_deadline ReadDeadline (sv_idle sv) w in
      case reads w of
        [] \<Rightarrow> (Finished Hang, st, w1\<lparr>reads := []\<rparr>)
      | (data, err) # rs \<Rightarrow>
          (case read_result (sv_idle sv) data err (st, w1\<lparr>reads := rs\<rparr>) of
             (Ok _, st, w) \<Rightarrow> (Frames 0, st, w)
           | (Fail e, st, w) \<Rightarrow> (Finished (read_end e), st, w)
           | (Panic p, st, w) \<Rightarrow> (Finished (Panic p), st, w)
           | (Hang, st, w) \<Rightarrow> (Finished Hang, st, w)))"
| "proc_step sv router (Frames consumed, st, w) =
     (case decode (drop consumed (buf st)) of
        Inl e \<Rightarrow> (Finished (Fail (FrameErr e)), st, w)
      | Inr None \<Rightarrow> (Reading, compact_buf consumed st, w)
      | Inr (Some (frame, frameLen)) \<Rightarrow>
          (case handle_frame (sv_gzip sv) (sv_ctx sv) router frame (sv_write sv) (st, w) of
             (Ok _, st, w) \<Rightarrow> (Frames (consumed + frameLen), st, w)
           | (Fail e, st, w) \<Rightarrow> (Finished (Fail e), st, w)
           | (Panic p, st, w) \<Rightarrow> (Finished (Panic p), st, w)
           | (Hang, st, w) \<Rightarrow> (Finished Hang, st, w)))"

definition proc_steps :: "'ctx serving \<Rightarrow> ('ctx, 's) router \<Rightarrow> nat \<Rightarrow> 's proc \<Rightarrow> 's proc" where
  "proc_steps sv router n = (proc_step sv router ^^ n)"

text \<open>\<open>handleConn\<close> up to its loop.\<close>

definition proc_start :: "'s world \<Rightarrow> 's proc" where
  "proc_start w = (case time_now w of (now, w) \<Rightarrow> (Reading, \<lparr>cc = NewConnContext now, buf = []\<rparr>, w))"

lemma proc_steps_0 [simp]: "proc_steps sv router 0 p = p"
  by (simp add: proc_steps_def)

lemma proc_steps_Suc: "proc_steps sv router (Suc n) p = proc_steps sv router n (proc_step sv router p)"
  unfolding proc_steps_def funpow_Suc_right by simp

lemma proc_steps_add: "proc_steps sv router (m + n) p = proc_steps sv router n (proc_steps sv router m p)"
  by (simp add: proc_steps_def add.commute [of m] funpow_add)

lemma proc_steps_finished: "proc_steps sv router n (Finished r, st, w) = (Finished r, st, w)"
  by (induction n) (simp_all add: proc_steps_Suc)

lemma proc_steps_more:
  assumes "proc_steps sv router n p = (Finished r, st, w)" and "n \<le> k"
  shows "proc_steps sv router k p = (Finished r, st, w)"
  using proc_steps_add [of sv router n "k - n" p] assms by (simp add: proc_steps_finished)

text \<open>The loop over the frames of the buffer.\<close>

lemma frames_loop_steps:
  assumes "frames_loop (sv_gzip sv) (sv_ctx sv) router (sv_write sv) b k (st, w) = (r, (st', w'))" and "buf st = b"
  shows "\<exists>n. proc_steps sv router n (Frames k, st, w) =
    (case r of Ok k' \<Rightarrow> (Reading, compact_buf k' st', w') | Fail e \<Rightarrow> (Finished (Fail e), st', w')
     | Panic p \<Rightarrow> (Finished (Panic p), st', w') | Hang \<Rightarrow> (Finished Hang, st', w'))"
  using assms
proof (induction "length b - k" arbitrary: k st w rule: less_induct)
  case less
  note unfold = frames_loop.simps [of "sv_gzip sv" "sv_ctx sv" router "sv_write sv" b k "(st, w)"]
  show ?case
  proof (cases "decode (drop k b)")
    case (Inl e)
    then show ?thesis using less.prems unfold by (intro exI [of _ 1]) (auto simp: proc_steps_Suc)
  next
    case (Inr o1)
    show ?thesis
    proof (cases o1)
      case None
      then show ?thesis using less.prems unfold Inr by (intro exI [of _ 1]) (auto simp: proc_steps_Suc)
    next
      case (Some fl)
      obtain f len where fl: "fl = (f, len)" by (cases fl)
      obtain r1 st1 w1 where h: "handle_frame (sv_gzip sv) (sv_ctx sv) router f (sv_write sv) (st, w) = (r1, (st1, w1))"
        by (metis surj_pair)
      have d: "decode (drop k (buf st)) = Inr (Some (f, len))" using Inr Some fl less.prems(2) by simp
      have b1: "buf st1 = b" using handle_frame_state [OF h] less.prems(2) by simp
      show ?thesis
      proof (cases r1)
        case (Ok u)
        have "length b - (k + len) < length b - k"
          using frames.dec_bounds [of "drop k b" f len] d less.prems(2) by auto
        moreover have "frames_loop (sv_gzip sv) (sv_ctx sv) router (sv_write sv) b (k + len) (st1, w1) = (r, (st', w'))"
          using less.prems(1) unfold Inr Some fl h Ok by simp
        ultimately obtain n where "proc_steps sv router n (Frames (k + len), st1, w1) =
            (case r of Ok k' \<Rightarrow> (Reading, compact_buf k' st', w') | Fail e \<Rightarrow> (Finished (Fail e), st', w')
             | Panic p \<Rightarrow> (Finished (Panic p), st', w') | Hang \<Rightarrow> (Finished Hang, st', w'))"
          using less.hyps [OF _ _ b1] by blast
        then show ?thesis using d h Ok by (intro exI [of _ "Suc n"]) (simp add: proc_steps_Suc)
      qed (use less.prems unfold Inr Some fl h d in \<open>intro exI [of _ 1]; auto simp: proc_steps_Suc\<close>)+
    qed
  qed
qed

lemma process_compact:
  assumes "frames_loop gz ctx router t (buf st) 0 (st, w) = (r, (st', w'))"
  shows "process_buffered_frames gz ctx router t (st, w) =
    (case r of Ok k \<Rightarrow> (Ok (), (compact_buf k st', w')) | Fail e \<Rightarrow> (Fail e, (st', w'))
     | Panic p \<Rightarrow> (Panic p, (st', w')) | Hang \<Rightarrow> (Hang, (st', w')))"
  using assms by (cases r) (simp_all add: process_buffered_frames_def compact_buf_def)

lemma process_steps:
  assumes "process_buffered_frames (sv_gzip sv) (sv_ctx sv) router (sv_write sv) (st, w) = (r, (st', w'))"
  shows "\<exists>n. proc_steps sv router n (Frames 0, st, w) =
    (case r of Ok _ \<Rightarrow> (Reading, st', w') | Fail e \<Rightarrow> (Finished (Fail e), st', w')
     | Panic p \<Rightarrow> (Finished (Panic p), st', w') | Hang \<Rightarrow> (Finished Hang, st', w'))"
proof -
  obtain r1 st1 w1 where f: "frames_loop (sv_gzip sv) (sv_ctx sv) router (sv_write sv) (buf st) 0 (st, w) = (r1, (st1, w1))"
    by (metis surj_pair)
  from frames_loop_steps [OF f refl] process_compact [OF f] assms show ?thesis by (cases r1) auto
qed

lemma process_reads:
  assumes "process_buffered_frames gz ctx router t (st, w) = (r, (st', w'))"
  shows "reads w' = reads w"
  using process_serves [OF assms] by (metis prod_cases3)

lemma conn_loop_steps:
  assumes "conn_loop (sv_gzip sv) (sv_ctx sv) router (sv_idle sv) (sv_write sv) (reads w) (st, w) = (r, (st', w'))"
  shows "\<exists>n. proc_steps sv router n (Reading, st, w) = (Finished r, st', w')"
  using assms
proof (induction "reads w" arbitrary: st w)
  case Nil
  then show ?case by (intro exI [of _ 1]) (auto simp: proc_steps_Suc Let_def dest: sym)
next
  case (Cons x rs)
  obtain data err where x: "x = (data, err)" by (cases x)
  have rd: "reads w = (data, err) # rs" using Cons.hyps(2) x by simp
  let ?w = "(set_deadline ReadDeadline (sv_idle sv) w)\<lparr>reads := rs\<rparr>"
  obtain r1 st1 w1 where l: "read_result (sv_idle sv) data err (st, ?w) = (r1, (st1, w1))" by (metis surj_pair)
  note loop = Cons.prems [unfolded rd conn_loop.simps l]
  show ?case
  proof (cases r1)
    case (Ok u)
    have w1: "w1 = ?w" using l Ok
      by (auto simp: read_result_def Let_def and_then_Ok_iff split: if_splits prod.splits option.splits)
    obtain r2 st2 w2 where p: "process_buffered_frames (sv_gzip sv) (sv_ctx sv) router (sv_write sv) (st1, w1) = (r2, (st2, w2))"
      by (metis surj_pair)
    obtain n where n: "proc_steps sv router n (Frames 0, st1, w1) =
        (case r2 of Ok _ \<Rightarrow> (Reading, st2, w2) | Fail e \<Rightarrow> (Finished (Fail e), st2, w2)
         | Panic p \<Rightarrow> (Finished (Panic p), st2, w2) | Hang \<Rightarrow> (Finished Hang, st2, w2))"
      using process_steps [OF p] by blast
    have first: "proc_steps sv router (Suc n) (Reading, st, w) = proc_steps sv router n (Frames 0, st1, w1)"
      using rd l Ok by (simp add: proc_steps_Suc Let_def)
    show ?thesis
    proof (cases r2)
      case (Ok u2)
      have rs: "rs = reads w2" using process_reads [OF p] w1 by simp
      have "conn_loop (sv_gzip sv) (sv_ctx sv) router (sv_idle sv) (sv_write sv) (reads w2) (st2, w2) = (r, (st', w'))"
        using loop \<open>r1 = Ok u\<close> p Ok rs by simp
      from Cons.hyps(1) [OF rs this] obtain k where "proc_steps sv router k (Reading, st2, w2) = (Finished r, st', w')"
        by blast
      then have "proc_steps sv router (Suc n + k) (Reading, st, w) = (Finished r, st', w')"
        using first n Ok proc_steps_add [of sv router "Suc n" k] by simp
      then show ?thesis by blast
    qed (use loop \<open>r1 = Ok u\<close> p first n in auto)
  next
    case (Fail e)
    then show ?thesis using loop rd l
      by (intro exI [of _ 1]) (auto simp: proc_steps_Suc Let_def read_end_def split: conn_err.splits if_splits)
  qed (use loop rd l in \<open>intro exI [of _ 1]; auto simp: proc_steps_Suc Let_def\<close>)+
qed

text \<open>The steps of a connection do what \<open>handleConn\<close> does.\<close>

lemma handleConn_steps:
  assumes "handleConn (sv_gzip sv) (sv_ctx sv) (Some router) (sv_idle sv) (sv_write sv) w = (r, st, w')"
  shows "\<exists>n st1. proc_steps sv router n (proc_start w) = (Finished r, st1, w')"
proof -
  from handleConn_loop [OF assms] obtain st1 where
    "conn_loop (sv_gzip sv) (sv_ctx sv) router (sv_idle sv) (sv_write sv) (reads (w\<lparr>tick := Suc (tick w)\<rparr>))
      (\<lparr>cc = NewConnContext (clock w (tick w)), buf = []\<rparr>, w\<lparr>tick := Suc (tick w)\<rparr>) = (r, (st1, w'))"
    by (metis select_convs(1) update_convs(4) world.select_convs(1) world.update_convs(4) world.surjective)
  from conn_loop_steps [OF this] show ?thesis by (auto simp: proc_start_def time_now_def)
qed

section \<open>Connections that share a state\<close>

text \<open>
  The state behind the router is shared: a step of connection \<open>i\<close> runs on the state the last step of
  any connection has left.  A schedule is the list of the connections that move.
\<close>

definition sys_step ::
  "'ctx serving \<Rightarrow> ('ctx, 's) router \<Rightarrow> nat \<Rightarrow> 's proc list \<times> 's \<Rightarrow> 's proc list \<times> 's" where
  "sys_step sv router i g =
     (case g of (ps, a) \<Rightarrow>
        if i < length ps
        then (case ps ! i of (ph, st, w) \<Rightarrow>
               (case proc_step sv router (ph, st, w\<lparr>app := a\<rparr>) of
                  (ph, st, w) \<Rightarrow> (ps[i := (ph, st, w)], app w)))
        else (ps, a))"

definition sys_run ::
  "'ctx serving \<Rightarrow> ('ctx, 's) router \<Rightarrow> nat list \<Rightarrow> 's proc list \<times> 's \<Rightarrow> 's proc list \<times> 's" where
  "sys_run sv router sched g = fold (sys_step sv router) sched g"

text \<open>A router whose handlers leave a state as it is.\<close>

definition quiet :: "'ctx \<Rightarrow> ('ctx, 's) router \<Rightarrow> 's \<Rightarrow> bool" where
  "quiet ctx router a \<longleftrightarrow> (\<forall>m. snd (Dispatch ctx m router a) = a)"

lemma send_visible_app: "snd (snd (snd (send_visible data v))) = snd (snd v)"
  by (simp add: send_visible_def split: prod.split)

lemma and_then_app:
  assumes "snd (snd (snd m)) = a" and "\<And>x v. snd (snd v) = a \<Longrightarrow> snd (snd (snd (k x v))) = a"
  shows "snd (snd (snd (and_then m k))) = a"
  using assms by (cases "(m, k)" rule: and_then.cases) auto

lemma serve_frame_quiet:
  assumes "quiet ctx router (snd (snd v))"
  shows "snd (snd (snd (serve_frame gz ctx router f v))) = snd (snd v)"
proof -
  have "snd (snd (snd (dispatch_visible ctx m router u))) = snd (snd u)" if "snd (snd u) = snd (snd v)" for m u
    using assms that unfolding quiet_def dispatch_visible_def
    by (auto split: prod.splits outcome.splits) (metis snd_conv)+
  then show ?thesis unfolding serve_frame_def
    by (intro and_then_app) (auto simp: send_visible_app split: option.split intro!: and_then_app)
qed

lemma handle_frame_quiet:
  assumes "quiet ctx router (app w)" and "handle_frame gz ctx router f t (st, w) = (r, (st', w'))"
  shows "app w' = app w"
proof -
  obtain ok c where a: "Allow (clock w (tick w)) (cc st) = (ok, c)" by fastforce
  have "snd (snd (visible w)) = app w" "snd (snd (visible w')) = app w'" by (simp_all add: visible_def)
  then show ?thesis
    using handle_frame_serves [OF assms(2) a] serve_frame_quiet [of ctx router "visible w" gz f] assms(1)
    by (auto split: if_splits)
qed

lemma proc_step_quiet:
  assumes "quiet (sv_ctx sv) router (app w)" and "proc_step sv router (ph, st, w) = (ph', st', w')"
  shows "app w' = app w"
proof (cases ph)
  case Reading
  have rr: "read_result idle data err (st, w1) = (r, (st1, w2)) \<Longrightarrow> w2 = w1" for idle data err w1 r st1 w2
    by (auto simp: read_result_def Let_def split: if_splits prod.splits option.splits)
  then show ?thesis using assms(2) Reading
    by (auto simp: Let_def split: list.splits prod.splits outcome.splits dest!: rr)
next
  case (Frames k)
  then show ?thesis using assms(2)
    by (auto split: sum.splits option.splits prod.splits outcome.splits dest: handle_frame_quiet [OF assms(1)])
qed (use assms(2) in simp)

text \<open>
  On such a state the connections do not notice each other: after any schedule each connection is
  where its own steps alone have brought it.
\<close>

lemma proc_steps_quiet:
  assumes "quiet (sv_ctx sv) router a" and "app (snd (snd p)) = a"
  shows "app (snd (snd (proc_steps sv router n p))) = a"
  using assms(2)
proof (induction n arbitrary: p)
  case (Suc n)
  obtain ph st w where p: "p = (ph, st, w)" by (cases p)
  obtain ph' st' w' where q: "proc_step sv router (ph, st, w) = (ph', st', w')" by (cases "proc_step sv router (ph, st, w)")
  have "app w' = a" using proc_step_quiet [OF _ q] assms(1) Suc.prems p by simp
  then show ?case using Suc.IH p q by (simp add: proc_steps_Suc)
qed simp

lemma sys_step_quiet:
  assumes "quiet (sv_ctx sv) router a" and "\<forall>p\<in>set ps. app (snd (snd p)) = a"
  shows "sys_step sv router i (ps, a) = (if i < length ps then ps[i := proc_step sv router (ps ! i)] else ps, a)"
proof (cases "i < length ps")
  case True
  obtain ph st w where p: "ps ! i = (ph, st, w)" by (cases "ps ! i")
  obtain ph' st' w' where q: "proc_step sv router (ph, st, w) = (ph', st', w')" by (cases "proc_step sv router (ph, st, w)")
  have a: "app w = a" using assms(2) nth_mem [OF True] p by fastforce
  then have "w\<lparr>app := a\<rparr> = w" by simp
  moreover have "app w' = a" using proc_step_quiet [OF _ q] assms(1) a by simp
  ultimately show ?thesis using True p q by (simp add: sys_step_def)
qed (simp add: sys_step_def)

lemma sys_run_isolated:
  assumes "quiet (sv_ctx sv) router a" and "\<forall>p\<in>set ps. app (snd (snd p)) = a"
  shows "sys_run sv router sched (ps, a) =
    (map (\<lambda>i. proc_steps sv router (count_list sched i) (ps ! i)) [0..<length ps], a)"
  using assms(2)
proof (induction sched arbitrary: ps)
  case Nil
  then show ?case by (simp add: sys_run_def map_nth)
next
  case (Cons i sched)
  let ?ps = "if i < length ps then ps[i := proc_step sv router (ps ! i)] else ps"
  have "app (snd (snd (proc_step sv router (ps ! i)))) = a" if "i < length ps"
    using proc_steps_quiet [OF assms(1), of "ps ! i" 1] Cons.prems nth_mem [OF that] by (simp add: proc_steps_Suc)
  then have q: "\<forall>p\<in>set ?ps. app (snd (snd p)) = a" using Cons.prems by (auto dest!: subsetD [OF set_update_subset_insert])
  have "sys_run sv router (i # sched) (ps, a) = sys_run sv router sched (?ps, a)"
    by (simp add: sys_run_def sys_step_quiet [OF assms(1) Cons.prems] split del: if_split)
  also have "\<dots> = (map (\<lambda>k. proc_steps sv router (count_list sched k) (?ps ! k)) [0..<length ps], a)"
    using Cons.IH [OF q] by (simp split: if_splits)
  also have "map (\<lambda>k. proc_steps sv router (count_list sched k) (?ps ! k)) [0..<length ps] =
      map (\<lambda>k. proc_steps sv router (count_list (i # sched) k) (ps ! k)) [0..<length ps]"
    by (intro map_cong) (auto simp: proc_steps_Suc)
  finally show ?case .
qed

section \<open>Many peers of the gateway\<close>

text \<open>What \<open>gateway_session\<close> asks of a peer and its connection: the chunks it sends, its requests, the world.\<close>

definition peer_ok :: "('ctx, 's) setup_state \<Rightarrow> 's \<Rightarrow>
    bytes list \<times> message list \<times> (('ctx, 's) dispatch_table \<times> 's) world \<Rightarrow> bool" where
  "peer_ok g s peer \<longleftrightarrow>
     (case peer of (cs, ms, w) \<Rightarrow>
        reads w = chunk_reads cs \<and> concat cs = concat (map wire_message ms) \<and> (\<forall>m\<in>set ms. fits m \<and> known m) \<and>
        length (concat cs) \<le> 256 * 1024 \<and> length ms \<le> 100 \<and> app w = (su_table g, s) \<and>
        (\<exists>ws. writes w = map (\<lambda>m. (length (wire_message (answer m)), None)) ms @ ws))"

definition answered :: "bytes list \<times> message list \<times> 's world \<Rightarrow> 's proc \<Rightarrow> bool" where
  "answered peer p \<longleftrightarrow>
     (case peer of (cs, ms, w) \<Rightarrow>
        (case p of (ph, st, w') \<Rightarrow>
           ph = Finished (Ok ()) \<and> sent w' = sent w @ concat (map (\<lambda>m. wire_message (answer m)) ms)))"

lemma peer_answered:
  assumes "wired (su_mapper g)" and "su_router g = NewRouter" and "server_setup g = (Ok (), g')"
    and "peer_ok g' s (cs, ms, w)"
  shows "\<exists>n. \<forall>k\<ge>n. answered (cs, ms, w) (proc_steps sv (su_router g') k (proc_start w))"
proof -
  obtain r st w' where h: "handleConn (sv_gzip sv) (sv_ctx sv) (Some (su_router g')) (sv_idle sv) (sv_write sv) w = (r, st, w')"
    by (metis prod_cases3)
  have p: "reads w = chunk_reads cs" "concat cs = concat (map wire_message ms)" "\<forall>m\<in>set ms. fits m \<and> known m"
    "length (concat cs) \<le> 256 * 1024" "length ms \<le> 100" "app w = (su_table g', s)"
    and "\<exists>ws. writes w = map (\<lambda>m. (length (wire_message (answer m)), None)) ms @ ws"
    using assms(4) unfolding peer_ok_def prod.case by blast+
  then obtain ws where ws: "writes w = map (\<lambda>m. (length (wire_message (answer m)), None)) ms @ ws" by blast
  have a: "r = Ok ()" "sent w' = sent w @ concat (map (\<lambda>m. wire_message (answer m)) ms)"
    using session_answers [OF assms(1-3) h p ws] by simp_all
  obtain n st1 where n: "proc_steps sv (su_router g') n (proc_start w) = (Finished r, st1, w')"
    using handleConn_steps [OF h] by blast
  have "answered (cs, ms, w) (proc_steps sv (su_router g') k (proc_start w))" if "n \<le> k" for k
    using proc_steps_more [OF n that] a by (simp add: answered_def)
  then show ?thesis by blast
qed

text \<open>
  C2: the gateway with any number of peers at once.  Whatever the goroutines' schedule, once each
  connection has been given enough steps, every peer has exactly the answers to its own requests, in
  order, its connection has ended without an error, and the state behind the router is unchanged.
\<close>

theorem gateway_concurrent:
  assumes "wired (su_mapper g)" and "su_router g = NewRouter" and "server_setup g = (Ok (), g')"
    and "\<forall>peer\<in>set peers. peer_ok g' s peer"
  shows "\<exists>N. \<forall>sched. (\<forall>i<length peers. N \<le> count_list sched i) \<longrightarrow>
    (\<exists>ps. sys_run sv (su_router g') sched (map (\<lambda>(cs, ms, w). proc_start w) peers, (su_table g', s)) =
        (ps, (su_table g', s)) \<and> list_all2 answered peers ps)"
proof -
  let ?a = "(su_table g', s)" and ?ps = "map (\<lambda>(cs, ms, w). proc_start w) peers"
  have g': "g' = wire g" using assms(1,3) server_setup_wire by fastforce
  have quiet: "quiet (sv_ctx sv) (su_router g') ?a"
    unfolding quiet_def using gateway_dispatch [OF assms(2)] by (simp add: g')
  have start: "\<forall>p\<in>set ?ps. app (snd (snd p)) = ?a"
    using assms(4) by (auto simp: proc_start_def time_now_def peer_ok_def)
  have "\<forall>peer\<in>set peers. \<exists>n. \<forall>k\<ge>n. answered peer (proc_steps sv (su_router g') k (case peer of (cs, ms, w) \<Rightarrow> proc_start w))"
  proof
    fix peer assume "peer \<in> set peers"
    then have "peer_ok g' s peer" using assms(4) by blast
    moreover obtain cs ms w where peer: "peer = (cs, ms, w)" by (cases peer)
    ultimately have "peer_ok g' s (cs, ms, w)" by simp
    from peer_answered [OF assms(1-3) this] show "\<exists>n. \<forall>k\<ge>n. answered peer (proc_steps sv (su_router g') k (case peer of (cs, ms, w) \<Rightarrow> proc_start w))"
      by (simp add: peer)
  qed
  then obtain f where f: "\<forall>peer\<in>set peers. \<forall>k\<ge>f peer.
      answered peer (proc_steps sv (su_router g') k (case peer of (cs, ms, w) \<Rightarrow> proc_start w))"
    by metis
  define N where "N = Max (insert 0 (f ` set peers))"
  have N: "f peer \<le> N" if "peer \<in> set peers" for peer using that unfolding N_def by (intro Max_ge) auto
  have "list_all2 answered peers (map (\<lambda>i. proc_steps sv (su_router g') (count_list sched i) (?ps ! i)) [0..<length ?ps])"
    if enough: "\<forall>i<length peers. N \<le> count_list sched i" for sched
  proof (rule list_all2_all_nthI)
    fix i assume i: "i < length peers"
    then have "f (peers ! i) \<le> count_list sched i" using N [of "peers ! i"] enough by (meson nth_mem order_trans)
    then show "answered (peers ! i) (map (\<lambda>i. proc_steps sv (su_router g') (count_list sched i) (?ps ! i)) [0..<length ?ps] ! i)"
      using f i nth_mem [OF i] by (simp add: case_prod_unfold)
  qed simp
  then show ?thesis using sys_run_isolated [OF quiet start] by blast
qed

definition demo_peers ::
  "(bytes list \<times> message list \<times> ((unit, unit) dispatch_table \<times> unit) world) list" where
  "demo_peers =
     (let ack = (length (wire_message (answer demo_ping)), None); a = (su_table (wire fresh_setup), ()) in
      [([take 5 (wire_message demo_ping), drop 5 (wire_message demo_ping)], [demo_ping],
        demo_world [take 5 (wire_message demo_ping), drop 5 (wire_message demo_ping)] [ack] a),
       ([wire_message demo_ping @ wire_message demo_ping], [demo_ping, demo_ping],
        demo_world [wire_message demo_ping @ wire_message demo_ping] [ack, ack] a)])"

lemma count_alternating: "count_list (concat (replicate n [0, Suc 0])) i = (if i < 2 then n else 0)"
  by (induction n) auto

theorem gateway_concurrent_witness:
  "\<exists>n ps. sys_run \<lparr>sv_gzip = stored_gzip, sv_ctx = (), sv_idle = 5, sv_write = 10\<rparr> (su_router (wire fresh_setup))
      (concat (replicate n [0, Suc 0]))
      (map (\<lambda>(cs, ms, w). proc_start w) demo_peers, (su_table (wire fresh_setup), ())) =
      (ps, (su_table (wire fresh_setup), ())) \<and> list_all2 answered demo_peers ps"
proof -
  let ?sv = "\<lparr>sv_gzip = stored_gzip, sv_ctx = (), sv_idle = 5, sv_write = 10\<rparr>"
  have w: "wired (su_mapper fresh_setup)" and n: "su_router fresh_setup = NewRouter"
    by (simp_all add: fresh_setup_def wired_init)
  have f: "fits demo_ping" "known demo_ping" by (simp_all add: fits_def known_def demo_ping_def MaxFrameBody_def)
  have len: "length (wire_message demo_ping) = 18" using length_wire_message [OF f(1)] by (simp add: demo_ping_def)
  have "\<forall>peer\<in>set demo_peers. peer_ok (wire fresh_setup) () peer"
    by (simp add: demo_peers_def peer_ok_def demo_world_def f len Let_def)
  from gateway_concurrent [OF w n server_setup_wire [OF w] this, of ?sv] obtain N where
    "\<forall>sched. (\<forall>i<length demo_peers. N \<le> count_list sched i) \<longrightarrow>
      (\<exists>ps. sys_run ?sv (su_router (wire fresh_setup)) sched (map (\<lambda>(cs, ms, w). proc_start w) demo_peers,
          (su_table (wire fresh_setup), ())) = (ps, (su_table (wire fresh_setup), ())) \<and> list_all2 answered demo_peers ps)"
    by blast
  moreover have "\<forall>i<length demo_peers. N \<le> count_list (concat (replicate N [0, Suc 0])) i"
    unfolding count_alternating by (simp add: demo_peers_def Let_def)
  ultimately show ?thesis by blast
qed

end
