(* ===== verification/RateLimit.thy ===== *)
theory RateLimit
  imports ConnContext
begin

text \<open>
  What the token bucket of \<open>conn_ctx.go\<close> guarantees a peer, the other side of the bound \<open>rate_limit\<close>:
  requests ten milliseconds apart are always accepted, but a rate of 100 per second is not enough, since
  a refill sets \<open>lastRefill\<close> to the present and forgets the time that did not make up a whole token.
\<close>

abbreviation (input) ms :: "int \<Rightarrow> int" where
  "ms x \<equiv> x * 1000000"

section \<open>Requests at least ten milliseconds apart\<close>

fun paced :: "int \<Rightarrow> int list \<Rightarrow> bool" where
  "paced t0 [] = True"
| "paced t0 (t # ts) = (t0 + ms 10 \<le> t \<and> t - t0 \<le> 2 ^ 55 \<and> paced t ts)"

lemma refill_paced:
  assumes "limiter_inv c" and "lastRefill c + ms 10 \<le> now" and "now - lastRefill c \<le> 2 ^ 55"
  shows "\<exists>add. 0 < add \<and> refill now c = c\<lparr>tokens := min (burst c) (tokens c + add), lastRefill := now\<rparr>"
proof -
  have c: "ctx_inv c" "rate c = 100" using assms(1) by (simp_all add: limiter_inv_def)
  have "0 < 100 * (now - lastRefill c) div Second"
    using assms(2) by (simp add: Second_def pos_imp_zdiv_pos_iff)
  then show ?thesis using refill_in_range [OF c _ assms(3)] assms(2) by (auto simp: Let_def)
qed

lemma Allow_paced:
  assumes "limiter_inv c" and "1 \<le> burst c" and "lastRefill c + ms 10 \<le> now" and "now - lastRefill c \<le> 2 ^ 55"
    and "Allow now c = (b, c')"
  shows "b \<and> limiter_inv c' \<and> burst c' = burst c \<and> lastRefill c' = now"
proof -
  obtain add where add: "0 < add" "refill now c = c\<lparr>tokens := min (burst c) (tokens c + add), lastRefill := now\<rparr>"
    using refill_paced [OF assms(1,3,4)] by blast
  define n where "n = min (burst c) (tokens c + add)"
  have "0 < n"
    using assms(1,2) add(1) by (auto simp: n_def limiter_inv_def ctx_inv_def)
  moreover have "limiter_inv c'" using assms(1) Allow_inv [OF _ assms(5)] Allow_frame [OF assms(5)]
    by (simp add: limiter_inv_def)
  ultimately show ?thesis using assms(5) by (auto simp: Allow_def add(2) n_def [symmetric] Let_def)
qed

lemma paced_accepted:
  assumes "limiter_inv c" and "1 \<le> burst c" and "paced (lastRefill c) ts"
  shows "fst (allow_run Allow ts c) = replicate (length ts) True"
  using assms
proof (induction ts arbitrary: c)
  case (Cons t ts)
  obtain b c1 where a: "Allow t c = (b, c1)" by (cases "Allow t c")
  have "lastRefill c + ms 10 \<le> t" "t - lastRefill c \<le> 2 ^ 55" "paced t ts" using Cons.prems(3) by simp_all
  with Allow_paced [OF Cons.prems(1,2) _ _ a] Cons.prems(2) have
    c1: "b" "limiter_inv c1" "1 \<le> burst c1" "paced (lastRefill c1) ts" by auto
  show ?case using Cons.IH [OF c1(2-4)] c1(1) a by (simp add: case_prod_beta Let_def)
qed simp

section \<open>A hundred requests per second\<close>

text \<open>Three requests every 30 ms: after 9, 19 and 30 of them.  They bring in two tokens.\<close>

fun steady :: "int \<Rightarrow> nat \<Rightarrow> int list" where
  "steady t0 0 = []"
| "steady t0 (Suc k) = [t0 + ms 9, t0 + ms 19, t0 + ms 30] @ steady (t0 + ms 30) k"

definition holding :: "int \<Rightarrow> int \<Rightarrow> conn_context" where
  "holding t n = (NewConnContext t)\<lparr>tokens := n\<rparr>"

lemma Allow_holding:
  assumes "0 \<le> n" and "n \<le> 100" and "0 \<le> d" and "d \<le> 100000000"
  shows "Allow (t + d) (holding t n) =
    (let add = d div 10000000; c = (if 0 < add then holding (t + d) (n + add) else holding t n) in
     if tokens c \<le> 0 then (False, c) else (True, holding (lastRefill c) (tokens c - 1)))"
proof -
  have w: "wrap64 d = d" "wrap64 (d * 100) = d * 100" using assms by (auto intro!: wrap64_id)
  have "go_quot (d * 100) Second = d * 100 div Second"
    using assms by (intro go_quot_nonneg) (simp_all add: Second_def)
  also have "\<dots> = d div 10000000" by (simp add: Second_def)
  finally have q: "go_quot (d * 100) Second = d div 10000000" .
  have "d div 10000000 \<le> 10" using assms by (simp add: zdiv_mono1 [of d 100000000 10000000, simplified])
  moreover have "0 \<le> d div 10000000" using assms by (simp add: pos_imp_zdiv_nonneg_iff)
  ultimately have s: "wrap64 (n + d div 10000000) = n + d div 10000000"
    "\<And>x. 0 < x \<Longrightarrow> x \<le> 110 \<Longrightarrow> wrap64 (x - 1) = x - 1" "n + d div 10000000 \<le> 110" "n + d div 10000000 \<le> 200"
    using assms by (auto intro!: wrap64_id)
  show ?thesis using assms
    by (auto simp: Allow_def refill_def holding_def NewConnContext_def w q s Let_def)
qed

lemma steady_cycle:
  assumes "1 \<le> n" and "n \<le> 100"
  shows "allow_run Allow (steady t (Suc k)) (holding t n) =
    (case allow_run Allow (steady (t + ms 30) k) (holding (t + ms 30) (n - 1)) of (bs, c) \<Rightarrow> (True # True # True # bs, c))"
proof -
  have 1: "Allow (t + 9000000) (holding t n) = (True, holding t (n - 1))"
    using assms Allow_holding [of n 9000000 t] by (simp add: Let_def) (simp add: holding_def NewConnContext_def)
  have 2: "Allow (t + 19000000) (holding t (n - 1)) = (True, holding (t + 19000000) (n - 1))"
    using assms Allow_holding [of "n - 1" 19000000 t] by (simp add: Let_def) (simp add: holding_def NewConnContext_def)
  have 3: "Allow (t + 30000000) (holding (t + 19000000) (n - 1)) = (True, holding (t + 30000000) (n - 1))"
    using assms Allow_holding [of "n - 1" 11000000 "t + 19000000"]
    by (simp add: Let_def) (simp add: holding_def NewConnContext_def add.commute)
  show ?thesis by (simp add: 1 2 3 Let_def case_prod_beta)
qed

lemma steady_run:
  "int k \<le> n \<Longrightarrow> n \<le> 100 \<Longrightarrow>
    allow_run Allow (steady t k) (holding t n) = (replicate (3 * k) True, holding (t + ms (30 * int k)) (n - int k))"
proof (induction k arbitrary: t n)
  case (Suc k)
  have three: "3 * Suc k = Suc (Suc (Suc (3 * k)))" by simp
  have "allow_run Allow (steady (t + ms 30) k) (holding (t + ms 30) (n - 1)) =
      (replicate (3 * k) True, holding (t + ms (30 * int (Suc k))) (n - int (Suc k)))"
    using Suc.prems Suc.IH [of "n - 1" "t + ms 30"] by (simp add: algebra_simps)
  then show ?case using Suc.prems unfolding three replicate_Suc
    by (simp add: steady_cycle del: steady.simps)
qed simp

section \<open>Properties\<close>

lemma steady_times:
  "length (steady t0 k) = 3 * k" "\<forall>t\<in>set (steady t0 k). t0 \<le> t \<and> t \<le> t0 + ms (30 * int k)"
  "sorted (steady t0 k)"
  "i < 3 * k \<Longrightarrow> ms (10 * int (Suc i)) \<le> steady t0 k ! i - t0 + ms 1"
proof -
  show len: "length (steady t0 k) = 3 * k" for t0 k by (induction k arbitrary: t0) simp_all
  show range: "\<forall>t\<in>set (steady t0 k). t0 \<le> t \<and> t \<le> t0 + ms (30 * int k)" for t0 k
    by (induction k arbitrary: t0) fastforce+
  show "sorted (steady t0 k)"
    using range by (induction k arbitrary: t0) fastforce+
  show "ms (10 * int (Suc i)) \<le> steady t0 k ! i - t0 + ms 1" if "i < 3 * k" for i
    using that
  proof (induction k arbitrary: t0 i)
    case (Suc k)
    consider "i = 0" | "i = 1" | "i = 2" | "3 \<le> i" by linarith
    then show ?case
    proof cases
      case 4
      then obtain j where "i = 3 + j" by (meson le_Suc_ex)
      then show ?thesis using Suc.IH [of j "t0 + ms 30"] Suc.prems by (simp add: nth_Cons')
    qed simp_all
  qed simp
qed

text \<open>
  The same bucket with a refill that keeps the time it has not turned into tokens: \<open>lastRefill\<close> moves by
  the time of the tokens added.  It serves as the reference for what the rate alone would allow.
\<close>

definition refill_exact :: "int \<Rightarrow> conn_context \<Rightarrow> conn_context" where
  "refill_exact now c =
     (let add = (now - lastRefill c) * rate c div Second in
      if add > 0 then c\<lparr>tokens := min (burst c) (tokens c + add), lastRefill := lastRefill c + add * Second div rate c\<rparr>
      else c)"

definition Allow_exact :: "int \<Rightarrow> conn_context \<Rightarrow> bool \<times> conn_context" where
  "Allow_exact now c =
     (let c = refill_exact now c in if tokens c \<le> 0 then (False, c) else (True, c\<lparr>tokens := tokens c - 1\<rparr>))"

lemma Allow_exact_holding:
  assumes "0 \<le> n" and "n \<le> 100" and "0 \<le> d" and "d \<le> 100000000"
  shows "Allow_exact (t + d) (holding t n) =
    (let add = d div 10000000; c = (if 0 < add then holding (t + add * 10000000) (n + add) else holding t n) in
     if tokens c \<le> 0 then (False, c) else (True, holding (lastRefill c) (tokens c - 1)))"
proof -
  have "d * 100 div Second = d div 10000000" by (simp add: Second_def)
  moreover have "d div 10000000 \<le> 10" using assms by (simp add: zdiv_mono1 [of d 100000000 10000000, simplified])
  moreover have "add * Second div 100 = add * 10000000" for add by (simp add: Second_def)
  ultimately show ?thesis using assms
    by (simp add: Allow_exact_def refill_exact_def holding_def NewConnContext_def Let_def)
qed

lemma exact_cycle:
  assumes "1 \<le> n" and "n \<le> 100"
  shows "allow_run Allow_exact (steady t (Suc k)) (holding t n) =
    (case allow_run Allow_exact (steady (t + ms 30) k) (holding (t + ms 30) n) of (bs, c) \<Rightarrow> (True # True # True # bs, c))"
proof -
  have 1: "Allow_exact (t + 9000000) (holding t n) = (True, holding t (n - 1))"
    using assms Allow_exact_holding [of n 9000000 t] by (simp add: Let_def) (simp add: holding_def NewConnContext_def)
  have 2: "Allow_exact (t + 19000000) (holding t (n - 1)) = (True, holding (t + 10000000) (n - 1))"
    using assms Allow_exact_holding [of "n - 1" 19000000 t] by (simp add: Let_def) (simp add: holding_def NewConnContext_def)
  have 3: "Allow_exact (t + 30000000) (holding (t + 10000000) (n - 1)) = (True, holding (t + 30000000) n)"
    using assms Allow_exact_holding [of "n - 1" 20000000 "t + 10000000"]
    by (simp add: Let_def) (simp add: holding_def NewConnContext_def add.commute)
  show ?thesis by (simp add: 1 2 3 Let_def case_prod_beta)
qed

lemma exact_run:
  "1 \<le> n \<Longrightarrow> n \<le> 100 \<Longrightarrow>
    allow_run Allow_exact (steady t k) (holding t n) = (replicate (3 * k) True, holding (t + ms (30 * int k)) n)"
proof (induction k arbitrary: t)
  case (Suc k)
  have three: "3 * Suc k = Suc (Suc (Suc (3 * k)))" by simp
  have "allow_run Allow_exact (steady (t + ms 30) k) (holding (t + ms 30) n) =
      (replicate (3 * k) True, holding (t + ms (30 * int (Suc k))) n)"
    using Suc.prems Suc.IH [of "t + ms 30"] by (simp add: algebra_simps)
  then show ?case using Suc.prems unfolding three replicate_Suc
    by (simp add: exact_cycle del: steady.simps)
qed simp

text \<open>301 requests in 3.009 seconds, three in every 30 ms.\<close>

definition hundred_per_second :: "int \<Rightarrow> int list" where
  "hundred_per_second t0 = steady t0 100 @ [t0 + ms 3009]"

text \<open>
  C29: what the rate limiter guarantees, and what it does not.  Requests at least ten milliseconds apart
  are all accepted, however many they are.  But a peer that keeps to 100 requests per second can be
  refused: of the 301 requests of \<open>hundred_per_second\<close>, all within 3009 ms and none of them more than a
  millisecond ahead of that rate, the first 300 are accepted and the last is refused, although the
  bucket starts with 100 tokens to spare.  The cause is the refill, which sets \<open>lastRefill\<close> to the
  present and forgets the time that made no whole token: the same bucket with a refill that keeps this
  time accepts all of them.
\<close>

theorem rate_guarantee:
  assumes "paced t0 ts"
  shows "fst (allow_run Allow ts (NewConnContext t0)) = replicate (length ts) True \<and>
    length (hundred_per_second t0) = 301 \<and> sorted (t0 # hundred_per_second t0) \<and>
    (\<forall>i<301. ms (10 * int (Suc i)) \<le> hundred_per_second t0 ! i - t0 + ms 1 \<and>
       hundred_per_second t0 ! i \<le> t0 + ms 3009) \<and>
    fst (allow_run Allow (hundred_per_second t0) (NewConnContext t0)) = replicate 300 True @ [False] \<and>
    fst (allow_run Allow_exact (hundred_per_second t0) (NewConnContext t0)) = replicate 301 True"
proof -
  let ?us = "hundred_per_second t0"
  have start: "NewConnContext t0 = holding t0 100" by (simp add: holding_def NewConnContext_def)
  have "Allow (t0 + 3009000000) (holding (t0 + 3000000000) 0) = (False, holding (t0 + 3000000000) 0)"
    using Allow_holding [of 0 9000000 "t0 + 3000000000"]
    by (simp add: Let_def) (simp add: holding_def NewConnContext_def add.commute)
  then have "fst (allow_run Allow ?us (NewConnContext t0)) = replicate 300 True @ [False]"
    using steady_run [of 100 100 t0]
    by (simp add: hundred_per_second_def allow_run_append start del: steady.simps)
  moreover have "Allow_exact (t0 + 3009000000) (holding (t0 + 3000000000) 100) = (True, holding (t0 + 3000000000) 99)"
    using Allow_exact_holding [of 100 9000000 "t0 + 3000000000"]
    by (simp add: Let_def) (simp add: holding_def NewConnContext_def add.commute)
  then have "fst (allow_run Allow_exact ?us (NewConnContext t0)) = replicate 301 True"
    using exact_run [of 100 t0 100]
    by (simp add: hundred_per_second_def allow_run_append start replicate_app_Cons_same
        flip: replicate_Suc del: steady.simps)
  moreover have "sorted (t0 # ?us)"
    using steady_times(2,3) [of t0 100] by (fastforce simp: hundred_per_second_def sorted_append)
  moreover have "\<forall>i<301. ms (10 * int (Suc i)) \<le> ?us ! i - t0 + ms 1"
    using steady_times(1) [of t0 100] steady_times(4) [of _ 100 t0]
    by (auto simp: hundred_per_second_def nth_append not_less less_Suc_eq)
  moreover have len: "length ?us = 301" by (simp add: hundred_per_second_def steady_times(1))
  moreover have "\<forall>i<301. ?us ! i \<le> t0 + ms 3009"
  proof -
    have "\<forall>x\<in>set ?us. x \<le> t0 + ms 3009"
      using steady_times(2) [of t0 100] by (fastforce simp: hundred_per_second_def)
    then show ?thesis using len by (metis nth_mem)
  qed
  moreover have "fst (allow_run Allow ts (NewConnContext t0)) = replicate (length ts) True"
    using assms by (intro paced_accepted) (simp_all add: NewConnContext_def limiter_inv_def ctx_inv_def)
  ultimately show ?thesis by blast
qed

theorem rate_guarantee_witness:
  "fst (allow_run Allow [10000000, 25000000] (NewConnContext 0)) = [True, True] \<and>
   last (fst (allow_run Allow (hundred_per_second 0) (NewConnContext 0))) = False \<and>
   last (fst (allow_run Allow_exact (hundred_per_second 0) (NewConnContext 0))) = True"
  using rate_guarantee [of 0 "[10000000, 25000000]"] by simp

end
