(* ===== verification/Codec.thy ===== *)
theory Codec
  imports Compress Message Mapper GoNumbers
begin

text \<open>
  \<open>internal/codec/message_codec.go\<close>: the kitex codec that carries an RPC message as one protocol
  frame.  A kitex message is the record \<open>rpc_message\<close>: the invocation's service, method and sequence
  number, the value behind \<open>msg.Data()\<close>, the tags and the payload length.  Kitex's \<open>ByteBuffer\<close> is a
  parameter: the record \<open>byte_buffer\<close> of its three operations over a state of its own.
\<close>

section \<open>Messages and buffers\<close>

datatype rpc_data =
    Bytes bytes
  | BytesPtr "bytes option"
  | IfacePtr "rpc_data option"
  | NoData
  | OtherData string

datatype tag_value =
    TagU8 "8 word" | TagU16 "16 word" | TagU32 "32 word" | TagU64 "64 word"
  | TagInt "64 word" | TagI32 "32 word" | TagI64 "64 word"
  | TagString string | TagOther

record rpc_message =
  service_name :: string
  method_name :: string
  seq_id :: "32 word"
  rpc_payload :: rpc_data
  tags :: "(string \<rightharpoonup> tag_value) option"
  payload_len :: int

record 'b byte_buffer =
  write_binary :: "bytes \<Rightarrow> 'b \<Rightarrow> go_err option \<times> 'b"
  readable_len :: "'b \<Rightarrow> int"
  read_binary :: "nat \<Rightarrow> 'b \<Rightarrow> (go_err + bytes) \<times> 'b"

datatype codec_error =
    MapperErr mapper_error
  | UnsupportedData rpc_data
  | CodecMessageErr message_error
  | CodecBodyErr body_error
  | CodecFrameErr frame_error
  | EmptyInput
  | IncompleteFrame
  | BufferErr go_err

section \<open>Flags\<close>

text \<open>The integer cases truncate to eight bits; a missing tag is the \<open>nil\<close> of the default case.\<close>

fun parseFlags :: "tag_value option \<Rightarrow> byte" where
  "parseFlags (Some (TagU8 x)) = x"
| "parseFlags (Some (TagU16 x)) = ucast x"
| "parseFlags (Some (TagU32 x)) = ucast x"
| "parseFlags (Some (TagU64 x)) = ucast x"
| "parseFlags (Some (TagInt x)) = ucast x"
| "parseFlags (Some (TagI32 x)) = ucast x"
| "parseFlags (Some (TagI64 x)) = ucast x"
| "parseFlags (Some (TagString x)) =
     (case ParseUint0 8 x of Inr u \<Rightarrow> of_nat u | Inl _ \<Rightarrow> 0)"
| "parseFlags (Some TagOther) = 0"
| "parseFlags None = 0"

section \<open>Encoding\<close>

fun encode_payload :: "rpc_data \<Rightarrow> codec_error + bytes" where
  "encode_payload (Bytes v) = Inr v"
| "encode_payload (BytesPtr (Some v)) = Inr v"
| "encode_payload (BytesPtr None) = Inr []"
| "encode_payload NoData = Inr []"
| "encode_payload v = Inl (UnsupportedData v)"

fun to_outcome :: "('e \<Rightarrow> 'f) \<Rightarrow> 'e + 'a \<Rightarrow> ('f, 'a) outcome" where
  "to_outcome c (Inl e) = Fail (c e)"
| "to_outcome c (Inr x) = Ok x"

text \<open>\<open>uint64(inv.SeqID())\<close> extends the sign of the 32-bit sequence number.\<close>

definition codec_Encode ::
  "gzip \<Rightarrow> mapper \<Rightarrow> 'b byte_buffer \<Rightarrow> rpc_message \<Rightarrow> 'b \<Rightarrow> (codec_error, unit) outcome \<times> 'b" where
  "codec_Encode gz maps bb msg out =
     (let fullMethod = service_name msg @ ''.'' @ method_name msg in
      and_then
        (case MapMethodToCommand fullMethod maps of
           Ok cmd \<Rightarrow> Ok cmd | Fail e \<Rightarrow> Fail (MapperErr e) | Panic p \<Rightarrow> Panic p | Hang \<Rightarrow> Hang, out)
        (\<lambda>cmd out.
      and_then (to_outcome id (encode_payload (rpc_payload msg)), out) (\<lambda>payload out.
      let myMsg = \<lparr>msg_command = cmd, msg_request_id = scast (seq_id msg), msg_payload = payload\<rparr> in
      and_then (to_outcome CodecMessageErr (encode_message myMsg), out) (\<lambda>data out.
      let flags = (case tags msg of None \<Rightarrow> 0 | Some ts \<Rightarrow> parseFlags (ts ''novagate.flags'')) in
      and_then (to_outcome CodecBodyErr (encode_frame_body gz flags data), out) (\<lambda>fb out.
      and_then (encode \<lparr>fr_version = 0, fr_flags = fst fb, fr_body = snd fb\<rparr>, out)
        (\<lambda>frameBytes out.
      (case write_binary bb frameBytes out of
         (Some e, out) \<Rightarrow> (Fail (BufferErr e), out)
       | (None, out) \<Rightarrow> (Ok (), out))))))))"

lemma to_outcome_Ok [simp]: "to_outcome c x = Ok y \<longleftrightarrow> x = Inr y"
  by (cases x) simp_all

lemma call_Ok:
  "(case x of (None, out) \<Rightarrow> (Ok (), out) | (Some e, out) \<Rightarrow> (Fail (BufferErr e), out)) = (Ok (), b) \<longleftrightarrow>
    x = (None, b)"
  "(case m of Ok cmd \<Rightarrow> Ok cmd | Fail e \<Rightarrow> Fail (MapperErr e) | Panic p \<Rightarrow> Panic p | Hang \<Rightarrow> Hang) = Ok c \<longleftrightarrow>
    m = Ok c"
  by (auto split: prod.splits option.splits outcome.splits)

section \<open>Decoding\<close>

fun store_payload :: "bytes \<Rightarrow> rpc_data \<Rightarrow> rpc_data" where
  "store_payload p (BytesPtr (Some _)) = BytesPtr (Some p)"
| "store_payload p (IfacePtr (Some _)) = IfacePtr (Some (Bytes p))"
| "store_payload p d = d"

definition codec_Decode ::
  "gzip \<Rightarrow> 'b byte_buffer \<Rightarrow> rpc_message \<Rightarrow> 'b \<Rightarrow> (codec_error, unit) outcome \<times> rpc_message \<times> 'b" where
  "codec_Decode gz bb msg inp =
     (let readable = readable_len bb inp in
      if readable \<le> 0 then (Fail EmptyInput, msg, inp)
      else
        (case read_binary bb (nat readable) inp of
           (Inl e, inp) \<Rightarrow> (Fail (BufferErr e), msg, inp)
         | (Inr buf, inp) \<Rightarrow>
             (case decode buf of
                Inl e \<Rightarrow> (Fail (CodecFrameErr e), msg, inp)
              | Inr None \<Rightarrow> (Fail IncompleteFrame, msg, inp)
              | Inr (Some (frame, _)) \<Rightarrow>
                  (case decode_frame_body gz (Some frame) of
                     Inl e \<Rightarrow> (Fail (CodecBodyErr e), msg, inp)
                   | Inr body \<Rightarrow>
                       (case decode_message body of
                          Inl e \<Rightarrow> (Fail (CodecMessageErr e), msg, inp)
                        | Inr myMsg \<Rightarrow>
                            let msg = msg\<lparr>rpc_payload := store_payload (msg_payload myMsg) (rpc_payload msg),
                                          payload_len := int (length (msg_payload myMsg))\<rparr>;
                                msg = (case tags msg of
                                         None \<Rightarrow> msg
                                       | Some ts \<Rightarrow> msg\<lparr>tags := Some (ts
                                           (''novagate.command'' \<mapsto> TagU16 (msg_command myMsg),
                                            ''novagate.request_id'' \<mapsto> TagU64 (msg_request_id myMsg),
                                            ''novagate.flags'' \<mapsto> TagU8 (fr_flags frame)))\<rparr>)
                            in (Ok (), msg, inp))))))"

section \<open>What kitex documents of a buffer\<close>

text \<open>
  \<open>content\<close> is what is left to read: \<open>WriteBinary\<close> appends to it, \<open>ReadableLen\<close> is its length, and
  \<open>ReadBinary\<close> into a slice of that length takes all of it.
\<close>

definition buffer_laws :: "'b byte_buffer \<Rightarrow> ('b \<Rightarrow> bytes) \<Rightarrow> bool" where
  "buffer_laws bb content \<longleftrightarrow>
     (\<forall>d b. fst (write_binary bb d b) = None \<longrightarrow> content (snd (write_binary bb d b)) = content b @ d) \<and>
     (\<forall>b. readable_len bb b = int (length (content b))) \<and>
     (\<forall>n b. n \<le> length (content b) \<longrightarrow>
        fst (read_binary bb n b) = Inr (take n (content b)) \<and>
        content (snd (read_binary bb n b)) = drop n (content b))"

definition list_buffer :: "bytes byte_buffer" where
  "list_buffer = \<lparr>write_binary = (\<lambda>d b. (None, b @ d)), readable_len = (\<lambda>b. int (length b)),
     read_binary = (\<lambda>n b. (Inr (take n b), drop n b))\<rparr>"

lemma list_buffer_laws: "buffer_laws list_buffer id"
  by (simp add: buffer_laws_def list_buffer_def)

text \<open>\<open>Decode\<close> on a buffer that starts with the frame of a message.\<close>

lemma decode_frame_wire:
  assumes "gzip_round_trip gz" and "buffer_laws bb content"
    and "encode_message m = Inr data" and "encode_frame_body gz fl data = Inr fb"
    and "encode \<lparr>fr_version = 0, fr_flags = fst fb, fr_body = snd fb\<rparr> = Ok w"
    and "length data \<le> MaxFrameBody" and "content inp = w @ extra"
    and "codec_Decode gz bb msg inp = (r, msg', inp')"
  shows "r = Ok () \<and> content inp' = [] \<and>
    rpc_payload msg' = store_payload (msg_payload m) (rpc_payload msg) \<and>
    payload_len msg' = int (length (msg_payload m)) \<and>
    tags msg' = map_option (\<lambda>ts. ts(''novagate.command'' \<mapsto> TagU16 (msg_command m),
        ''novagate.request_id'' \<mapsto> TagU64 (msg_request_id m), ''novagate.flags'' \<mapsto> TagU8 fl)) (tags msg)"
proof -
  let ?f = "\<lparr>fr_version = FrameVersion, fr_flags = fst fb, fr_body = snd fb\<rparr>"
  have d: "decode (w @ extra) = Inr (Some (?f, length w))"
    using decode_encoded [OF assms(5), of extra] by simp
  have b: "fst fb = fl" "decode_frame_body gz (Some ?f) = Inr data"
    using body_round_trip [OF assms(1,6), of fl "fst fb" "snd fb" FrameVersion] assms(4)
    unfolding prod.collapse by blast+
  have m: "decode_message data = Inr m"
    using assms(3) decode_message_bytes [of "msg_command m" "msg_request_id m" "msg_payload m"]
    by (simp add: encode_message_def)
  obtain n where n: "n = length (w @ extra)" by simp
  have "0 < n" using assms(5) by (auto simp: encode_Ok_iff n)
  moreover obtain c' where "read_binary bb n inp = (Inr (w @ extra), c')" "content c' = []"
    using assms(2,7) unfolding buffer_laws_def n
    by (metis drop_all order_refl prod.collapse take_all)
  moreover have "readable_len bb inp = int n"
    using assms(2,7) by (simp add: buffer_laws_def n)
  ultimately show ?thesis using assms(8) d b m
    by (cases "tags msg") (auto simp: codec_Decode_def)
qed

section \<open>Properties\<close>

text \<open>
  C21: an RPC message round trips through the codec: what \<open>Encode\<close> wrote into an empty buffer,
  \<open>Decode\<close> delivers to the receiving message (payload, length, and the command, the sign-extended
  sequence number and the flags as tags), compressed or not.  \<open>Decode\<close> takes everything that is
  readable: whatever followed the frame in the buffer is lost.
\<close>

theorem codec_round_trip:
  assumes "gzip_round_trip gz" and "buffer_laws bb content" and "content out = []"
    and "codec_Encode gz maps bb msg out = (Ok (), out')"
    and "encode_payload (rpc_payload msg) = Inr payload" and "10 + length payload \<le> MaxFrameBody"
    and "content inp = content out' @ extra" and "codec_Decode gz bb reply inp = (r, reply', inp')"
  shows "r = Ok () \<and> content inp' = [] \<and>
    rpc_payload reply' = store_payload payload (rpc_payload reply) \<and>
    payload_len reply' = int (length payload) \<and>
    (\<exists>cmd. MapMethodToCommand (service_name msg @ ''.'' @ method_name msg) maps = Ok cmd \<and>
      tags reply' = map_option (\<lambda>ts. ts(''novagate.command'' \<mapsto> TagU16 cmd,
        ''novagate.request_id'' \<mapsto> TagU64 (scast (seq_id msg)),
        ''novagate.flags'' \<mapsto> TagU8 (case tags msg of None \<Rightarrow> 0 | Some ts \<Rightarrow> parseFlags (ts ''novagate.flags''))))
        (tags reply))"
proof -
  let ?fl = "case tags msg of None \<Rightarrow> 0 | Some ts \<Rightarrow> parseFlags (ts ''novagate.flags'')"
  from assms(4,5) obtain cmd data fb w where e:
    "MapMethodToCommand (service_name msg @ ''.'' @ method_name msg) maps = Ok cmd"
    "encode_message \<lparr>msg_command = cmd, msg_request_id = scast (seq_id msg), msg_payload = payload\<rparr> = Inr data"
    "encode_frame_body gz ?fl data = Inr fb"
    "(encode \<lparr>fr_version = 0, fr_flags = fst fb, fr_body = snd fb\<rparr> :: (codec_error, bytes) outcome) = Ok w"
    "write_binary bb w out = (None, out')"
    unfolding codec_Encode_def Let_def and_then_Ok_iff prod.inject call_Ok to_outcome_Ok id_apply
    by auto
  have "content out' = w" using e(5) assms(2,3) unfolding buffer_laws_def by (metis append_Nil fst_conv snd_conv)
  then have inp: "content inp = w @ extra" using assms(7) by simp
  have len: "length data \<le> MaxFrameBody" using e(2) assms(6) by (auto simp: encode_message_def)
  from decode_frame_wire [OF assms(1,2) e(2,3,4) len inp assms(8)] e(1) show ?thesis by auto
qed

definition demo_rpc :: rpc_message where
  "demo_rpc = \<lparr>service_name = ''N'', method_name = ''P'', seq_id = -1, rpc_payload = Bytes [104, 105],
     tags = Some [''novagate.flags'' \<mapsto> TagString ''0x01''], payload_len = 0\<rparr>"

theorem codec_round_trip_witness:
  "rpc_payload (fst (snd (codec_Decode stored_gzip list_buffer
      (demo_rpc\<lparr>rpc_payload := BytesPtr (Some [])\<rparr>)
      (snd (codec_Encode stored_gzip init_mapper list_buffer demo_rpc []) @ [0xCA])))) = BytesPtr (Some [104, 105])"
proof -
  obtain r out' where enc: "codec_Encode stored_gzip init_mapper list_buffer demo_rpc [] = (r, out')"
    by fastforce
  have r: "r = Ok ()"
    using enc by (auto simp: codec_Encode_def demo_rpc_def MapMethodToCommand_def split_ping init_mapper_def
        parse_eval encode_frame_body_def validate_flags_def flag_defs gzip_compress_def stored_gzip_def
        encode_message_def encode_def MaxFrameBody_def list_buffer_def Let_def)
  obtain r2 reply inp' where dec: "codec_Decode stored_gzip list_buffer
      (demo_rpc\<lparr>rpc_payload := BytesPtr (Some [])\<rparr>) (out' @ [0xCA]) = (r2, reply, inp')"
    by (metis surj_pair)
  from codec_round_trip [OF stored_gzip_round_trip list_buffer_laws _ enc [unfolded r], of "[104, 105]"]
  have "rpc_payload reply = BytesPtr (Some [104, 105])"
    using dec by (simp add: demo_rpc_def MaxFrameBody_def)
  then show ?thesis using enc dec by simp
qed

end
