(* ===== verification/Client.thy ===== *)
theory Client
  imports Session Codec
begin

text \<open>
  \<open>cmd/client/main.go\<close>: the command-line client.  It sends one request as a frame and, unless the
  frame is one-way, reads until the first frame is complete and reports its message.  A connection is
  the list of its future read results, the function that answers a write, and what was sent; a
  connection without a further result blocks.  Dialling and the printed output are the arguments and
  the results of \<open>client_run\<close>.
\<close>

record client_conn =
  conn_reads :: "(bytes \<times> go_err option) list"
  conn_write :: "bytes \<Rightarrow> go_err option"
  conn_sent :: bytes
  read_deadline :: "int option"

record clientConfig =
  cc_addr :: string
  cc_cmdHex :: string
  cc_flagsHex :: string
  cc_payload :: bytes
  cc_reqID :: "64 word"

datatype client_error =
    BadNumber parse_error
  | DialErr go_err
  | ClientMessageErr message_error
  | ClientBodyErr body_error
  | ClientFrameErr frame_error
  | ConnErr go_err

datatype client_output =
    SentOneWay message
  | Response message

definition parseCommandAndFlags :: "string \<Rightarrow> string \<Rightarrow> client_error + (16 word \<times> byte)" where
  "parseCommandAndFlags cmdHex flagsHex =
     (case ParseUint0 16 cmdHex of
        Inl e \<Rightarrow> Inl (BadNumber e)
      | Inr cmdParsed \<Rightarrow>
          (case ParseUint0 8 flagsHex of
             Inl e \<Rightarrow> Inl (BadNumber e)
           | Inr flagsParsed \<Rightarrow> Inr (of_nat cmdParsed, of_nat flagsParsed)))"

definition sendRequest ::
  "gzip \<Rightarrow> byte \<Rightarrow> message \<Rightarrow> client_conn \<Rightarrow> (client_error, unit) outcome \<times> client_conn" where
  "sendRequest gz flags req conn =
     and_then (to_outcome ClientMessageErr (encode_message req), conn) (\<lambda>msgBytes conn.
     and_then (to_outcome ClientBodyErr (encode_frame_body gz flags msgBytes), conn) (\<lambda>fb conn.
     and_then (encode \<lparr>fr_version = 0, fr_flags = fst fb, fr_body = snd fb\<rparr>, conn)
       (\<lambda>frameBytes conn.
     (case conn_write conn frameBytes of
        Some e \<Rightarrow> (Fail (ConnErr e), conn)
      | None \<Rightarrow> (Ok (), conn\<lparr>conn_sent := conn_sent conn @ frameBytes\<rparr>)))))"

text \<open>What is returned once a frame is complete.\<close>

definition frame_message :: "gzip \<Rightarrow> frame \<Rightarrow> (client_error, message) outcome" where
  "frame_message gz frame =
     (case decode_frame_body gz (Some frame) of
        Inl e \<Rightarrow> Fail (ClientBodyErr e)
      | Inr respBody \<Rightarrow> to_outcome ClientMessageErr (decode_message respBody))"

text \<open>The loop of \<open>readResponse\<close>; \<open>tmp\<close> holds 2048 bytes, so a read returns at most that many.\<close>

fun read_loop ::
  "gzip \<Rightarrow> bytes \<Rightarrow> (bytes \<times> go_err option) list \<Rightarrow>
   (client_error, message) outcome \<times> (bytes \<times> go_err option) list" where
  "read_loop gz b [] = (Hang, [])"
| "read_loop gz b ((data, err) # rs) =
     (let data = take 2048 data;
          b = b @ data in
      case (if data \<noteq> [] then decode b else Inr None) of
        Inl derr \<Rightarrow> (Fail (ClientFrameErr derr), rs)
      | Inr (Some (frame, _)) \<Rightarrow> (frame_message gz frame, rs)
      | Inr None \<Rightarrow>
          (case err of
             Some e \<Rightarrow> (Fail (ConnErr e), rs)
           | None \<Rightarrow> read_loop gz b rs))"

definition readResponse ::
  "gzip \<Rightarrow> int \<Rightarrow> int \<Rightarrow> client_conn \<Rightarrow> (client_error, message) outcome \<times> client_conn" where
  "readResponse gz now timeout conn =
     (let conn = conn\<lparr>read_deadline := Some (now + timeout)\<rparr> in
      case read_loop gz [] (conn_reads conn) of
        (r, rs) \<Rightarrow> (r, conn\<lparr>conn_reads := rs\<rparr>))"

text \<open>\<open>run\<close>, after the flags are parsed; \<open>dialled\<close> is the result of \<open>dial\<close>.\<close>

definition client_run ::
  "gzip \<Rightarrow> int \<Rightarrow> clientConfig \<Rightarrow> go_err + client_conn \<Rightarrow>
   (client_error, client_output) outcome \<times> client_conn option" where
  "client_run gz now cfg dialled =
     (case parseCommandAndFlags (cc_cmdHex cfg) (cc_flagsHex cfg) of
        Inl e \<Rightarrow> (Fail e, None)
      | Inr (cmd, flags) \<Rightarrow>
          (case dialled of
             Inl e \<Rightarrow> (Fail (DialErr e), None)
           | Inr conn \<Rightarrow>
               let req = \<lparr>msg_command = cmd, msg_request_id = cc_reqID cfg, msg_payload = cc_payload cfg\<rparr> in
               (case and_then (sendRequest gz flags req conn) (\<lambda>_ conn.
                       if flags AND FlagOneWay \<noteq> 0 then (Ok (SentOneWay req), conn)
                       else and_then (readResponse gz now 3000000000 conn) (\<lambda>resp conn. (Ok (Response resp), conn)))
                of (r, conn) \<Rightarrow> (r, Some conn))))"

section \<open>The numbers on the command line\<close>

lemma parseCommandAndFlags_exact:
  assumes "parseCommandAndFlags c f = Inr (cmd, flags)"
  shows "ParseUint0 16 c = Inr (unat cmd) \<and> ParseUint0 8 f = Inr (unat flags)"
  using assms ParseUint0_bound [of 16 c] ParseUint0_bound [of 8 f]
  by (auto simp: parseCommandAndFlags_def unat_of_nat take_bit_nat_eq_self split: sum.splits)

section \<open>Reading a response\<close>

text \<open>
  As soon as the bytes read so far and those still to come start with a frame, that frame's message
  is returned, however the bytes are cut.
\<close>

lemma read_loop_first_frame:
  assumes "decode b = Inr None" and "decode (b @ concat ds) = Inr (Some (f, n))"
    and "\<forall>d\<in>set ds. length d \<le> 2048"
  shows "fst (read_loop gz b (map (\<lambda>d. (d, None)) ds @ rs)) = frame_message gz f"
  using assms
proof (induction ds arbitrary: b)
  case (Cons d ds)
  have d: "take 2048 d = d" using Cons.prems(3) by simp
  show ?case
  proof (cases "decode (b @ d)")
    case (Inl e)
    then show ?thesis using frames.dec_error_append [OF Inl, of "concat ds"] Cons.prems(2) by simp
  next
    case (Inr r)
    show ?thesis
    proof (cases r)
      case None
      with Inr Cons.IH [of "b @ d"] Cons.prems d show ?thesis by (cases "d = []") (simp_all add: Let_def)
    next
      case (Some p)
      then obtain g k where "decode (b @ d) = Inr (Some (g, k))" using Inr by (cases p) simp
      moreover from this frames.dec_frame_append [of "b @ d" g k "concat ds"] Cons.prems(2)
      have "g = f" by simp
      moreover have "d \<noteq> []" using Cons.prems(1) calculation by auto
      ultimately show ?thesis using d by simp
    qed
  qed
qed simp

lemma plain_message: "frame_message gz (message_frame m) = Ok m"
  by (simp add: frame_message_def plain_body)

lemma sendRequest_plain:
  assumes "fits m" and "conn_write conn (wire_message m) = None"
  shows "sendRequest gz 0 m conn = (Ok (), conn\<lparr>conn_sent := conn_sent conn @ wire_message m\<rparr>)"
proof -
  have e: "encode \<lparr>fr_version = 0, fr_flags = 0, fr_body = put_be16 (msg_command m) @
      put_be64 (msg_request_id m) @ msg_payload m\<rparr> = Ok (wire_message m)"
    using assms(1) by (simp add: fits_def encode_header wire_message_header message_frame_def)
  show ?thesis using assms(2)
    by (simp add: sendRequest_def encode_message_def plain_body e)
qed

section \<open>Properties\<close>

text \<open>
  C3: client and gateway together: a client started with a command of the gateway and no flags sends
  one frame; the gateway, reading it in any pieces, answers; and the client, reading that answer in
  any pieces, prints exactly the gateway's answer to its request.
\<close>

theorem client_gateway:
  assumes "wired (su_mapper g)" and "su_router g = NewRouter" and "server_setup g = (Ok (), g')"
    and "parseCommandAndFlags (cc_cmdHex cfg) (cc_flagsHex cfg) = Inr (cmd, 0)"
    and "req = \<lparr>msg_command = cmd, msg_request_id = cc_reqID cfg, msg_payload = cc_payload cfg\<rparr>"
    and "known req" and "18 + length (cc_payload cfg) \<le> 256 * 1024"
    and "conn_write conn (wire_message req) = None"
    and "handleConn gz ctx (Some (su_router g')) idle t w = (r, st, w')"
    and "reads w = chunk_reads cs" and "concat cs = wire_message req"
    and "app w = (su_table g', s)" and "writes w = (length (wire_message (answer req)), None) # ws"
    and "conn_reads conn = map (\<lambda>d. (d, None)) ds @ rs" and "sent w' = sent w @ concat ds"
    and "\<forall>d\<in>set ds. length d \<le> 2048"
    and "client_run gz now cfg (Inr conn) = (out, conn')"
  shows "out = Ok (Response (answer req)) \<and>
    (\<exists>c. conn' = Some c \<and> conn_sent c = conn_sent conn @ concat cs)"
proof -
  have fits: "fits req" using assms(5,7) by (simp add: fits_def MaxFrameBody_def)
  have len: "length (concat cs) \<le> 256 * 1024"
    using assms(5,7) unfolding assms(11) length_wire_message [OF fits] by simp
  have "sent w' = sent w @ concat (map (\<lambda>m. wire_message (answer m)) [req])"
    using session_answers [OF assms(1-3,9,10), of "[req]" s ws] assms(6,11-13) len fits by simp
  then have ds: "concat ds = wire_message (answer req)" using assms(15) by simp
  have "decode ([] @ concat ds) = Inr (Some (message_frame (answer req), length (wire_message (answer req))))"
    using decode_wire [OF answer_fits(1), of req "[]"] by (simp add: ds)
  from read_loop_first_frame [OF _ this assms(16), of gz rs]
  have "fst (read_loop gz [] (conn_reads conn)) = Ok (answer req)"
    by (simp add: decode_short plain_message assms(14))
  then obtain rs' where rl: "read_loop gz [] (conn_reads conn) = (Ok (answer req), rs')"
    by (metis prod.collapse)
  show ?thesis
    using assms(17) rl
    by (auto simp: client_run_def assms(4,11) sendRequest_plain [OF fits assms(8)] readResponse_def
        simp flip: assms(5))
qed

definition demo_cfg :: clientConfig where
  "demo_cfg = \<lparr>cc_addr = ''127.0.0.1:9000'', cc_cmdHex = ''0x0001'', cc_flagsHex = ''0x00'', cc_payload = [], cc_reqID = 7\<rparr>"

definition demo_conn :: "bytes \<Rightarrow> client_conn" where
  "demo_conn d = \<lparr>conn_reads = [(d, None)], conn_write = (\<lambda>_. None), conn_sent = [], read_deadline = None\<rparr>"

theorem client_gateway_witness:
  "fst (client_run stored_gzip 0 demo_cfg (Inr (demo_conn (wire_message (answer demo_ping))))) =
    Ok (Response (answer demo_ping))"
proof -
  let ?cs = "[take 5 (wire_message demo_ping), drop 5 (wire_message demo_ping)]"
  let ?conn = "demo_conn (wire_message (answer demo_ping))"
  let ?w = "demo_world ?cs [(length (wire_message (answer demo_ping)), None)] (su_table (wire fresh_setup), ())"
  obtain r st w' where h: "handleConn stored_gzip () (Some (su_router (wire fresh_setup))) 5 10 ?w = (r, st, w')"
    by (metis surj_pair)
  obtain out conn' where c: "client_run stored_gzip 0 demo_cfg (Inr ?conn) = (out, conn')" by fastforce
  have w: "wired (su_mapper fresh_setup)" and n: "su_router fresh_setup = NewRouter"
    by (simp_all add: fresh_setup_def wired_init)
  have f: "fits demo_ping" by (simp add: fits_def demo_ping_def MaxFrameBody_def)
  have p: "parseCommandAndFlags (cc_cmdHex demo_cfg) (cc_flagsHex demo_cfg) = Inr (CmdPing, 0)"
    by (simp add: demo_cfg_def parseCommandAndFlags_def parse_eval CmdPing_def)
  have k: "known demo_ping" by (simp add: known_def demo_ping_def)
  have s: "sent w' = sent ?w @ concat (map (\<lambda>m. wire_message (answer m)) [demo_ping])"
    using session_answers [OF w n server_setup_wire [OF w] h, of ?cs "[demo_ping]" "()" "[]"] f k
    by (simp add: demo_world_def length_wire_message demo_ping_def)
  have "length (wire_message (answer demo_ping)) \<le> 2048"
    unfolding length_wire_message [OF answer_fits(1)] by (simp add: answer_def demo_ping_def go_bytes_def)
  then have "out = Ok (Response (answer demo_ping)) \<and>
    (\<exists>c. conn' = Some c \<and> conn_sent c = conn_sent ?conn @ concat ?cs)"
    using s k
    by (intro client_gateway [OF w n server_setup_wire [OF w] p _ k _ _ h _ _ _ _ _ _ _ c,
          where ds = "[wire_message (answer demo_ping)]" and rs = "[]" and ws = "[]" and cs = ?cs and s = "()"])
       (simp_all add: demo_world_def demo_conn_def demo_cfg_def demo_ping_def)
  then show ?thesis using c by simp
qed

end
