(* ===== verification/AdminSearch.thy ===== *)
theory AdminSearch
  imports GoStrings GoErrors
begin

text \<open>
  \<open>internal/admin/search.go\<close>: the admin service's vector search.  The Milvus client is the record
  \<open>milvus\<close> of the calls used, over a state of its own; the embedding of a text (an array of
  \<open>float32\<close>, only handed on to Milvus) and \<open>time.Parse\<close> are fields of \<open>search_env\<close>.  Log output is
  left out.
\<close>

section \<open>The Milvus client\<close>

datatype data_type = VarChar | FloatVector

record milvus_field =
  fl_name :: string
  fl_type :: data_type
  fl_primary :: bool
  fl_auto_id :: bool
  fl_params :: "(string \<times> string) list"

record milvus_schema =
  sch_name :: string
  sch_description :: string
  sch_fields :: "milvus_field list"

datatype milvus_index = IndexHNSW int int | IndexIvfSQ8 int

datatype search_param = HNSWParam int | IvfSQ8Param int

record 'e milvus_row =
  row_id :: string
  row_text :: string
  row_embedding :: 'e

record ('e, 'm) milvus =
  has_collection :: "string \<Rightarrow> 'm \<Rightarrow> (go_err + bool) \<times> 'm"
  create_collection :: "milvus_schema \<Rightarrow> 'm \<Rightarrow> go_err option \<times> 'm"
  create_index :: "string \<Rightarrow> string \<Rightarrow> milvus_index \<Rightarrow> 'm \<Rightarrow> go_err option \<times> 'm"
  load_collection :: "string \<Rightarrow> 'm \<Rightarrow> go_err option \<times> 'm"
  insert_row :: "string \<Rightarrow> 'e milvus_row \<Rightarrow> 'm \<Rightarrow> go_err option \<times> 'm"
  search_rows :: "string \<Rightarrow> 'e \<Rightarrow> int \<Rightarrow> search_param \<Rightarrow> 'm \<Rightarrow> (go_err + string list list) \<times> 'm"
  delete_rows :: "string \<Rightarrow> string \<Rightarrow> 'm \<Rightarrow> go_err option \<times> 'm"

record 'e search_env =
  embed :: "string \<Rightarrow> 'e"
  time_parse :: "string \<Rightarrow> string \<Rightarrow> go_err + int"

section \<open>Collections\<close>

definition usersHotCollectionName :: string where "usersHotCollectionName = ''admin_users_hot''"
definition docsHotCollectionName :: string where "docsHotCollectionName = ''admin_documents_hot''"
definition docsColdCollectionName :: string where "docsColdCollectionName = ''admin_documents_cold''"

definition collection_schema :: "string \<Rightarrow> string \<Rightarrow> string \<Rightarrow> milvus_schema" where
  "collection_schema collectionName temperature indexName =
     \<lparr>sch_name = collectionName,
      sch_description = temperature @ '' data search index for '' @ collectionName @ '' ('' @ indexName @ '')'',
      sch_fields =
        [\<lparr>fl_name = ''id'', fl_type = VarChar, fl_primary = True, fl_auto_id = False,
          fl_params = [(''max_length'', ''100'')]\<rparr>,
         \<lparr>fl_name = ''text'', fl_type = VarChar, fl_primary = False, fl_auto_id = False,
          fl_params = [(''max_length'', ''1000'')]\<rparr>,
         \<lparr>fl_name = ''embedding'', fl_type = FloatVector, fl_primary = False, fl_auto_id = False,
          fl_params = [(''dim'', ''384'')]\<rparr>]\<rparr>"

text \<open>The common steps of the two constructors; each stops at the first error.\<close>

definition create_with ::
  "('e, 'm) milvus \<Rightarrow> string \<Rightarrow> milvus_schema \<Rightarrow> milvus_index \<Rightarrow> 'm \<Rightarrow> go_err option \<times> 'm" where
  "create_with cl collectionName schema idx m =
     (case has_collection cl collectionName m of
        (Inl err, m) \<Rightarrow> (Some err, m)
      | (Inr has, m) \<Rightarrow>
          if has then (None, m)
          else
            (case create_collection cl schema m of
               (Some err, m) \<Rightarrow> (Some err, m)
             | (None, m) \<Rightarrow>
                 (case create_index cl collectionName ''embedding'' idx m of
                    (Some err, m) \<Rightarrow> (Some err, m)
                  | (None, m) \<Rightarrow> load_collection cl collectionName m)))"

definition createHotCollection :: "('e, 'm) milvus \<Rightarrow> string \<Rightarrow> 'm \<Rightarrow> go_err option \<times> 'm" where
  "createHotCollection cl collectionName m =
     create_with cl collectionName (collection_schema collectionName ''Hot'' ''HNSW'') (IndexHNSW 16 200) m"

definition createColdCollection :: "('e, 'm) milvus \<Rightarrow> string \<Rightarrow> 'm \<Rightarrow> go_err option \<times> 'm" where
  "createColdCollection cl collectionName m =
     create_with cl collectionName (collection_schema collectionName ''Cold'' ''IVF_SQ8'') (IndexIvfSQ8 1024) m"

definition initCollections :: "('e, 'm) milvus \<Rightarrow> 'm \<Rightarrow> go_err option \<times> 'm" where
  "initCollections cl m =
     (case createHotCollection cl usersHotCollectionName m of
        (Some err, m) \<Rightarrow> (Some err, m)
      | (None, m) \<Rightarrow>
          (case createHotCollection cl docsHotCollectionName m of
             (Some err, m) \<Rightarrow> (Some err, m)
           | (None, m) \<Rightarrow> createColdCollection cl docsColdCollectionName m))"

section \<open>Hot and cold\<close>

text \<open>\<open>Time.Sub\<close> saturates at the ends of \<open>int64\<close>.\<close>

definition sat64 :: "int \<Rightarrow> int" where
  "sat64 x = max (- (2 ^ 63)) (min (2 ^ 63 - 1) x)"

definition parseTime :: "'e search_env \<Rightarrow> string \<Rightarrow> go_err + int" where
  "parseTime env timeStr =
     (case time_parse env ''2006-01-02T15:04:05Z07:00'' timeStr of
        Inr t \<Rightarrow> Inr t
      | Inl _ \<Rightarrow>
          (case time_parse env ''2006-01-02T15:04:05.999999999Z07:00'' timeStr of
             Inr t \<Rightarrow> Inr t
           | Inl _ \<Rightarrow> time_parse env ''2006-01-02 15:04:05'' timeStr))"

definition isHotData :: "'e search_env \<Rightarrow> int \<Rightarrow> string \<Rightarrow> bool" where
  "isHotData env now createdAt =
     (if createdAt = [] then True
      else
        (case parseTime env createdAt of
           Inl _ \<Rightarrow> True
         | Inr t \<Rightarrow> sat64 (now - t) < 7 * 24 * 3600000000000))"

definition calculateHNSWParam :: "string \<Rightarrow> int" where
  "calculateHNSWParam keyword =
     (if length keyword \<in> {1, 2, 3} then 20
      else if length keyword \<in> {4, 5, 6, 7, 8} then 30
      else 50)"

definition calculateNProbe :: "string \<Rightarrow> int" where
  "calculateNProbe keyword =
     (let keywordLen = length (TrimSpace keyword) in
      if keywordLen \<le> 3 then 4 else if keywordLen \<le> 10 then 8 else 16)"

section \<open>Indexing\<close>

record User =
  u_id :: string
  u_name :: string
  u_email :: string
  u_created_at :: string

record Document =
  d_id :: string
  d_title :: string
  d_category :: string
  d_owner_id :: string
  d_created_at :: string

definition IndexUser :: "'e search_env \<Rightarrow> ('e, 'm) milvus \<Rightarrow> User \<Rightarrow> 'm \<Rightarrow> go_err option \<times> 'm" where
  "IndexUser env cl user m =
     (let text = u_id user @ '' '' @ u_name user @ '' '' @ u_email user in
      insert_row cl usersHotCollectionName
        \<lparr>row_id = u_id user, row_text = text, row_embedding = embed env text\<rparr> m)"

definition document_row :: "'e search_env \<Rightarrow> Document \<Rightarrow> 'e milvus_row" where
  "document_row env doc =
     (let text = d_id doc @ '' '' @ d_title doc @ '' '' @ d_category doc in
      \<lparr>row_id = d_id doc, row_text = text, row_embedding = embed env text\<rparr>)"

definition IndexDocument ::
  "'e search_env \<Rightarrow> int \<Rightarrow> ('e, 'm) milvus \<Rightarrow> Document \<Rightarrow> 'm \<Rightarrow> go_err option \<times> 'm" where
  "IndexDocument env now cl doc m =
     (let collectionName = docsHotCollectionName;
          collectionName = (if \<not> isHotData env now (d_created_at doc)
                            then docsColdCollectionName else collectionName)
      in insert_row cl collectionName (document_row env doc) m)"

section \<open>Searching\<close>

text \<open>The ids of the first result set.\<close>

definition first_ids :: "string list list \<Rightarrow> string list" where
  "first_ids result = (case result of [] \<Rightarrow> [] | ids # _ \<Rightarrow> ids)"

definition SearchUsers ::
  "'e search_env \<Rightarrow> ('e, 'm) milvus \<Rightarrow> string \<Rightarrow> int \<Rightarrow> 'm \<Rightarrow> (go_err + string list) \<times> 'm" where
  "SearchUsers env cl keyword topK m =
     (if keyword = [] then (Inr [], m)
      else
        (case search_rows cl usersHotCollectionName (embed env keyword) topK
                (HNSWParam (calculateHNSWParam keyword)) m of
           (Inl err, m) \<Rightarrow> (Inl err, m)
         | (Inr result, m) \<Rightarrow> (Inr (first_ids result), m)))"

definition searchDocumentsInCollection ::
  "('e, 'm) milvus \<Rightarrow> string \<Rightarrow> 'e \<Rightarrow> int \<Rightarrow> int \<Rightarrow> string \<Rightarrow> 'm \<Rightarrow> (go_err + string list) \<times> 'm" where
  "searchDocumentsInCollection cl collectionName embedding topK param indexType m =
     (let sp = (if indexType = ''HNSW'' then Some (HNSWParam param)
                else if indexType = ''IVF_SQ8'' then Some (IvfSQ8Param param)
                else None) in
      case sp of
        None \<Rightarrow> (Inl (ErrText (''unknown index type: '' @ indexType)), m)
      | Some sp \<Rightarrow>
          (case search_rows cl collectionName embedding topK sp m of
             (Inl err, m) \<Rightarrow> (Inl err, m)
           | (Inr result, m) \<Rightarrow> (Inr (first_ids result), m)))"

definition SearchDocuments ::
  "'e search_env \<Rightarrow> ('e, 'm) milvus \<Rightarrow> string \<Rightarrow> int \<Rightarrow> 'm \<Rightarrow> (go_err, string list) outcome \<times> 'm" where
  "SearchDocuments env cl keyword topK m =
     (if keyword = [] then (Ok [], m)
      else
        let embedding = embed env keyword in
        (case searchDocumentsInCollection cl usersHotCollectionName embedding topK
                (calculateHNSWParam keyword) ''HNSW'' m of
           (hot, m) \<Rightarrow>
             let hotIDs = (case hot of Inl _ \<Rightarrow> [] | Inr ids \<Rightarrow> ids) in
             (case searchDocumentsInCollection cl docsColdCollectionName embedding topK
                     (calculateNProbe keyword) ''IVF_SQ8'' m of
                (cold, m) \<Rightarrow>
                  let coldIDs = (case cold of Inl _ \<Rightarrow> [] | Inr ids \<Rightarrow> ids);
                      ids = hotIDs @ coldIDs in
                  if int (length ids) > topK
                  then (if topK < 0 then Panic ''slice bounds out of range'' else Ok (take (nat topK) ids), m)
                  else (Ok ids, m))))"

section \<open>Deleting\<close>

definition id_expr :: "string \<Rightarrow> string" where
  "id_expr i = ''id == '' @ [CHR 0x27] @ i @ [CHR 0x27]"

definition search_DeleteUser :: "('e, 'm) milvus \<Rightarrow> string \<Rightarrow> 'm \<Rightarrow> go_err option \<times> 'm" where
  "search_DeleteUser cl userID m = delete_rows cl usersHotCollectionName (id_expr userID) m"

definition search_DeleteDocument :: "('e, 'm) milvus \<Rightarrow> string \<Rightarrow> 'm \<Rightarrow> go_err option \<times> 'm" where
  "search_DeleteDocument cl docID m =
     (case delete_rows cl docsHotCollectionName (id_expr docID) m of (_, m) \<Rightarrow>
      (case delete_rows cl docsColdCollectionName (id_expr docID) m of (_, m) \<Rightarrow> (None, m)))"

section \<open>Properties\<close>

lemma collections_differ [simp]:
  "docsHotCollectionName \<noteq> usersHotCollectionName" "docsHotCollectionName \<noteq> docsColdCollectionName"
  "usersHotCollectionName \<noteq> docsColdCollectionName"
  by (simp_all add: usersHotCollectionName_def docsHotCollectionName_def docsColdCollectionName_def)

text \<open>
  Recent documents are not found by the vector search.  A document of the last seven days is
  written to the hot document collection only, and \<open>SearchDocuments\<close> never looks there: whatever that
  collection answers, its result is the same.
\<close>

theorem hot_documents_not_searched:
  assumes "\<And>coll. coll \<noteq> docsHotCollectionName \<Longrightarrow> search_rows cl' coll = search_rows cl coll"
    and "isHotData env now (d_created_at doc)"
  shows "IndexDocument env now cl doc m = insert_row cl docsHotCollectionName (document_row env doc) m \<and>
    SearchDocuments env cl' keyword topK m = SearchDocuments env cl keyword topK m"
proof -
  have "search_rows cl' usersHotCollectionName = search_rows cl usersHotCollectionName"
    "search_rows cl' docsColdCollectionName = search_rows cl docsColdCollectionName"
    by (rule assms(1); simp add: not_sym [OF collections_differ(1)] not_sym [OF collections_differ(2)])+
  then have "searchDocumentsInCollection cl' usersHotCollectionName = searchDocumentsInCollection cl usersHotCollectionName"
    "searchDocumentsInCollection cl' docsColdCollectionName = searchDocumentsInCollection cl docsColdCollectionName"
    unfolding searchDocumentsInCollection_def [abs_def] by simp_all
  then show ?thesis using assms(2) unfolding SearchDocuments_def by (simp add: IndexDocument_def)
qed

text \<open>A client that stores rows and finds every row of a collection.\<close>

definition demo_milvus :: "(string, string \<Rightarrow> string list) milvus" where
  "demo_milvus =
     \<lparr>has_collection = (\<lambda>c m. (Inr True, m)), create_collection = (\<lambda>sch m. (None, m)),
      create_index = (\<lambda>c f i m. (None, m)), load_collection = (\<lambda>c m. (None, m)),
      insert_row = (\<lambda>c r m. (None, m(c := m c @ [row_id r]))),
      search_rows = (\<lambda>c e k p m. (Inr [m c], m)), delete_rows = (\<lambda>c e m. (None, m))\<rparr>"

definition demo_search_env :: "string search_env" where
  "demo_search_env = \<lparr>embed = id, time_parse = (\<lambda>layout s. Inl (ErrText ''parsing time''))\<rparr>"

definition demo_doc :: Document where
  "demo_doc = \<lparr>d_id = ''doc-1'', d_title = ''plan'', d_category = [], d_owner_id = [], d_created_at = []\<rparr>"

theorem hot_documents_not_searched_witness:
  "fst (SearchDocuments demo_search_env (demo_milvus\<lparr>search_rows := (\<lambda>c e k p m. if c = docsHotCollectionName
       then (Inl (ErrText ''down''), m) else search_rows demo_milvus c e k p m)\<rparr>) ''plan'' 100
     (snd (IndexDocument demo_search_env 5 demo_milvus demo_doc (\<lambda>_. [])))) = Ok []"
proof -
  let ?cl = "demo_milvus\<lparr>search_rows := (\<lambda>c e k p m. if c = docsHotCollectionName
       then (Inl (ErrText ''down''), m) else search_rows demo_milvus c e k p m)\<rparr>"
  let ?m = "(\<lambda>_. []) (docsHotCollectionName := [''doc-1''])"
  have "search_rows ?cl coll = search_rows demo_milvus coll" if "coll \<noteq> docsHotCollectionName" for coll
    using that by (simp add: fun_eq_iff)
  moreover have "isHotData demo_search_env 5 (d_created_at demo_doc)"
    by (simp add: isHotData_def demo_doc_def)
  ultimately have eq: "IndexDocument demo_search_env 5 demo_milvus demo_doc (\<lambda>_. []) =
      insert_row demo_milvus docsHotCollectionName (document_row demo_search_env demo_doc) (\<lambda>_. [])"
    "SearchDocuments demo_search_env ?cl ''plan'' 100 ?m = SearchDocuments demo_search_env demo_milvus ''plan'' 100 ?m"
    using hot_documents_not_searched [of ?cl demo_milvus demo_search_env 5 demo_doc] by blast+
  have "snd (IndexDocument demo_search_env 5 demo_milvus demo_doc (\<lambda>_. [])) = ?m"
    by (simp add: eq(1)) (simp add: demo_milvus_def document_row_def demo_doc_def Let_def)
  moreover have "fst (SearchDocuments demo_search_env demo_milvus ''plan'' 100 ?m) = Ok []"
    by (simp add: SearchDocuments_def searchDocumentsInCollection_def demo_milvus_def first_ids_def
        usersHotCollectionName_def docsHotCollectionName_def docsColdCollectionName_def)
  ultimately show ?thesis using eq(2) by simp
qed

end
