(* ===== verification/AclStore.thy ===== *)
theory AclStore
  imports GoErrors
begin

text \<open>
  \<open>services/acl/internal/acl/store_interface.go\<close>: the interface every ACL store implements, as a
  record of operations over a state, and its contract.  The contract is stated against the history
  of a store: what decides a check is the last effective operation on the document's visibility
  and on the user's grant, and the time asked about.

  A \<open>time.Time\<close> is the number of nanoseconds since its zero value, so \<open>IsZero\<close> is \<open>= 0\<close>;
  \<open>time.Now()\<close> is the argument \<open>clk\<close>.  A \<open>nil\<close> slice is \<open>None\<close>.
\<close>

section \<open>The interface\<close>

definition VisibilityPublic :: string where "VisibilityPublic = ''public''"
definition VisibilityRestricted :: string where "VisibilityRestricted = ''restricted''"

lemma visibility_distinct [simp]: "VisibilityPublic \<noteq> VisibilityRestricted"
  "VisibilityRestricted \<noteq> VisibilityPublic"
  by (simp_all add: VisibilityPublic_def VisibilityRestricted_def)

datatype acl_error =
    ErrInvalidVisibility
  | ErrTenantDocRequired
  | ErrTenantDocUserRequired
  | ErrTenantUserRequired
  | ErrValidToBeforeFrom
  | StoreErr go_err

record 's acl_store =
  set_visibility :: "string \<Rightarrow> string \<Rightarrow> string \<Rightarrow> 's \<Rightarrow> (acl_error, unit) outcome \<times> 's"
  grant :: "int \<Rightarrow> string \<Rightarrow> string \<Rightarrow> string \<Rightarrow> int \<Rightarrow> int option \<Rightarrow> 's \<Rightarrow>
    (acl_error, unit) outcome \<times> 's"
  revoke :: "string \<Rightarrow> string \<Rightarrow> string \<Rightarrow> 's \<Rightarrow> (acl_error, unit) outcome \<times> 's"
  check_batch :: "int \<Rightarrow> string \<Rightarrow> string \<Rightarrow> string list \<Rightarrow> int \<Rightarrow> 's \<Rightarrow>
    (acl_error, string list option) outcome \<times> 's"
  list_grants :: "int \<Rightarrow> string \<Rightarrow> string \<Rightarrow> int \<Rightarrow> 's \<Rightarrow> string list option \<times> 's"
  revoke_all_user :: "string \<Rightarrow> string \<Rightarrow> 's \<Rightarrow> (acl_error, unit) outcome \<times> 's"

section \<open>Histories\<close>

datatype acl_op =
    OpSetVisibility string string string
  | OpGrant string string string int "int option"
  | OpRevoke string string string
  | OpRevokeAll string string

fun acl_apply :: "'s acl_store \<Rightarrow> int \<Rightarrow> acl_op \<Rightarrow> 's \<Rightarrow> (acl_error, unit) outcome \<times> 's" where
  "acl_apply S clk (OpSetVisibility t d v) s = set_visibility S t d v s"
| "acl_apply S clk (OpGrant t d u vf vt) s = grant S clk t d u vf vt s"
| "acl_apply S clk (OpRevoke t d u) s = revoke S t d u s"
| "acl_apply S clk (OpRevokeAll t u) s = revoke_all_user S t u s"

fun acl_run :: "'s acl_store \<Rightarrow> (int \<times> acl_op) list \<Rightarrow> 's \<Rightarrow> 's" where
  "acl_run S [] s = s"
| "acl_run S ((clk, op) # h) s = acl_run S h (snd (acl_apply S clk op s))"

text \<open>The error an operation is answered with, before it has any effect.\<close>

definition grant_error :: "string \<Rightarrow> string \<Rightarrow> string \<Rightarrow> int \<Rightarrow> int option \<Rightarrow> acl_error option" where
  "grant_error t d u vf vt =
     (if t = [] \<or> d = [] \<or> u = [] then Some ErrTenantDocUserRequired
      else if vf \<noteq> 0 \<and> vt \<noteq> None \<and> the vt \<noteq> 0 \<and> the vt < vf then Some ErrValidToBeforeFrom
      else None)"

fun op_error :: "acl_op \<Rightarrow> acl_error option" where
  "op_error (OpSetVisibility t d v) =
     (if v \<noteq> VisibilityPublic \<and> v \<noteq> VisibilityRestricted then Some ErrInvalidVisibility
      else if t = [] \<or> d = [] then Some ErrTenantDocRequired else None)"
| "op_error (OpGrant t d u vf vt) = grant_error t d u vf vt"
| "op_error (OpRevoke t d u) =
     (if t = [] \<or> d = [] \<or> u = [] then Some ErrTenantDocUserRequired else None)"
| "op_error (OpRevokeAll t u) = (if t = [] \<or> u = [] then Some ErrTenantUserRequired else None)"

text \<open>
  What an operation says about the visibility of a document and about a user's grant: nothing, or
  its new value.  A grant is absent, permanent (\<open>Some None\<close>) or until a time.
\<close>

type_synonym acl_grant = "int option option"

fun op_public :: "string \<Rightarrow> string \<Rightarrow> acl_op \<Rightarrow> bool option" where
  "op_public t d (OpSetVisibility t' d' v) =
     (if op_error (OpSetVisibility t' d' v) = None \<and> t' = t \<and> d' = d
      then Some (v = VisibilityPublic) else None)"
| "op_public t d op = None"

fun op_grant :: "string \<Rightarrow> string \<Rightarrow> string \<Rightarrow> acl_op \<Rightarrow> acl_grant option" where
  "op_grant t d u (OpSetVisibility t' d' v) = None"
| "op_grant t d u (OpGrant t' d' u' vf vt) =
     (if op_error (OpGrant t' d' u' vf vt) = None \<and> t' = t \<and> d' = d \<and> u' = u
      then Some (Some vt) else None)"
| "op_grant t d u (OpRevoke t' d' u') =
     (if op_error (OpRevoke t' d' u') = None \<and> t' = t \<and> d' = d \<and> u' = u then Some None else None)"
| "op_grant t d u (OpRevokeAll t' u') =
     (if op_error (OpRevokeAll t' u') = None \<and> t' = t \<and> u' = u then Some None else None)"

text \<open>The last word of a history, if any operation of it spoke.\<close>

fun last_word :: "(acl_op \<Rightarrow> 'a option) \<Rightarrow> acl_op list \<Rightarrow> 'a \<Rightarrow> 'a" where
  "last_word f [] x = x"
| "last_word f (op # ops) x = last_word f ops (case f op of None \<Rightarrow> x | Some y \<Rightarrow> y)"

text \<open>A store may compare times at its own granularity \<open>tick\<close>.\<close>

fun live :: "(int \<Rightarrow> int) \<Rightarrow> int \<Rightarrow> acl_grant \<Rightarrow> bool" where
  "live tick now None = False"
| "live tick now (Some None) = True"
| "live tick now (Some (Some validTo)) = (tick now < tick validTo)"

definition history_public :: "acl_op list \<Rightarrow> string \<Rightarrow> string \<Rightarrow> bool" where
  "history_public h t d = last_word (op_public t d) h True"

definition history_grant :: "acl_op list \<Rightarrow> string \<Rightarrow> string \<Rightarrow> string \<Rightarrow> acl_grant" where
  "history_grant h t d u = last_word (op_grant t d u) h None"

definition history_allows ::
  "(int \<Rightarrow> int) \<Rightarrow> acl_op list \<Rightarrow> string \<Rightarrow> string \<Rightarrow> string \<Rightarrow> int \<Rightarrow> bool" where
  "history_allows tick h t d u now =
     (d \<noteq> [] \<and> (history_public h t d \<or> live tick now (history_grant h t d u)))"

fun op_ids :: "acl_op \<Rightarrow> string set" where
  "op_ids (OpSetVisibility t d v) = {t, d}"
| "op_ids (OpGrant t d u vf vt) = {t, d, u}"
| "op_ids (OpRevoke t d u) = {t, d, u}"
| "op_ids (OpRevokeAll t u) = {t, u}"

section \<open>The contract\<close>

text \<open>
  \<open>public\<close> and \<open>active\<close> are a store's own answers about a document and a grant; \<open>ident\<close> are the
  identifiers the store is used with.  Every operation the store \<open>heeds\<close> must move the answers as its
  word says, for all times from its own on, and every other one must leave them; the time matters
  because a store forgets expired grants.  A valid operation that is \<open>sure\<close> succeeds; setting a
  visibility is.
\<close>

locale acl_contract =
  fixes S :: "'s acl_store"
    and inv :: "'s \<Rightarrow> bool"
    and public :: "'s \<Rightarrow> string \<Rightarrow> string \<Rightarrow> bool"
    and active :: "'s \<Rightarrow> string \<Rightarrow> string \<Rightarrow> string \<Rightarrow> int \<Rightarrow> bool"
    and ident :: "string \<Rightarrow> bool"
    and tick :: "int \<Rightarrow> int"
    and heeds :: "acl_op \<Rightarrow> bool"
    and sure :: "acl_op \<Rightarrow> bool"
  assumes visibility_sure: "sure (OpSetVisibility t d v)"
    and apply_result:
      "inv s \<Longrightarrow> \<forall>i\<in>op_ids op. ident i \<Longrightarrow> acl_apply S clk op s = (r, s') \<Longrightarrow>
        inv s' \<and> (case op_error op of None \<Rightarrow> r = Ok () \<or> \<not> sure op \<and> (\<exists>e. r = Fail e) | Some e \<Rightarrow> r = Fail e)"
    and apply_public:
      "inv s \<Longrightarrow> \<forall>i\<in>op_ids op. ident i \<Longrightarrow> acl_apply S clk op s = (r, s') \<Longrightarrow>
        ident t \<Longrightarrow> ident d \<Longrightarrow>
        public s' t d = (case if heeds op then op_public t d op else None of None \<Rightarrow> public s t d | Some b \<Rightarrow> b)"
    and apply_active:
      "inv s \<Longrightarrow> \<forall>i\<in>op_ids op. ident i \<Longrightarrow> acl_apply S clk op s = (r, s') \<Longrightarrow>
        ident t \<Longrightarrow> ident d \<Longrightarrow> ident u \<Longrightarrow> clk \<le> now \<Longrightarrow>
        active s' t d u now =
          (case if heeds op then op_grant t d u op else None of
             None \<Rightarrow> active s t d u now | Some g \<Rightarrow> live tick now g)"
    and check_allowed:
      "inv s \<Longrightarrow> \<forall>i\<in>{t, u} \<union> set ds. ident i \<Longrightarrow> t \<noteq> [] \<Longrightarrow> u \<noteq> [] \<Longrightarrow>
        check_batch S clk t u ds now s =
          (Ok (Some [d \<leftarrow> ds. d \<noteq> [] \<and>
              (public s t d \<or> active s t d u (if now = 0 then clk else now))]), s)"
begin

lemma run_inv:
  assumes "inv s" and "\<forall>(clk, op)\<in>set h. \<forall>i\<in>op_ids op. ident i"
  shows "inv (acl_run S h s)"
  using assms
proof (induction h arbitrary: s)
  case (Cons x h)
  then show ?case
    using apply_result [of s "snd x" "fst x"] by (cases x; cases "acl_apply S (fst x) (snd x) s") auto
qed simp

lemma run_public:
  assumes "inv s" and "\<forall>(clk, op)\<in>set h. \<forall>i\<in>op_ids op. ident i" and "ident t" and "ident d"
  shows "public (acl_run S h s) t d = last_word (op_public t d) [op \<leftarrow> map snd h. heeds op] (public s t d)"
  using assms(1,2)
proof (induction h arbitrary: s)
  case (Cons x h)
  obtain clk op where x: "x = (clk, op)" by (cases x)
  obtain r s' where a: "acl_apply S clk op s = (r, s')" by (cases "acl_apply S clk op s")
  have ids: "\<forall>i\<in>op_ids op. ident i" using Cons.prems(2) by (simp add: x)
  note step = apply_result [OF Cons.prems(1) ids a] apply_public [OF Cons.prems(1) ids a assms(3,4)]
  then show ?case using Cons.IH [of s'] Cons.prems(2) by (simp add: x a)
qed simp

lemma run_active:
  assumes "inv s" and "\<forall>(clk, op)\<in>set h. (\<forall>i\<in>op_ids op. ident i) \<and> clk \<le> now"
    and "ident t" and "ident d" and "ident u" and "active s t d u now = live tick now g"
  shows "active (acl_run S h s) t d u now =
    live tick now (last_word (op_grant t d u) [op \<leftarrow> map snd h. heeds op] g)"
  using assms(1,2,6)
proof (induction h arbitrary: s g)
  case (Cons x h)
  obtain clk op where x: "x = (clk, op)" by (cases x)
  obtain r s' where a: "acl_apply S clk op s = (r, s')" by (cases "acl_apply S clk op s")
  have ids: "\<forall>i\<in>op_ids op. ident i" "clk \<le> now" using Cons.prems(2) by (simp_all add: x)
  note step = apply_result [OF Cons.prems(1) ids(1) a]
    apply_active [OF Cons.prems(1) ids(1) a assms(3-5) ids(2)]
  show ?case using Cons.IH [of s'] Cons.prems(2,3) step
    by (cases "heeds op"; cases "op_grant t d u op") (simp_all add: x a)
qed simp

text \<open>A check of a store that started empty is decided by what it heeds of the history.\<close>

lemma check_history:
  assumes "inv s0" and "\<And>t d. public s0 t d" and "\<And>t d u now. \<not> active s0 t d u now"
    and "\<forall>(clk, op)\<in>set h. (\<forall>i\<in>op_ids op. ident i) \<and> clk \<le> (if now = 0 then clk0 else now)"
    and "\<forall>i\<in>{t, u} \<union> set ds. ident i" and "t \<noteq> []" and "u \<noteq> []"
  shows "check_batch S clk0 t u ds now (acl_run S h s0) =
    (Ok (Some [d \<leftarrow> ds.
       history_allows tick [op \<leftarrow> map snd h. heeds op] t d u (if now = 0 then clk0 else now)]),
     acl_run S h s0)"
proof -
  let ?h = "[op \<leftarrow> map snd h. heeds op]"
  let ?now = "if now = 0 then clk0 else now"
  have ids: "\<forall>(clk, op)\<in>set h. \<forall>i\<in>op_ids op. ident i" using assms(4) by auto
  have view: "ident d \<Longrightarrow> public (acl_run S h s0) t d \<or> active (acl_run S h s0) t d u ?now \<longleftrightarrow>
      history_public ?h t d \<or> live tick ?now (history_grant ?h t d u)" for d
    using run_public [OF assms(1) ids, of t d] run_active [OF assms(1,4), of t d u None]
      assms(2,3,5) by (simp add: history_public_def history_grant_def)
  have "[d \<leftarrow> ds. d \<noteq> [] \<and> (public (acl_run S h s0) t d \<or> active (acl_run S h s0) t d u ?now)] =
      [d \<leftarrow> ds. history_allows tick ?h t d u ?now]"
    using assms(5) view by (intro filter_cong) (auto simp: history_allows_def)
  then show ?thesis using check_allowed [OF run_inv [OF assms(1) ids] assms(5-7)] by simp
qed

end

text \<open>A store that lists grants as well.\<close>

locale acl_listing = acl_contract +
  assumes list_active:
      "inv s \<Longrightarrow> ident t \<Longrightarrow> ident u \<Longrightarrow> t \<noteq> [] \<Longrightarrow> u \<noteq> [] \<Longrightarrow>
        list_grants S clk t u now s = (out, s') \<Longrightarrow>
        s' = s \<and> (\<exists>xs. out = Some xs \<and> distinct xs \<and>
          (\<forall>d. ident d \<longrightarrow> (d \<in> set xs \<longleftrightarrow> active s t d u (if now = 0 then clk else now))))"
begin

lemma list_history:
  assumes "inv s0" and "\<And>t d u now. \<not> active s0 t d u now"
    and "\<forall>(clk, op)\<in>set h. (\<forall>i\<in>op_ids op. ident i) \<and> clk \<le> (if now = 0 then clk0 else now)"
    and "ident t" and "ident u" and "t \<noteq> []" and "u \<noteq> []"
    and "list_grants S clk0 t u now (acl_run S h s0) = (out, s')"
  shows "\<exists>xs. out = Some xs \<and> distinct xs \<and>
    (\<forall>d. ident d \<longrightarrow>
       (d \<in> set xs \<longleftrightarrow> live tick (if now = 0 then clk0 else now)
          (history_grant [op \<leftarrow> map snd h. heeds op] t d u)))"
proof -
  have ids: "\<forall>(clk, op)\<in>set h. \<forall>i\<in>op_ids op. ident i" using assms(3) by auto
  have "ident d \<Longrightarrow> active (acl_run S h s0) t d u (if now = 0 then clk0 else now) \<longleftrightarrow>
      live tick (if now = 0 then clk0 else now) (history_grant [op \<leftarrow> map snd h. heeds op] t d u)" for d
    using run_active [OF assms(1,3,4) _ assms(5), of d None] assms(2) by (simp add: history_grant_def)
  then show ?thesis
    using list_active [OF run_inv [OF assms(1) ids] assms(4-8)] by fastforce
qed

end

end
