(* ===== verification/AclMemory.thy ===== *)
theory AclMemory
  imports AclStore "HOL-Library.Finite_Map" "HOL-Library.List_Lexorder" "HOL-Library.Char_ord"
begin

text \<open>
  \<open>services/acl/internal/acl/inmemory_store.go\<close>.  The nested Go maps are finite maps; a map that is
  missing reads as \<open>nil\<close>.  Every method holds the store's mutex from its first access on, so a call
  is one step.  The order in which a Go map is iterated matters in \<open>ListGrants\<close> only, where it is
  the argument \<open>order\<close>.
\<close>

section \<open>Edges: tenant, document, user\<close>

type_synonym 'a edges = "(string, (string, (string, 'a) fmap) fmap) fmap"

definition doc_edge :: "(string, (string, 'a) fmap) fmap \<Rightarrow> string \<Rightarrow> string \<Rightarrow> 'a option" where
  "doc_edge docs d u = (case fmlookup docs d of None \<Rightarrow> None | Some users \<Rightarrow> fmlookup users u)"

definition edge :: "'a edges \<Rightarrow> string \<Rightarrow> string \<Rightarrow> string \<Rightarrow> 'a option" where
  "edge m t d u = (case fmlookup m t of None \<Rightarrow> None | Some docs \<Rightarrow> doc_edge docs d u)"

text \<open>\<open>m[t]\<close>, or a new map for it if there is none.\<close>

definition submap :: "string \<Rightarrow> (string, (string, 'b) fmap) fmap \<Rightarrow> (string, 'b) fmap" where
  "submap k m = (case fmlookup m k of None \<Rightarrow> fmempty | Some sub \<Rightarrow> sub)"

definition put_edge :: "string \<Rightarrow> string \<Rightarrow> string \<Rightarrow> 'a \<Rightarrow> 'a edges \<Rightarrow> 'a edges" where
  "put_edge t d u v m =
     (let docs = submap t m;
          users = submap d docs in
      fmupd t (fmupd d (fmupd u v users) docs) m)"

text \<open>\<open>delete(m, k)\<close> if \<open>sub\<close> is empty, else \<open>m[k]\<close> is \<open>sub\<close>.\<close>

definition store_sub :: "string \<Rightarrow> (string, 'b) fmap \<Rightarrow> (string, (string, 'b) fmap) fmap \<Rightarrow>
    (string, (string, 'b) fmap) fmap" where
  "store_sub k sub m = (if sub = fmempty then fmdrop k m else fmupd k sub m)"

text \<open>The block that removes users of a document and then the maps that have become empty.\<close>

definition shrink_users ::
  "string \<Rightarrow> string \<Rightarrow> ((string, 'a) fmap \<Rightarrow> (string, 'a) fmap) \<Rightarrow> 'a edges \<Rightarrow> 'a edges" where
  "shrink_users t d f m =
     (case fmlookup m t of
        None \<Rightarrow> m
      | Some docs \<Rightarrow>
          let docs = (case fmlookup docs d of
                        None \<Rightarrow> docs
                      | Some users \<Rightarrow> store_sub d (f users) docs)
          in store_sub t docs m)"

text \<open>The same for one user in every document of a tenant (\<open>RevokeAllUser\<close>).\<close>

definition drop_user :: "string \<Rightarrow> string \<Rightarrow> 'a edges \<Rightarrow> 'a edges" where
  "drop_user t u m =
     (case fmlookup m t of
        None \<Rightarrow> m
      | Some docs \<Rightarrow>
          let docs = fmmap (fmdrop u) docs;
              docs = fmfilter (\<lambda>d. fmlookup docs d \<noteq> Some fmempty) docs
          in store_sub t docs m)"

definition drop_expired :: "int \<Rightarrow> (string, int) fmap \<Rightarrow> (string, int) fmap" where
  "drop_expired now users =
     fmfilter (\<lambda>u. case fmlookup users u of None \<Rightarrow> False | Some e \<Rightarrow> \<not> e < now) users"

section \<open>The store\<close>

record mem_store =
  visibility :: "(string, (string, string) fmap) fmap"
  permanent :: "unit edges"
  expiring :: "int edges"

definition NewInMemoryStore :: mem_store where
  "NewInMemoryStore = \<lparr>visibility = fmempty, permanent = fmempty, expiring = fmempty\<rparr>"

definition mem_SetVisibility ::
  "string \<Rightarrow> string \<Rightarrow> string \<Rightarrow> mem_store \<Rightarrow> (acl_error, unit) outcome \<times> mem_store" where
  "mem_SetVisibility tenantID docID v s =
     (if v \<noteq> VisibilityPublic \<and> v \<noteq> VisibilityRestricted then (Fail ErrInvalidVisibility, s)
      else if tenantID = [] \<or> docID = [] then (Fail ErrTenantDocRequired, s)
      else
        let m = submap tenantID (visibility s) in
        (Ok (), s\<lparr>visibility := fmupd tenantID (fmupd docID v m) (visibility s)\<rparr>))"

definition validateGrantArgs ::
  "string \<Rightarrow> string \<Rightarrow> string \<Rightarrow> int \<Rightarrow> int option \<Rightarrow> acl_error option" where
  "validateGrantArgs tenantID docID userID validFrom validTo =
     (if tenantID = [] \<or> docID = [] \<or> userID = [] then Some ErrTenantDocUserRequired
      else if validFrom \<noteq> 0 then
        (case validTo of
           None \<Rightarrow> None
         | Some e \<Rightarrow> if e \<noteq> 0 then (if e < validFrom then Some ErrValidToBeforeFrom else None) else None)
      else None)"

definition grantPermanentLocked :: "string \<Rightarrow> string \<Rightarrow> string \<Rightarrow> mem_store \<Rightarrow> mem_store" where
  "grantPermanentLocked tenantID docID userID s =
     (let s = s\<lparr>permanent := put_edge tenantID docID userID () (permanent s)\<rparr>
      in s\<lparr>expiring := shrink_users tenantID docID (fmdrop userID) (expiring s)\<rparr>)"

definition grantExpiringLocked ::
  "string \<Rightarrow> string \<Rightarrow> string \<Rightarrow> int \<Rightarrow> mem_store \<Rightarrow> mem_store" where
  "grantExpiringLocked tenantID docID userID validTo s =
     (let s = s\<lparr>expiring := put_edge tenantID docID userID validTo (expiring s)\<rparr>
      in s\<lparr>permanent := shrink_users tenantID docID (fmdrop userID) (permanent s)\<rparr>)"

definition mem_Grant ::
  "int \<Rightarrow> string \<Rightarrow> string \<Rightarrow> string \<Rightarrow> int \<Rightarrow> int option \<Rightarrow> mem_store \<Rightarrow>
   (acl_error, unit) outcome \<times> mem_store" where
  "mem_Grant clk tenantID docID userID validFrom validTo s =
     (case validateGrantArgs tenantID docID userID validFrom validTo of
        Some e \<Rightarrow> (Fail e, s)
      | None \<Rightarrow>
          let now = clk;
              s = s\<lparr>expiring := shrink_users tenantID docID (drop_expired now) (expiring s)\<rparr> in
          (case validTo of
             None \<Rightarrow> (Ok (), grantPermanentLocked tenantID docID userID s)
           | Some e \<Rightarrow> (Ok (), grantExpiringLocked tenantID docID userID e s)))"

definition mem_Revoke ::
  "string \<Rightarrow> string \<Rightarrow> string \<Rightarrow> mem_store \<Rightarrow> (acl_error, unit) outcome \<times> mem_store" where
  "mem_Revoke tenantID docID userID s =
     (if tenantID = [] \<or> docID = [] \<or> userID = [] then (Fail ErrTenantDocUserRequired, s)
      else
        let s = s\<lparr>permanent := shrink_users tenantID docID (fmdrop userID) (permanent s)\<rparr>;
            s = s\<lparr>expiring := shrink_users tenantID docID (fmdrop userID) (expiring s)\<rparr>
        in (Ok (), s))"

definition mem_RevokeAllUser ::
  "string \<Rightarrow> string \<Rightarrow> mem_store \<Rightarrow> (acl_error, unit) outcome \<times> mem_store" where
  "mem_RevokeAllUser tenantID userID s =
     (if tenantID = [] \<or> userID = [] then (Fail ErrTenantUserRequired, s)
      else
        let s = s\<lparr>permanent := drop_user tenantID userID (permanent s)\<rparr>;
            s = s\<lparr>expiring := drop_user tenantID userID (expiring s)\<rparr>
        in (Ok (), s))"

definition visibilityOfLocked :: "mem_store \<Rightarrow> string \<Rightarrow> string \<Rightarrow> string" where
  "visibilityOfLocked s tenantID docID =
     (case fmlookup (visibility s) tenantID of
        None \<Rightarrow> VisibilityPublic
      | Some m \<Rightarrow> (case fmlookup m docID of None \<Rightarrow> VisibilityPublic | Some vv \<Rightarrow> vv))"

definition hasPermanentGrantLocked :: "mem_store \<Rightarrow> string \<Rightarrow> string \<Rightarrow> string \<Rightarrow> bool" where
  "hasPermanentGrantLocked s tenantID docID userID = (edge (permanent s) tenantID docID userID \<noteq> None)"

definition hasExpiringGrantLocked :: "mem_store \<Rightarrow> string \<Rightarrow> string \<Rightarrow> string \<Rightarrow> int \<Rightarrow> bool" where
  "hasExpiringGrantLocked s tenantID docID userID now =
     (case edge (expiring s) tenantID docID userID of
        None \<Rightarrow> False
      | Some validTo \<Rightarrow> now < validTo)"

text \<open>The loop of \<open>CheckBatch\<close> over the document ids.\<close>

fun allowed_docs :: "mem_store \<Rightarrow> string \<Rightarrow> string \<Rightarrow> int \<Rightarrow> string list \<Rightarrow> string list" where
  "allowed_docs s tenantID userID now [] = []"
| "allowed_docs s tenantID userID now (docID # docIDs) =
     (if docID = [] then allowed_docs s tenantID userID now docIDs
      else if visibilityOfLocked s tenantID docID = VisibilityPublic
      then docID # allowed_docs s tenantID userID now docIDs
      else if hasPermanentGrantLocked s tenantID docID userID
      then docID # allowed_docs s tenantID userID now docIDs
      else if hasExpiringGrantLocked s tenantID docID userID now
      then docID # allowed_docs s tenantID userID now docIDs
      else allowed_docs s tenantID userID now docIDs)"

definition mem_CheckBatch ::
  "int \<Rightarrow> string \<Rightarrow> string \<Rightarrow> string list \<Rightarrow> int \<Rightarrow> mem_store \<Rightarrow>
   (acl_error, string list option) outcome \<times> mem_store" where
  "mem_CheckBatch clk tenantID userID docIDs now s =
     (if tenantID = [] \<or> userID = [] then (Ok None, s)
      else
        let now = (if now = 0 then clk else now) in
        (Ok (Some (allowed_docs s tenantID userID now docIDs)), s))"

text \<open>The documents \<open>addPermanentGrantsLocked\<close> and \<open>addExpiringGrantsLocked\<close> put into \<open>seen\<close>.\<close>

definition permanent_grants :: "mem_store \<Rightarrow> string \<Rightarrow> string \<Rightarrow> string fset" where
  "permanent_grants s tenantID userID =
     (case fmlookup (permanent s) tenantID of
        None \<Rightarrow> {||}
      | Some docs \<Rightarrow> ffilter (\<lambda>docID. docID \<noteq> [] \<and>
          (case fmlookup docs docID of None \<Rightarrow> False | Some users \<Rightarrow> fmlookup users userID \<noteq> None))
          (fmdom docs))"

definition expiring_grants :: "mem_store \<Rightarrow> string \<Rightarrow> string \<Rightarrow> int \<Rightarrow> string fset" where
  "expiring_grants s tenantID userID now =
     (case fmlookup (expiring s) tenantID of
        None \<Rightarrow> {||}
      | Some docs \<Rightarrow> ffilter (\<lambda>docID. docID \<noteq> [] \<and>
          (case fmlookup docs docID of
             None \<Rightarrow> False
           | Some users \<Rightarrow>
               (case fmlookup users userID of None \<Rightarrow> False | Some validTo \<Rightarrow> now < validTo)))
          (fmdom docs))"

definition mem_ListGrants ::
  "(string fset \<Rightarrow> string list) \<Rightarrow> int \<Rightarrow> string \<Rightarrow> string \<Rightarrow> int \<Rightarrow> mem_store \<Rightarrow>
   string list option \<times> mem_store" where
  "mem_ListGrants order clk tenantID userID now s =
     (if tenantID = [] \<or> userID = [] then (None, s)
      else
        let now = (if now = 0 then clk else now);
            seen = permanent_grants s tenantID userID |\<union>| expiring_grants s tenantID userID now
        in (Some (order seen), s))"

record mem_stats =
  st_tenants :: nat
  st_visibility_docs :: nat
  st_permanent_edges :: nat
  st_expiring_edges :: nat

definition count_docs :: "(string, (string, 'b) fmap) fmap \<Rightarrow> nat" where
  "count_docs m = (\<Sum>t\<in>fset (fmdom m). fcard (fmdom (the (fmlookup m t))))"

definition count_edges :: "'a edges \<Rightarrow> nat" where
  "count_edges m = (\<Sum>t\<in>fset (fmdom m). count_docs (the (fmlookup m t)))"

definition Stats :: "mem_store \<Rightarrow> mem_stats" where
  "Stats s = \<lparr>st_tenants = fcard (fmdom (visibility s)), st_visibility_docs = count_docs (visibility s),
     st_permanent_edges = count_edges (permanent s), st_expiring_edges = count_edges (expiring s)\<rparr>"

definition mem_acl_store :: "(string fset \<Rightarrow> string list) \<Rightarrow> mem_store acl_store" where
  "mem_acl_store order =
     \<lparr>set_visibility = mem_SetVisibility, grant = mem_Grant, revoke = mem_Revoke,
      check_batch = mem_CheckBatch, list_grants = mem_ListGrants order,
      revoke_all_user = mem_RevokeAllUser\<rparr>"

section \<open>Lemmas on edges\<close>

lemma edge_empty [simp]: "edge fmempty t d u = None" "doc_edge fmempty d u = None"
  by (simp_all add: edge_def doc_edge_def)

lemma edge_fmupd [simp]:
  "edge (fmupd t docs m) t' d u = (if t = t' then doc_edge docs d u else edge m t' d u)"
  "doc_edge (fmupd d users docs) d' u = (if d = d' then fmlookup users u else doc_edge docs d' u)"
  by (simp_all add: edge_def doc_edge_def)

lemma edge_submap [simp]:
  "doc_edge (submap t m) d u = edge m t d u" "fmlookup (submap d docs) u = doc_edge docs d u"
  by (simp_all add: submap_def edge_def doc_edge_def split: option.splits)

lemma edge_store_sub [simp]:
  "edge (store_sub t docs m) t' d u = (if t = t' then doc_edge docs d u else edge m t' d u)"
  "doc_edge (store_sub d users docs) d' u = (if d = d' then fmlookup users u else doc_edge docs d' u)"
  by (simp_all add: store_sub_def edge_def doc_edge_def)

lemma edge_put [simp]:
  "edge (put_edge t d u v m) t' d' u' =
     (if t' = t \<and> d' = d \<and> u' = u then Some v else edge m t' d' u')"
  by (auto simp: put_edge_def Let_def)

lemma edge_shrink:
  assumes "\<And>users. fmlookup (f users) u' = g (fmlookup users u')" and "g None = None"
  shows "edge (shrink_users t d f m) t' d' u' =
     (if t' = t \<and> d' = d then g (edge m t' d' u') else edge m t' d' u')"
proof (cases "fmlookup m t")
  case None
  then show ?thesis using assms(2) by (auto simp: shrink_users_def edge_def)
next
  case (Some docs)
  then have "doc_edge docs d' u' = edge m t d' u'" by (simp add: edge_def)
  moreover have "doc_edge docs d u' = (case fmlookup docs d of None \<Rightarrow> None | Some us \<Rightarrow> fmlookup us u')"
    by (simp add: doc_edge_def)
  ultimately show ?thesis using Some assms
    by (cases "fmlookup docs d") (auto simp: shrink_users_def)
qed

lemma edge_shrink_drop [simp]:
  "edge (shrink_users t d (fmdrop u) m) t' d' u' =
     (if t' = t \<and> d' = d \<and> u' = u then None else edge m t' d' u')"
  by (subst edge_shrink [where g = "\<lambda>x. if u' = u then None else x"]) auto

lemma edge_shrink_expired [simp]:
  "edge (shrink_users t d (drop_expired now) m) t' d' u' =
     (case edge m t' d' u' of
        None \<Rightarrow> None
      | Some e \<Rightarrow> if t' = t \<and> d' = d \<and> e < now then None else Some e)"
proof -
  let ?g = "\<lambda>x. case x of None \<Rightarrow> None | Some e \<Rightarrow> if e < now then None else Some e"
  have "fmlookup (drop_expired now users) u' = ?g (fmlookup users u')" for users
    by (simp add: drop_expired_def split: option.splits)
  from edge_shrink [of "drop_expired now" u' ?g, OF this] show ?thesis by (simp split: option.splits)
qed

lemma doc_edge_filter:
  "doc_edge (fmfilter (\<lambda>d. fmlookup docs d \<noteq> Some fmempty) docs) d u = doc_edge docs d u"
  by (simp add: doc_edge_def split: option.splits)

lemma edge_drop_user [simp]:
  "edge (drop_user t u m) t' d u' = (if t' = t \<and> u' = u then None else edge m t' d u')"
proof (cases "fmlookup m t")
  case None
  then show ?thesis by (auto simp: drop_user_def edge_def)
next
  case (Some docs)
  have "doc_edge (fmmap (fmdrop u) docs) d u' = (if u' = u then None else doc_edge docs d u')"
    by (simp add: doc_edge_def split: option.splits)
  moreover have "doc_edge docs d u' = edge m t d u'" using Some by (simp add: edge_def)
  ultimately show ?thesis using Some
    by (simp only: drop_user_def Let_def option.case edge_store_sub doc_edge_filter) auto
qed

section \<open>The contract holds\<close>

lemma validateGrantArgs_error: "validateGrantArgs = grant_error"
  by (intro ext) (simp add: validateGrantArgs_def grant_error_def split: option.splits)

lemma allowed_docs_filter:
  "allowed_docs s t u now ds =
     [d \<leftarrow> ds. d \<noteq> [] \<and> (visibilityOfLocked s t d = VisibilityPublic \<or>
        hasPermanentGrantLocked s t d u \<or> hasExpiringGrantLocked s t d u now)]"
  by (induction ds) simp_all

lemma visibility_set [simp]:
  "visibilityOfLocked (s\<lparr>visibility := fmupd t (fmupd d v (submap t (visibility s))) (visibility s)\<rparr>) t' d' =
     (if t' = t \<and> d' = d then v else visibilityOfLocked s t' d')"
  by (auto simp: visibilityOfLocked_def submap_def split: option.splits)

lemma visibility_frame [simp]:
  "visibilityOfLocked (s\<lparr>permanent := p\<rparr>) = visibilityOfLocked s"
  "visibilityOfLocked (s\<lparr>expiring := e\<rparr>) = visibilityOfLocked s"
  by (simp_all add: visibilityOfLocked_def fun_eq_iff)

definition mem_public :: "mem_store \<Rightarrow> string \<Rightarrow> string \<Rightarrow> bool" where
  "mem_public s t d = (visibilityOfLocked s t d = VisibilityPublic)"

definition mem_active :: "mem_store \<Rightarrow> string \<Rightarrow> string \<Rightarrow> string \<Rightarrow> int \<Rightarrow> bool" where
  "mem_active s t d u now = (hasPermanentGrantLocked s t d u \<or> hasExpiringGrantLocked s t d u now)"

text \<open>No grant is both permanent and expiring, and no grant has an empty identifier.\<close>

definition mem_inv :: "mem_store \<Rightarrow> bool" where
  "mem_inv s \<longleftrightarrow>
     (\<forall>t d u. edge (permanent s) t d u \<noteq> None \<longrightarrow> edge (expiring s) t d u = None) \<and>
     (\<forall>t u. edge (permanent s) t [] u = None \<and> edge (expiring s) t [] u = None)"

lemmas mem_op_defs = mem_SetVisibility_def mem_Grant_def mem_Revoke_def mem_RevokeAllUser_def
  grantPermanentLocked_def grantExpiringLocked_def validateGrantArgs_error

lemmas mem_view_defs = mem_public_def mem_active_def hasPermanentGrantLocked_def
  hasExpiringGrantLocked_def

lemma mem_store_simps [simp]:
  "set_visibility (mem_acl_store order) = mem_SetVisibility" "grant (mem_acl_store order) = mem_Grant"
  "revoke (mem_acl_store order) = mem_Revoke" "check_batch (mem_acl_store order) = mem_CheckBatch"
  "list_grants (mem_acl_store order) = mem_ListGrants order"
  "revoke_all_user (mem_acl_store order) = mem_RevokeAllUser"
  by (simp_all add: mem_acl_store_def)

lemma mem_result:
  "acl_apply (mem_acl_store order) clk op s = (r, s') \<Longrightarrow>
     r = (case op_error op of None \<Rightarrow> Ok () | Some e \<Rightarrow> Fail e) \<and> (op_error op \<noteq> None \<longrightarrow> s' = s)"
  by (cases op) (auto simp: mem_op_defs Let_def split: option.splits if_splits)

lemma mem_apply_public:
  "acl_apply (mem_acl_store order) clk op s = (r, s') \<Longrightarrow>
     mem_public s' t d = (case op_public t d op of None \<Rightarrow> mem_public s t d | Some b \<Rightarrow> b)"
  by (cases op) (auto simp: mem_op_defs mem_public_def Let_def split: option.splits if_splits)

text \<open>The grants of a store after an operation that takes effect.\<close>

lemma mem_permanent_after:
  assumes "acl_apply (mem_acl_store order) clk op s = (r, s')" and "op_error op = None"
  shows "edge (permanent s') t d u =
    (case op_grant t d u op of
       None \<Rightarrow> edge (permanent s) t d u
     | Some g \<Rightarrow> if g = Some None then Some () else None)"
  using assms by (cases op) (auto simp: mem_op_defs Let_def split: option.splits if_splits)

lemma mem_expiring_after:
  assumes "acl_apply (mem_acl_store order) clk op s = (r, s')" and "op_error op = None"
  shows "\<exists>old. old \<in> {edge (expiring s) t d u, None} \<and>
    (\<forall>e. edge (expiring s) t d u = Some e \<longrightarrow> clk \<le> e \<longrightarrow> old = Some e) \<and>
    edge (expiring s') t d u =
      (case op_grant t d u op of None \<Rightarrow> old | Some g \<Rightarrow> (case g of Some (Some e) \<Rightarrow> Some e | _ \<Rightarrow> None))"
proof (cases op)
  case (OpGrant t' d' u' vf vt)
  define old where "old = edge (shrink_users t' d' (drop_expired clk) (expiring s)) t d u"
  have "edge (expiring s') t d u =
      (case op_grant t d u op of None \<Rightarrow> old | Some g \<Rightarrow> (case g of Some (Some e) \<Rightarrow> Some e | _ \<Rightarrow> None))"
    unfolding old_def using assms OpGrant
    by (cases vt) (auto simp del: edge_shrink_expired simp: mem_op_defs Let_def)
  moreover have "old \<in> {edge (expiring s) t d u, None} \<and>
      (\<forall>e. edge (expiring s) t d u = Some e \<longrightarrow> clk \<le> e \<longrightarrow> old = Some e)"
    by (auto simp: old_def split: option.splits)
  ultimately show ?thesis by blast
qed (use assms in \<open>auto simp: mem_op_defs Let_def split: if_splits\<close>)

lemma mem_apply_active:
  assumes "acl_apply (mem_acl_store order) clk op s = (r, s')" and "clk \<le> now"
  shows "mem_active s' t d u now =
    (case op_grant t d u op of None \<Rightarrow> mem_active s t d u now | Some g \<Rightarrow> live id now g)"
proof (cases "op_error op")
  case None
  from mem_expiring_after [OF assms(1) None] obtain old where
    old: "old \<in> {edge (expiring s) t d u, None}"
      "\<forall>e. edge (expiring s) t d u = Some e \<longrightarrow> clk \<le> e \<longrightarrow> old = Some e" and
    e: "edge (expiring s') t d u =
      (case op_grant t d u op of None \<Rightarrow> old | Some g \<Rightarrow> (case g of Some (Some e) \<Rightarrow> Some e | _ \<Rightarrow> None))"
    by blast
  show ?thesis
  proof (cases "op_grant t d u op")
    case None
    have "(case old of None \<Rightarrow> False | Some e \<Rightarrow> now < e) =
        (case edge (expiring s) t d u of None \<Rightarrow> False | Some e \<Rightarrow> now < e)"
      using old assms(2) by (cases "edge (expiring s) t d u") fastforce+
    then show ?thesis
      using mem_permanent_after [OF assms(1) \<open>op_error op = None\<close>, of t d u] e None
      by (simp add: mem_view_defs)
  next
    case (Some g)
    then show ?thesis
      using mem_permanent_after [OF assms(1) \<open>op_error op = None\<close>, of t d u] e
      by (cases "(id :: int \<Rightarrow> int, now, g)" rule: live.cases) (simp_all add: mem_view_defs)
  qed
next
  case (Some e)
  then have "op_grant t d u op = None" by (cases op) (auto split: if_splits)
  then show ?thesis using mem_result [OF assms(1)] Some by simp
qed

lemma op_grant_doc: "op_grant t d u op = Some (Some g) \<Longrightarrow> d \<noteq> []"
  by (cases op) (auto simp: grant_error_def split: if_splits)

lemma mem_apply_inv:
  assumes "acl_apply (mem_acl_store order) clk op s = (r, s')" and "mem_inv s"
  shows "mem_inv s'"
proof (cases "op_error op")
  case None
  have "(edge (permanent s') t d u \<noteq> None \<longrightarrow> edge (expiring s') t d u = None) \<and>
      (d = [] \<longrightarrow> edge (permanent s') t d u = None \<and> edge (expiring s') t d u = None)" for t d u
  proof -
    from mem_expiring_after [OF assms(1) None] obtain old where
      old: "old \<in> {edge (expiring s) t d u, None}" and
      e: "edge (expiring s') t d u =
        (case op_grant t d u op of None \<Rightarrow> old | Some g \<Rightarrow> (case g of Some (Some e) \<Rightarrow> Some e | _ \<Rightarrow> None))"
      by blast
    show ?thesis
      using mem_permanent_after [OF assms(1) None, of t d u] e old assms(2) op_grant_doc [of t d u op]
      by (cases "op_grant t d u op") (auto simp: mem_inv_def split: option.splits)
  qed
  then show ?thesis unfolding mem_inv_def by blast
qed (use assms mem_result [OF assms(1)] in auto)

lemma mem_check:
  "t \<noteq> [] \<Longrightarrow> u \<noteq> [] \<Longrightarrow> mem_CheckBatch clk t u ds now s =
     (Ok (Some [d \<leftarrow> ds. d \<noteq> [] \<and>
        (mem_public s t d \<or> mem_active s t d u (if now = 0 then clk else now))]), s)"
  by (simp add: mem_CheckBatch_def allowed_docs_filter mem_public_def mem_active_def disj_assoc)

lemma granted_docs:
  "d |\<in>| permanent_grants s t u \<longleftrightarrow> d \<noteq> [] \<and> hasPermanentGrantLocked s t d u"
  "d |\<in>| expiring_grants s t u now \<longleftrightarrow> d \<noteq> [] \<and> hasExpiringGrantLocked s t d u now"
  by (auto simp: permanent_grants_def expiring_grants_def hasPermanentGrantLocked_def
      hasExpiringGrantLocked_def edge_def doc_edge_def fmlookup_dom_iff split: option.splits)

definition lists_sets :: "(string fset \<Rightarrow> string list) \<Rightarrow> bool" where
  "lists_sets order \<longleftrightarrow> (\<forall>A. distinct (order A) \<and> set (order A) = fset A)"

lemma mem_list:
  assumes "lists_sets order" and "mem_inv s" and "t \<noteq> []" and "u \<noteq> []"
    and "mem_ListGrants order clk t u now s = (out, s')"
  shows "s' = s \<and> (\<exists>xs. out = Some xs \<and> distinct xs \<and>
    (\<forall>d. d \<in> set xs \<longleftrightarrow> mem_active s t d u (if now = 0 then clk else now)))"
proof -
  let ?now = "if now = 0 then clk else now"
  have empty: "\<not> mem_active s t [] u n" for n
    using assms(2) by (simp add: mem_inv_def mem_view_defs)
  have "d |\<in>| permanent_grants s t u |\<union>| expiring_grants s t u ?now \<longleftrightarrow> mem_active s t d u ?now" for d
    using empty by (cases "d = []") (simp_all add: granted_docs mem_active_def)
  with assms(1,3-5) show ?thesis by (auto simp: mem_ListGrants_def lists_sets_def Let_def simp del: funion_iff)
qed

text \<open>The interface's contract, on the model of the store, at nanosecond granularity.\<close>

lemma mem_contract:
  "acl_contract (mem_acl_store order) mem_inv mem_public mem_active (\<lambda>_. True) id (\<lambda>_. True) (\<lambda>_. True)"
proof
  fix s s' :: mem_store and op clk r
  assume "mem_inv s" and "acl_apply (mem_acl_store order) clk op s = (r, s')"
  then show "mem_inv s' \<and> (case op_error op of
      None \<Rightarrow> r = Ok () \<or> \<not> True \<and> (\<exists>e. r = Fail e) | Some e \<Rightarrow> r = Fail e)"
    using mem_apply_inv mem_result [of order clk op s r s'] by (auto split: option.split)
qed (use mem_apply_public mem_apply_active mem_check in auto)

interpretation mem: acl_contract "mem_acl_store order" mem_inv mem_public mem_active "\<lambda>_. True" id "\<lambda>_. True" "\<lambda>_. True"
  by (rule mem_contract)

lemma mem_listing:
  "lists_sets order \<Longrightarrow>
     acl_listing (mem_acl_store order) mem_inv mem_public mem_active (\<lambda>_. True) id (\<lambda>_. True) (\<lambda>_. True)"
  by (intro acl_listing.intro mem_contract acl_listing_axioms.intro) (auto dest: mem_list)

text \<open>An iteration order that can happen: by the keys.\<close>

definition key_order :: "string fset \<Rightarrow> string list" where
  "key_order A = sorted_list_of_set (fset A)"

lemma key_order: "lists_sets key_order"
  by (simp add: lists_sets_def key_order_def)

interpretation mem_keys: acl_listing "mem_acl_store key_order" mem_inv mem_public mem_active "\<lambda>_. True" id "\<lambda>_. True" "\<lambda>_. True"
  by (rule mem_listing [OF key_order])

lemma mem_init [simp]:
  "mem_inv NewInMemoryStore" "mem_public NewInMemoryStore t d"
  "\<not> mem_active NewInMemoryStore t d u now"
  by (simp_all add: mem_inv_def mem_view_defs visibilityOfLocked_def NewInMemoryStore_def)

section \<open>What the maps hold\<close>

definition compact :: "'a edges \<Rightarrow> bool" where
  "compact m \<longleftrightarrow> (\<forall>t docs. fmlookup m t = Some docs \<longrightarrow> docs \<noteq> fmempty \<and>
     (\<forall>d users. fmlookup docs d = Some users \<longrightarrow> users \<noteq> fmempty))"

lemma fmupd_not_empty [simp]: "fmupd k v m \<noteq> fmempty" "fmempty \<noteq> fmupd k v m"
  by (metis fmempty_lookup fmupd_lookup option.distinct(1))+

lemma compact_empty [simp]: "compact fmempty"
  by (simp add: compact_def)

lemma compact_put: "compact m \<Longrightarrow> compact (put_edge t d u v m)"
  by (auto simp: compact_def put_edge_def submap_def Let_def split: option.splits if_splits)

lemma compact_store_sub:
  assumes "compact m" and "\<And>d users. fmlookup docs d = Some users \<Longrightarrow> users \<noteq> fmempty"
  shows "compact (store_sub t docs m)"
  using assms by (auto simp: compact_def store_sub_def split: if_splits)

lemma compact_shrink: "compact m \<Longrightarrow> compact (shrink_users t d f m)"
  by (auto simp: shrink_users_def Let_def split: option.splits intro!: compact_store_sub)
     (auto simp: compact_def store_sub_def split: if_splits)

lemma compact_drop_user: "compact m \<Longrightarrow> compact (drop_user t u m)"
  by (auto simp: drop_user_def Let_def split: option.splits if_splits intro!: compact_store_sub)

lemma compact_apply:
  assumes "compact (permanent s) \<and> compact (expiring s)"
  shows "compact (permanent (snd (acl_apply (mem_acl_store order) clk op s))) \<and>
    compact (expiring (snd (acl_apply (mem_acl_store order) clk op s)))"
  using assms
  by (cases op)
     (simp_all add: mem_op_defs Let_def compact_put compact_shrink compact_drop_user split: option.splits)

lemma compact_run:
  "compact (permanent s) \<and> compact (expiring s) \<Longrightarrow>
     compact (permanent (acl_run (mem_acl_store order) h s)) \<and>
     compact (expiring (acl_run (mem_acl_store order) h s))"
proof (induction h arbitrary: s)
  case (Cons x h)
  then show ?case using compact_apply [OF Cons.prems, of order "fst x" "snd x"] by (cases x) simp
qed simp

text \<open>The sizes \<open>Stats\<close> adds up are numbers of edges.\<close>

lemma doc_edges_sigma:
  "{(d, u). doc_edge docs d u \<noteq> None} =
     (SIGMA d:fset (fmdom docs). fset (fmdom (the (fmlookup docs d))))"
  by (auto simp: doc_edge_def fmlookup_dom_iff split: option.splits)

lemma card_doc_edges: "count_docs docs = card {(d, u). doc_edge docs d u \<noteq> None}"
  unfolding doc_edges_sigma by (simp add: count_docs_def fcard.rep_eq)

lemma finite_doc_edges: "finite {(d, u). doc_edge docs d u \<noteq> None}"
  unfolding doc_edges_sigma by auto

lemma edges_sigma:
  "{(t, d, u). edge m t d u \<noteq> None} =
     (SIGMA t:fset (fmdom m). {(d, u). doc_edge (the (fmlookup m t)) d u \<noteq> None})"
  by (auto simp: edge_def fmlookup_dom_iff split: option.splits)

lemma card_edges: "count_edges m = card {(t, d, u). edge m t d u \<noteq> None}"
  unfolding edges_sigma count_edges_def card_doc_edges
  by (intro card_SigmaI [symmetric] ballI finite_doc_edges) simp

lemma finite_edges: "finite {(t, d, u). edge m t d u \<noteq> None}"
  unfolding edges_sigma by (intro finite_SigmaI finite_doc_edges) simp

text \<open>The edges are the last words of the history, except that an expired one may be forgotten.\<close>

lemma run_edges:
  assumes "edge (permanent s) t d u = (if g = Some None then Some () else None)"
    and "\<And>e. edge (expiring s) t d u = Some e \<Longrightarrow> g = Some (Some e)"
  shows "edge (permanent (acl_run (mem_acl_store order) h s)) t d u =
      (if last_word (op_grant t d u) (map snd h) g = Some None then Some () else None) \<and>
    (\<forall>e. edge (expiring (acl_run (mem_acl_store order) h s)) t d u = Some e \<longrightarrow>
       last_word (op_grant t d u) (map snd h) g = Some (Some e))"
  using assms
proof (induction h arbitrary: s g)
  case (Cons x h)
  obtain clk op where x: "x = (clk, op)" by (cases x)
  obtain r s' where a: "acl_apply (mem_acl_store order) clk op s = (r, s')"
    by (cases "acl_apply (mem_acl_store order) clk op s")
  let ?g = "case op_grant t d u op of None \<Rightarrow> g | Some g \<Rightarrow> g"
  have "edge (permanent s') t d u = (if ?g = Some None then Some () else None) \<and>
      (\<forall>e. edge (expiring s') t d u = Some e \<longrightarrow> ?g = Some (Some e))"
  proof (cases "op_error op")
    case None
    from mem_expiring_after [OF a None] obtain old where
      old: "old \<in> {edge (expiring s) t d u, None}" and
      e: "edge (expiring s') t d u =
        (case op_grant t d u op of None \<Rightarrow> old | Some g \<Rightarrow> (case g of Some (Some e) \<Rightarrow> Some e | _ \<Rightarrow> None))"
      by blast
    show ?thesis
      using mem_permanent_after [OF a None, of t d u] e old Cons.prems
      by (cases "op_grant t d u op") (auto split: option.splits)
  next
    case (Some e)
    then have "op_grant t d u op = None" by (cases op) (auto split: if_splits)
    then show ?thesis using mem_result [OF a] Some Cons.prems by simp
  qed
  then show ?case using Cons.IH [of s' ?g] by (simp add: x a)
qed simp

lemma finite_history_grants:
  "finite {(t, d, u). g t d u \<noteq> None} \<Longrightarrow>
     finite {(t, d, u). last_word (op_grant t d u) h (g t d u) \<noteq> None}"
proof (induction h arbitrary: g)
  case (Cons op h)
  let ?g = "\<lambda>t d u. case op_grant t d u op of None \<Rightarrow> g t d u | Some g \<Rightarrow> g"
  have "{(t, d, u). \<exists>e. op_grant t d u op = Some (Some e)} \<subseteq>
      (case op of OpGrant t d u vf vt \<Rightarrow> {(t, d, u)} | _ \<Rightarrow> {})"
    by (cases op) (auto split: if_splits)
  then have "finite {(t, d, u). \<exists>e. op_grant t d u op = Some (Some e)}"
    by (rule finite_subset) (simp split: acl_op.split)
  moreover have "{(t, d, u). ?g t d u \<noteq> None} \<subseteq>
      {(t, d, u). g t d u \<noteq> None} \<union> {(t, d, u). \<exists>e. op_grant t d u op = Some (Some e)}"
    by (auto split: option.splits)
  ultimately have "finite {(t, d, u). ?g t d u \<noteq> None}"
    using Cons.prems by (meson finite_UnI finite_subset)
  from Cons.IH [OF this] show ?case by simp
qed simp

section \<open>Properties\<close>

text \<open>
  Access decisions.  Whatever calls a new in-memory store has seen, a check at a time not
  before them lets a document through exactly when the last visibility set for it is not
  "restricted" or the last grant or revocation for the user leaves a grant that is permanent or
  runs past that time.  Order and repetitions of the request are kept, empty ids dropped, and the
  store is not changed.
\<close>

theorem mem_check_history:
  assumes "\<forall>(clk, op)\<in>set h. clk \<le> (if now = 0 then clk0 else now)" and "t \<noteq> []" and "u \<noteq> []"
  shows "mem_CheckBatch clk0 t u ds now (acl_run (mem_acl_store order) h NewInMemoryStore) =
    (Ok (Some [d \<leftarrow> ds. history_allows id (map snd h) t d u (if now = 0 then clk0 else now)]),
     acl_run (mem_acl_store order) h NewInMemoryStore)"
  using mem.check_history [of NewInMemoryStore h now clk0 t u ds order] assms by auto

theorem mem_check_history_witness:
  "fst (mem_CheckBatch 0 ''t'' ''u'' [''a'', ''b'', '''', ''c'', ''a''] 40
      (acl_run (mem_acl_store key_order)
        [(1, OpSetVisibility ''t'' ''a'' VisibilityRestricted),
         (2, OpSetVisibility ''t'' ''b'' VisibilityRestricted),
         (3, OpGrant ''t'' ''a'' ''u'' 0 (Some 50)), (4, OpGrant ''t'' ''b'' ''u'' 0 None),
         (5, OpRevoke ''t'' ''b'' ''u'')]
        NewInMemoryStore)) = Ok (Some [''a'', ''c'', ''a''])"
  by (subst mem_check_history)
     (simp_all add: history_allows_def history_public_def history_grant_def grant_error_def)

text \<open>
  \<open>ListGrants\<close> returns, once each, exactly the documents whose last word for the user is a
  live grant, whatever order Go's map iteration takes.
\<close>

theorem mem_list_history:
  assumes "lists_sets order" and "\<forall>(clk, op)\<in>set h. clk \<le> (if now = 0 then clk0 else now)"
    and "t \<noteq> []" and "u \<noteq> []"
    and "mem_ListGrants order clk0 t u now (acl_run (mem_acl_store order) h NewInMemoryStore) = (out, s')"
  shows "\<exists>xs. out = Some xs \<and> distinct xs \<and>
    (\<forall>d. d \<in> set xs \<longleftrightarrow> live id (if now = 0 then clk0 else now) (history_grant (map snd h) t d u))"
  using acl_listing.list_history [OF mem_listing [OF assms(1)], of NewInMemoryStore h now clk0 t u out s']
    assms by auto

theorem mem_list_history_witness:
  "\<exists>xs. fst (mem_ListGrants key_order 9 ''t'' ''u'' 0
       (acl_run (mem_acl_store key_order) [(1, OpGrant ''t'' ''a'' ''u'' 0 (Some 50))] NewInMemoryStore)) =
      Some xs \<and> distinct xs \<and> set xs = {''a''}"
proof -
  let ?h = "[(1 :: int, OpGrant ''t'' ''a'' ''u'' 0 (Some 50))]"
  obtain out s' where l: "mem_ListGrants key_order 9 ''t'' ''u'' 0
      (acl_run (mem_acl_store key_order) ?h NewInMemoryStore) = (out, s')"
    by fastforce
  have g: "live id 9 (history_grant (map snd ?h) ''t'' d ''u'') \<longleftrightarrow> d = ''a''" for d
    by (simp add: history_grant_def grant_error_def)
  from mem_list_history [OF key_order _ _ _ l] obtain xs where "out = Some xs" "distinct xs"
    "\<forall>d. d \<in> set xs \<longleftrightarrow> d = ''a''"
    using g by auto
  then show ?thesis using l by auto
qed

text \<open>
  What a store keeps.  After any calls, \<open>Stats\<close> counts as permanent exactly the users whose
  last word is a permanent grant and as expiring at most those whose last word is an expiring one,
  and no empty tenant or document map is left behind: memory follows the grants, not the history.
\<close>

theorem mem_stats_history:
  "let s = acl_run (mem_acl_store order) h NewInMemoryStore in
    st_permanent_edges (Stats s) =
      card {(t, d, u). history_grant (map snd h) t d u = Some None} \<and>
    st_expiring_edges (Stats s) \<le>
      card {(t, d, u). \<exists>e. history_grant (map snd h) t d u = Some (Some e)} \<and>
    compact (permanent s) \<and> compact (expiring s)"
proof -
  define s where "s = acl_run (mem_acl_store order) h NewInMemoryStore"
  note e = run_edges [where s = NewInMemoryStore and g = None and h = h and order = order,
    folded s_def history_grant_def]
  have p: "edge (permanent s) t d u = Some () \<longleftrightarrow> history_grant (map snd h) t d u = Some None" for t d u
    using e [of t d u] by (simp add: NewInMemoryStore_def)
  have "{(t, d, u). edge (expiring s) t d u \<noteq> None} \<subseteq>
      {(t, d, u). \<exists>e. history_grant (map snd h) t d u = Some (Some e)}"
    using e by (auto simp: NewInMemoryStore_def)
  moreover have "finite {(t, d, u). \<exists>e. history_grant (map snd h) t d u = Some (Some e)}"
    by (rule finite_subset [OF _ finite_history_grants [of "\<lambda>_ _ _. None" "map snd h"]])
       (auto simp: history_grant_def case_prod_unfold)
  ultimately have "st_expiring_edges (Stats s) \<le>
      card {(t, d, u). \<exists>e. history_grant (map snd h) t d u = Some (Some e)}"
    by (simp add: Stats_def card_edges card_mono)
  moreover have "compact (permanent s) \<and> compact (expiring s)"
    unfolding s_def by (rule compact_run) (simp add: NewInMemoryStore_def)
  ultimately show ?thesis unfolding Let_def s_def [symmetric] by (simp add: Stats_def card_edges p)
qed

end
