(* ===== verification/AclRedis.thy ===== *)
theory AclRedis
  imports AclMemory
begin

text \<open>
  \<open>services/acl/internal/acl/redis_store.go\<close>.  The Redis server is not part of the repository: it is
  the parameter \<open>exec\<close>, one command at a time over a state of its own.  What the code relies on is
  the hypothesis \<open>redis_laws\<close>: what the Redis documentation says each command used here does to
  strings, sets and sorted sets, and answers.  Without the hypothesis the server may answer anything
  (errors included), which is what the outage property below is about.
\<close>

section \<open>Redis commands\<close>

datatype redis_cmd =
    Get string
  | Set string string
  | Del "string list"
  | SAdd string string
  | SRem string string
  | SIsMember string string
  | SMembers string
  | ZAdd string int string
  | ZRem string string
  | ZRemRangeUpTo string int
  | ZScore string string
  | ZRangeAbove string int
  | ZRangeAll string
  | SRemDelIfEmpty string string
  | ZRemDelIfEmpty string string

datatype redis_reply =
    RErr go_err
  | RNil
  | ROk
  | RInt int
  | RStr string
  | RList "string list"

type_synonym 'r redis_exec = "redis_cmd \<Rightarrow> 'r \<Rightarrow> redis_reply \<times> 'r"

text \<open>A pipeline runs its commands in order; \<open>Exec\<close> reports the first error, \<open>redis.Nil\<close> included.\<close>

fun pipeline :: "'r redis_exec \<Rightarrow> redis_cmd list \<Rightarrow> 'r \<Rightarrow> redis_reply list \<times> 'r" where
  "pipeline exec [] s = ([], s)"
| "pipeline exec (c # cs) s =
     (case exec c s of (r, s) \<Rightarrow> (case pipeline exec cs s of (rs, s) \<Rightarrow> (r # rs, s)))"

definition redis_nil :: go_err where "redis_nil = ErrText ''redis: nil''"

fun reply_err :: "redis_reply \<Rightarrow> go_err option" where
  "reply_err (RErr e) = Some e"
| "reply_err RNil = Some redis_nil"
| "reply_err _ = None"

fun first_err :: "redis_reply list \<Rightarrow> go_err option" where
  "first_err [] = None"
| "first_err (r # rs) = (case reply_err r of None \<Rightarrow> first_err rs | Some e \<Rightarrow> Some e)"

text \<open>\<open>StringSliceCmd.Result\<close>\<close>

fun list_result :: "redis_reply \<Rightarrow> go_err + string list" where
  "list_result (RList xs) = Inr xs"
| "list_result (RErr e) = Inl e"
| "list_result RNil = Inl redis_nil"
| "list_result _ = Inl (ErrText ''redis: unexpected reply'')"

section \<open>The store\<close>

text \<open>\<open>Time.Unix\<close>: whole seconds since 1970, for nanoseconds since year 1.\<close>

definition unix :: "int \<Rightarrow> int" where "unix t = t div 1000000000 - 62135596800"

definition NewRedisStore_prefix :: "string \<Rightarrow> string" where
  "NewRedisStore_prefix keyPrefix = (if keyPrefix = [] then ''acl:'' else keyPrefix)"

definition keyVisibility :: "string \<Rightarrow> string \<Rightarrow> string \<Rightarrow> string" where
  "keyVisibility prefix t d = prefix @ ''t:'' @ t @ '':doc:'' @ d @ '':vis''"

definition keyPermanent :: "string \<Rightarrow> string \<Rightarrow> string \<Rightarrow> string" where
  "keyPermanent prefix t d = prefix @ ''t:'' @ t @ '':doc:'' @ d @ '':perm''"

definition keyExpiring :: "string \<Rightarrow> string \<Rightarrow> string \<Rightarrow> string" where
  "keyExpiring prefix t d = prefix @ ''t:'' @ t @ '':doc:'' @ d @ '':exp''"

definition keyUserPermanent :: "string \<Rightarrow> string \<Rightarrow> string \<Rightarrow> string" where
  "keyUserPermanent prefix t u = prefix @ ''t:'' @ t @ '':u:'' @ u @ '':perm''"

definition keyUserExpiring :: "string \<Rightarrow> string \<Rightarrow> string \<Rightarrow> string" where
  "keyUserExpiring prefix t u = prefix @ ''t:'' @ t @ '':u:'' @ u @ '':exp''"

text \<open>\<open>return \<dots>.Err()\<close>\<close>

fun store_result :: "go_err option \<Rightarrow> (acl_error, unit) outcome" where
  "store_result None = Ok ()"
| "store_result (Some e) = Fail (StoreErr e)"

definition redis_SetVisibility ::
  "'r redis_exec \<Rightarrow> string \<Rightarrow> string \<Rightarrow> string \<Rightarrow> string \<Rightarrow> 'r \<Rightarrow> (acl_error, unit) outcome \<times> 'r" where
  "redis_SetVisibility exec prefix tenantID docID v s =
     (if v \<noteq> VisibilityPublic \<and> v \<noteq> VisibilityRestricted then (Fail ErrInvalidVisibility, s)
      else if tenantID = [] \<or> docID = [] then (Fail ErrTenantDocRequired, s)
      else
        let key = keyVisibility prefix tenantID docID in
        if v = VisibilityPublic
        then (case exec (Del [key]) s of (r, s) \<Rightarrow> (store_result (reply_err r), s))
        else (case exec (Set key v) s of (r, s) \<Rightarrow> (store_result (reply_err r), s)))"

definition redis_Grant ::
  "'r redis_exec \<Rightarrow> string \<Rightarrow> int \<Rightarrow> string \<Rightarrow> string \<Rightarrow> string \<Rightarrow> int \<Rightarrow> int option \<Rightarrow> 'r \<Rightarrow>
   (acl_error, unit) outcome \<times> 'r" where
  "redis_Grant exec prefix clk tenantID docID userID validFrom validTo s =
     (if tenantID = [] \<or> docID = [] \<or> userID = [] then (Fail ErrTenantDocUserRequired, s)
      else if validFrom \<noteq> 0 \<and> validTo \<noteq> None \<and> the validTo \<noteq> 0 \<and> the validTo < validFrom
      then (Fail ErrValidToBeforeFrom, s)
      else
        let docPermKey = keyPermanent prefix tenantID docID;
            docExpKey = keyExpiring prefix tenantID docID;
            userPermKey = keyUserPermanent prefix tenantID userID;
            userExpKey = keyUserExpiring prefix tenantID userID;
            pipe =
              (case validTo of
                 None \<Rightarrow>
                   [SAdd docPermKey userID, SAdd userPermKey docID,
                    ZRem docExpKey userID, ZRem userExpKey docID]
               | Some e \<Rightarrow>
                   [ZRemRangeUpTo docExpKey (unix clk), ZRemRangeUpTo userExpKey (unix clk),
                    ZAdd docExpKey (unix e) userID, ZAdd userExpKey (unix e) docID,
                    SRem docPermKey userID, SRem userPermKey docID]);
            cleanup =
              (case validTo of
                 None \<Rightarrow> [ZRemDelIfEmpty docExpKey userID, ZRemDelIfEmpty userExpKey docID]
               | Some e \<Rightarrow> [SRemDelIfEmpty docPermKey userID, SRemDelIfEmpty userPermKey docID])
        in
        (case pipeline exec pipe s of
           (rs, s) \<Rightarrow>
             (case first_err rs of
                Some e \<Rightarrow> (Fail (StoreErr e), s)
              | None \<Rightarrow> (Ok (), snd (pipeline exec cleanup s)))))"

definition redis_Revoke ::
  "'r redis_exec \<Rightarrow> string \<Rightarrow> string \<Rightarrow> string \<Rightarrow> string \<Rightarrow> 'r \<Rightarrow> (acl_error, unit) outcome \<times> 'r" where
  "redis_Revoke exec prefix tenantID docID userID s =
     (if tenantID = [] \<or> docID = [] \<or> userID = [] then (Fail ErrTenantDocUserRequired, s)
      else
        (case pipeline exec
                [SRemDelIfEmpty (keyPermanent prefix tenantID docID) userID,
                 ZRemDelIfEmpty (keyExpiring prefix tenantID docID) userID,
                 SRemDelIfEmpty (keyUserPermanent prefix tenantID userID) docID,
                 ZRemDelIfEmpty (keyUserExpiring prefix tenantID userID) docID] s of
           (rs, s) \<Rightarrow> (store_result (first_err rs), s)))"

fun visibilityFromCmd :: "redis_reply \<Rightarrow> string" where
  "visibilityFromCmd (RStr vv) =
     (if vv = VisibilityRestricted then VisibilityRestricted else VisibilityPublic)"
| "visibilityFromCmd _ = VisibilityPublic"

text \<open>\<open>BoolCmd\<close> and \<open>FloatCmd\<close> results; a score is a whole number of seconds.\<close>

fun reply_true :: "redis_reply \<Rightarrow> bool" where
  "reply_true (RInt n) = (n = 1)"
| "reply_true _ = False"

fun isAllowedRestricted :: "redis_reply \<Rightarrow> redis_reply \<Rightarrow> int \<Rightarrow> bool" where
  "isAllowedRestricted permCmd (RInt score) nowUnix =
     (if reply_true permCmd then True else nowUnix < score)"
| "isAllowedRestricted permCmd _ nowUnix = reply_true permCmd"

definition enqueueDocOps :: "string \<Rightarrow> string \<Rightarrow> string \<Rightarrow> string \<Rightarrow> string \<Rightarrow> redis_cmd list" where
  "enqueueDocOps prefix tenantID docID userPermKey userExpKey =
     [Get (keyVisibility prefix tenantID docID), SIsMember userPermKey docID, ZScore userExpKey docID]"

text \<open>The loop over \<open>filtered\<close>, with the replies of the pipeline in the order of their commands.\<close>

fun redis_allowed :: "string list \<Rightarrow> redis_reply list \<Rightarrow> int \<Rightarrow> string list" where
  "redis_allowed (docID # docs) (vis # perm # exp # rs) nowUnix =
     (if visibilityFromCmd vis = VisibilityPublic then docID # redis_allowed docs rs nowUnix
      else if isAllowedRestricted perm exp nowUnix then docID # redis_allowed docs rs nowUnix
      else redis_allowed docs rs nowUnix)"
| "redis_allowed _ _ nowUnix = []"

definition redis_CheckBatch ::
  "'r redis_exec \<Rightarrow> string \<Rightarrow> int \<Rightarrow> string \<Rightarrow> string \<Rightarrow> string list \<Rightarrow> int \<Rightarrow> 'r \<Rightarrow>
   (acl_error, string list option) outcome \<times> 'r" where
  "redis_CheckBatch exec prefix clk tenantID userID docIDs now s =
     (if tenantID = [] \<or> userID = [] then (Ok None, s)
      else
        let now = (if now = 0 then clk else now);
            userPermKey = keyUserPermanent prefix tenantID userID;
            userExpKey = keyUserExpiring prefix tenantID userID;
            filtered = [docID \<leftarrow> docIDs. docID \<noteq> []];
            pipe = concat (map (\<lambda>docID. enqueueDocOps prefix tenantID docID userPermKey userExpKey)
              filtered)
        in
        (case pipeline exec pipe s of
           (rs, s) \<Rightarrow> (Ok (Some (redis_allowed filtered rs (unix now))), s)))"

definition redis_ListGrants ::
  "'r redis_exec \<Rightarrow> string \<Rightarrow> (string fset \<Rightarrow> string list) \<Rightarrow> int \<Rightarrow> string \<Rightarrow> string \<Rightarrow> int \<Rightarrow> 'r \<Rightarrow>
   string list option \<times> 'r" where
  "redis_ListGrants exec prefix order clk tenantID userID now s =
     (if tenantID = [] \<or> userID = [] then (None, s)
      else
        let now = (if now = 0 then clk else now) in
        (case exec (SMembers (keyUserPermanent prefix tenantID userID)) s of
           (r, s) \<Rightarrow>
             (case list_result r of
                Inl e \<Rightarrow> (None, s)
              | Inr permDocs \<Rightarrow>
                  (case exec (ZRangeAbove (keyUserExpiring prefix tenantID userID) (unix now)) s of
                     (r, s) \<Rightarrow>
                       (case list_result r of
                          Inl e \<Rightarrow> (Some permDocs, s)
                        | Inr expDocs \<Rightarrow>
                            (Some (order (ffilter (\<lambda>d. d \<noteq> [])
                                (fset_of_list (permDocs @ expDocs)))), s))))))"

definition redis_RevokeAllUser ::
  "'r redis_exec \<Rightarrow> string \<Rightarrow> (string fset \<Rightarrow> string list) \<Rightarrow> string \<Rightarrow> string \<Rightarrow> 'r \<Rightarrow>
   (acl_error, unit) outcome \<times> 'r" where
  "redis_RevokeAllUser exec prefix order tenantID userID s =
     (if tenantID = [] \<or> userID = [] then (Fail ErrTenantUserRequired, s)
      else
        let userPermKey = keyUserPermanent prefix tenantID userID;
            userExpKey = keyUserExpiring prefix tenantID userID in
        (case exec (SMembers userPermKey) s of
           (r, s) \<Rightarrow>
             (case list_result r of
                Inl e \<Rightarrow> (Fail (StoreErr e), s)
              | Inr permDocs \<Rightarrow>
                  (case exec (ZRangeAll userExpKey) s of
                     (r, s) \<Rightarrow>
                       (case list_result r of
                          Inl e \<Rightarrow> (Fail (StoreErr e), s)
                        | Inr expDocs \<Rightarrow>
                            let seen = order (ffilter (\<lambda>d. d \<noteq> [])
                                  (fset_of_list (permDocs @ expDocs)));
                                pipe = concat (map (\<lambda>docID.
                                    [SRemDelIfEmpty (keyPermanent prefix tenantID docID) userID,
                                     ZRemDelIfEmpty (keyExpiring prefix tenantID docID) userID]) seen) @
                                  [Del [userPermKey, userExpKey]]
                            in (case pipeline exec pipe s of
                                  (rs, s) \<Rightarrow> (store_result (first_err rs), s)))))))"

definition redis_acl_store ::
  "'r redis_exec \<Rightarrow> string \<Rightarrow> (string fset \<Rightarrow> string list) \<Rightarrow> 'r acl_store" where
  "redis_acl_store exec prefix order =
     \<lparr>set_visibility = redis_SetVisibility exec prefix, grant = redis_Grant exec prefix,
      revoke = redis_Revoke exec prefix, check_batch = redis_CheckBatch exec prefix,
      list_grants = redis_ListGrants exec prefix order,
      revoke_all_user = redis_RevokeAllUser exec prefix order\<rparr>"

section \<open>What Redis documents\<close>

text \<open>
  The data of a server as far as the commands above see it: a string, a set and a sorted set per
  key, of which at most one is there, and whether the two scripts are in its script cache.  \<open>typed\<close>
  excludes the commands that answer \<open>WRONGTYPE\<close>, and scripts the server does not know: \<open>Script.Run\<close>
  sends \<open>EVALSHA\<close>, which answers \<open>NOSCRIPT\<close> then and changes nothing, and in a pipeline it cannot
  retry with \<open>EVAL\<close>.  Nothing in the repository loads the scripts.
\<close>

record redis_view =
  rv_str :: "string \<Rightarrow> string option"
  rv_set :: "string \<Rightarrow> string set"
  rv_zset :: "string \<Rightarrow> string \<Rightarrow> int option"
  rv_scripts :: bool

definition drop_keys :: "string list \<Rightarrow> redis_view \<Rightarrow> redis_view" where
  "drop_keys ks v =
     \<lparr>rv_str = (\<lambda>k. if k \<in> set ks then None else rv_str v k),
      rv_set = (\<lambda>k. if k \<in> set ks then {} else rv_set v k),
      rv_zset = (\<lambda>k. if k \<in> set ks then Map.empty else rv_zset v k),
      rv_scripts = rv_scripts v\<rparr>"

text \<open>The two Lua scripts: remove the member, then delete the key if nothing is left of it.\<close>

definition redisScriptSRemDelIfEmpty :: "string \<Rightarrow> string \<Rightarrow> redis_view \<Rightarrow> redis_view" where
  "redisScriptSRemDelIfEmpty k m v =
     (let v = v\<lparr>rv_set := (rv_set v)(k := rv_set v k - {m})\<rparr>
      in if rv_set v k = {} then drop_keys [k] v else v)"

definition redisScriptZRemDelIfEmpty :: "string \<Rightarrow> string \<Rightarrow> redis_view \<Rightarrow> redis_view" where
  "redisScriptZRemDelIfEmpty k m v =
     (let v = v\<lparr>rv_zset := (rv_zset v)(k := (rv_zset v k)(m := None))\<rparr>
      in if rv_zset v k = Map.empty then drop_keys [k] v else v)"

lemmas script_defs = redisScriptSRemDelIfEmpty_def redisScriptZRemDelIfEmpty_def

fun effect :: "redis_cmd \<Rightarrow> redis_view \<Rightarrow> redis_view" where
  "effect (Set k x) v = (drop_keys [k] v)\<lparr>rv_str := (rv_str v)(k \<mapsto> x)\<rparr>"
| "effect (Del ks) v = drop_keys ks v"
| "effect (SAdd k m) v = v\<lparr>rv_set := (rv_set v)(k := insert m (rv_set v k))\<rparr>"
| "effect (SRem k m) v = v\<lparr>rv_set := (rv_set v)(k := rv_set v k - {m})\<rparr>"
| "effect (ZAdd k sc m) v = v\<lparr>rv_zset := (rv_zset v)(k := (rv_zset v k)(m \<mapsto> sc))\<rparr>"
| "effect (ZRem k m) v = v\<lparr>rv_zset := (rv_zset v)(k := (rv_zset v k)(m := None))\<rparr>"
| "effect (ZRemRangeUpTo k hi) v = v\<lparr>rv_zset := (rv_zset v)(k := (\<lambda>m.
     case rv_zset v k m of None \<Rightarrow> None | Some sc \<Rightarrow> if sc \<le> hi then None else Some sc))\<rparr>"
| "effect (SRemDelIfEmpty k m) v = (if rv_scripts v then redisScriptSRemDelIfEmpty k m v else v)"
| "effect (ZRemDelIfEmpty k m) v = (if rv_scripts v then redisScriptZRemDelIfEmpty k m v else v)"
| "effect _ v = v"

definition holds_set :: "redis_view \<Rightarrow> string \<Rightarrow> bool" where
  "holds_set v k \<longleftrightarrow> rv_str v k = None \<and> rv_zset v k = Map.empty"

definition holds_zset :: "redis_view \<Rightarrow> string \<Rightarrow> bool" where
  "holds_zset v k \<longleftrightarrow> rv_str v k = None \<and> rv_set v k = {}"

definition holds_str :: "redis_view \<Rightarrow> string \<Rightarrow> bool" where
  "holds_str v k \<longleftrightarrow> rv_set v k = {} \<and> rv_zset v k = Map.empty"

fun typed :: "redis_cmd \<Rightarrow> redis_view \<Rightarrow> bool" where
  "typed (Get k) v = holds_str v k"
| "typed (Set k x) v = True"
| "typed (Del ks) v = True"
| "typed (SAdd k m) v = holds_set v k"
| "typed (SRem k m) v = holds_set v k"
| "typed (SIsMember k m) v = holds_set v k"
| "typed (SMembers k) v = holds_set v k"
| "typed (SRemDelIfEmpty k m) v = (rv_scripts v \<and> holds_set v k)"
| "typed (ZAdd k sc m) v = holds_zset v k"
| "typed (ZRem k m) v = holds_zset v k"
| "typed (ZRemRangeUpTo k hi) v = holds_zset v k"
| "typed (ZScore k m) v = holds_zset v k"
| "typed (ZRangeAbove k low) v = holds_zset v k"
| "typed (ZRangeAll k) v = holds_zset v k"
| "typed (ZRemDelIfEmpty k m) v = (rv_scripts v \<and> holds_zset v k)"

definition noscript :: go_err where
  "noscript = ErrText ''NOSCRIPT No matching script. Please use EVAL.''"

fun answers :: "redis_cmd \<Rightarrow> redis_view \<Rightarrow> redis_reply \<Rightarrow> bool" where
  "answers (Get k) v r = (r = (case rv_str v k of None \<Rightarrow> RNil | Some x \<Rightarrow> RStr x))"
| "answers (Set k x) v r = (r = ROk)"
| "answers (SIsMember k m) v r = (r = RInt (if m \<in> rv_set v k then 1 else 0))"
| "answers (SMembers k) v r = (\<exists>xs. r = RList xs \<and> distinct xs \<and> set xs = rv_set v k)"
| "answers (ZScore k m) v r = (r = (case rv_zset v k m of None \<Rightarrow> RNil | Some sc \<Rightarrow> RInt sc))"
| "answers (ZRangeAbove k low) v r = (\<exists>xs. r = RList xs \<and> distinct xs \<and>
     set xs = {m. case rv_zset v k m of None \<Rightarrow> False | Some sc \<Rightarrow> low < sc})"
| "answers (ZRangeAll k) v r = (\<exists>xs. r = RList xs \<and> distinct xs \<and> set xs = dom (rv_zset v k))"
| "answers (SRemDelIfEmpty k m) v r = (if rv_scripts v then \<exists>n. r = RInt n else r = RErr noscript)"
| "answers (ZRemDelIfEmpty k m) v r = (if rv_scripts v then \<exists>n. r = RInt n else r = RErr noscript)"
| "answers _ v r = (\<exists>n. r = RInt n)"

definition finite_view :: "redis_view \<Rightarrow> bool" where
  "finite_view v \<longleftrightarrow> (\<forall>k. finite (rv_set v k) \<and> finite (dom (rv_zset v k)))"

fun read_only :: "redis_cmd \<Rightarrow> bool" where
  "read_only (Get k) = True"
| "read_only (SIsMember k m) = True"
| "read_only (SMembers k) = True"
| "read_only (ZScore k m) = True"
| "read_only (ZRangeAbove k low) = True"
| "read_only (ZRangeAll k) = True"
| "read_only _ = False"

fun is_script :: "redis_cmd \<Rightarrow> bool" where
  "is_script (SRemDelIfEmpty k m) = True"
| "is_script (ZRemDelIfEmpty k m) = True"
| "is_script _ = False"

definition redis_laws :: "'r redis_exec \<Rightarrow> ('r \<Rightarrow> redis_view) \<Rightarrow> bool" where
  "redis_laws exec view \<longleftrightarrow>
     (\<forall>c s. typed c (view s) \<longrightarrow> finite_view (view s) \<longrightarrow>
        view (snd (exec c s)) = effect c (view s) \<and> answers c (view s) (fst (exec c s)) \<and>
        (read_only c \<longrightarrow> snd (exec c s) = s)) \<and>
     (\<forall>c s. is_script c \<longrightarrow> \<not> rv_scripts (view s) \<longrightarrow>
        fst (exec c s) = RErr noscript \<and> view (snd (exec c s)) = view s)"

section \<open>Keys\<close>

definition no_colon :: "string \<Rightarrow> bool" where "no_colon x \<longleftrightarrow> CHR '':'' \<notin> set x"

lemma split_colon:
  "no_colon x \<Longrightarrow> no_colon y \<Longrightarrow> x @ CHR '':'' # a = y @ CHR '':'' # b \<longleftrightarrow> x = y \<and> a = b"
proof (induction x arbitrary: y)
  case Nil
  then show ?case by (cases y) (auto simp: no_colon_def)
next
  case (Cons c x)
  then show ?case by (cases y) (auto simp: no_colon_def)
qed

lemmas key_defs = keyVisibility_def keyPermanent_def keyExpiring_def keyUserPermanent_def
  keyUserExpiring_def

lemma keys_same [simp]:
  assumes "no_colon t" and "no_colon t'"
  shows "keyVisibility p t d = keyVisibility p t' d' \<longleftrightarrow> t = t' \<and> d = d'"
    and "keyPermanent p t d = keyPermanent p t' d' \<longleftrightarrow> t = t' \<and> d = d'"
    and "keyExpiring p t d = keyExpiring p t' d' \<longleftrightarrow> t = t' \<and> d = d'"
    and "keyUserPermanent p t u = keyUserPermanent p t' u' \<longleftrightarrow> t = t' \<and> u = u'"
    and "keyUserExpiring p t u = keyUserExpiring p t' u' \<longleftrightarrow> t = t' \<and> u = u'"
    and "keyPermanent p t d \<noteq> keyUserPermanent p t' u" and "keyUserPermanent p t' u \<noteq> keyPermanent p t d"
    and "keyExpiring p t d \<noteq> keyUserExpiring p t' u" and "keyUserExpiring p t' u \<noteq> keyExpiring p t d"
  using assms by (auto simp: key_defs split_colon)

text \<open>The last three letters of a key tell what it holds.\<close>

datatype kind = KStr | KSet | KZSet

definition kind_of :: "string \<Rightarrow> kind" where
  "kind_of k = (if last k = CHR ''s'' then KStr else if last k = CHR ''m'' then KSet else KZSet)"

lemma kinds [simp]:
  "kind_of (keyVisibility p t d) = KStr" "kind_of (keyPermanent p t d) = KSet"
  "kind_of (keyExpiring p t d) = KZSet" "kind_of (keyUserPermanent p t u) = KSet"
  "kind_of (keyUserExpiring p t u) = KZSet"
  by (simp_all add: key_defs kind_of_def)

lemma kinds_differ:
  "kind_of k \<noteq> kind_of k' \<Longrightarrow> k \<noteq> k'"
  by auto

lemma keys_differ [simp]:
  "keyVisibility p t d \<noteq> keyPermanent p t' d'" "keyVisibility p t d \<noteq> keyExpiring p t' d'"
  "keyVisibility p t d \<noteq> keyUserPermanent p t' d'" "keyVisibility p t d \<noteq> keyUserExpiring p t' d'"
  "keyPermanent p t d \<noteq> keyExpiring p t' d'" "keyPermanent p t d \<noteq> keyUserExpiring p t' d'"
  "keyUserPermanent p t d \<noteq> keyExpiring p t' d'" "keyUserPermanent p t d \<noteq> keyUserExpiring p t' d'"
  by (rule kinds_differ; simp)+

lemmas keys_differ_sym [simp] = keys_differ [THEN not_sym]

section \<open>Well-kinded commands on a healthy server, with or without the scripts\<close>

definition typed_keys :: "redis_view \<Rightarrow> bool" where
  "typed_keys v \<longleftrightarrow> finite_view v \<and>
     (\<forall>k. (kind_of k = KStr \<longrightarrow> holds_str v k) \<and> (kind_of k = KSet \<longrightarrow> holds_set v k) \<and>
          (kind_of k = KZSet \<longrightarrow> holds_zset v k))"

fun well_kinded :: "redis_cmd \<Rightarrow> bool" where
  "well_kinded (Get k) = (kind_of k = KStr)"
| "well_kinded (Set k x) = (kind_of k = KStr)"
| "well_kinded (Del ks) = True"
| "well_kinded (SAdd k m) = (kind_of k = KSet)"
| "well_kinded (SRem k m) = (kind_of k = KSet)"
| "well_kinded (SIsMember k m) = (kind_of k = KSet)"
| "well_kinded (SMembers k) = (kind_of k = KSet)"
| "well_kinded (SRemDelIfEmpty k m) = (kind_of k = KSet)"
| "well_kinded (ZAdd k sc m) = (kind_of k = KZSet)"
| "well_kinded (ZRem k m) = (kind_of k = KZSet)"
| "well_kinded (ZRemRangeUpTo k hi) = (kind_of k = KZSet)"
| "well_kinded (ZScore k m) = (kind_of k = KZSet)"
| "well_kinded (ZRangeAbove k low) = (kind_of k = KZSet)"
| "well_kinded (ZRangeAll k) = (kind_of k = KZSet)"
| "well_kinded (ZRemDelIfEmpty k m) = (kind_of k = KZSet)"

lemma well_kinded_typed:
  "well_kinded c \<Longrightarrow> typed_keys v \<Longrightarrow> is_script c \<longrightarrow> rv_scripts v \<Longrightarrow> typed c v"
  by (cases c) (auto simp: typed_keys_def)

lemma kinded_drop: "typed_keys v \<Longrightarrow> typed_keys (drop_keys ks v)"
  by (auto simp: typed_keys_def drop_keys_def finite_view_def holds_str_def holds_set_def holds_zset_def)

lemma dom_filtered: "dom (\<lambda>m. case f m of None \<Rightarrow> None | Some sc \<Rightarrow> if sc \<le> hi then None else Some sc) \<subseteq> dom f"
  by (auto split: option.splits)

lemma kinded_zset:
  assumes "typed_keys v" and "kind_of k = KZSet" and "finite (dom z)"
  shows "typed_keys (v\<lparr>rv_zset := (rv_zset v)(k := z)\<rparr>)"
  using assms
  by (auto simp: typed_keys_def finite_view_def holds_str_def holds_set_def holds_zset_def)

lemma kinded_set:
  assumes "typed_keys v" and "kind_of k = KSet" and "finite z"
  shows "typed_keys (v\<lparr>rv_set := (rv_set v)(k := z)\<rparr>)"
  using assms
  by (auto simp: typed_keys_def finite_view_def holds_str_def holds_set_def holds_zset_def)

lemma kinded_str:
  assumes "typed_keys v" and "kind_of k = KStr"
  shows "typed_keys (v\<lparr>rv_str := (rv_str v)(k \<mapsto> x)\<rparr>)"
  using assms
  by (auto simp: typed_keys_def finite_view_def holds_str_def holds_set_def holds_zset_def)

lemma kinded_finite: "typed_keys v \<Longrightarrow> finite (rv_set v k) \<and> finite (dom (rv_zset v k))"
  by (simp add: typed_keys_def finite_view_def)

lemma kinded_effect:
  assumes "well_kinded c" and "typed_keys v"
  shows "typed_keys (effect c v)"
proof (cases c)
  case (Set k x)
  have "effect c v = (drop_keys [k] v)\<lparr>rv_str := (rv_str (drop_keys [k] v))(k \<mapsto> x)\<rparr>"
    by (auto simp: Set drop_keys_def)
  then show ?thesis using kinded_str [OF kinded_drop [OF assms(2)]] assms(1) by (simp add: Set)
next
  case (ZRemRangeUpTo k hi)
  have "finite (dom (\<lambda>m. case rv_zset v k m of None \<Rightarrow> None | Some sc \<Rightarrow> if sc \<le> hi then None else Some sc))"
    using kinded_finite [OF assms(2), of k] by (intro finite_subset [OF dom_filtered]) simp
  with ZRemRangeUpTo assms show ?thesis by (simp add: kinded_zset)
qed (use assms kinded_finite [OF assms(2)] in
      \<open>simp_all add: kinded_drop kinded_set kinded_zset script_defs Let_def\<close>)

lemma exec_effect:
  assumes "redis_laws exec view" and "well_kinded c" and "typed_keys (view s)" and "exec c s = (r, s')"
  shows "view s' = effect c (view s) \<and> typed_keys (view s') \<and> answers c (view s) r \<and>
    (read_only c \<longrightarrow> s' = s)"
proof -
  have fin: "finite_view (view s)" using assms(3) by (simp add: typed_keys_def)
  show ?thesis
  proof (cases "is_script c \<and> \<not> rv_scripts (view s)")
    case True
    then have "r = RErr noscript" "view s' = view s"
      using assms(1,4) unfolding redis_laws_def by (metis fst_conv snd_conv)+
    then show ?thesis using True assms(3) by (cases c) simp_all
  next
    case False
    then have "typed c (view s)" using well_kinded_typed [OF assms(2,3)] by blast
    then show ?thesis
      using assms(1,4) fin kinded_effect [OF assms(2,3)] unfolding redis_laws_def by (metis fst_conv snd_conv)
  qed
qed

lemma effect_scripts [simp]: "rv_scripts (effect c v) = rv_scripts v"
  by (cases c) (simp_all add: drop_keys_def script_defs Let_def)

lemma answers_write:
  "answers c v r \<Longrightarrow> \<not> read_only c \<Longrightarrow> rv_scripts v \<or> \<not> is_script c \<Longrightarrow> reply_err r = None"
  by (cases c) auto

lemma pipeline_writes:
  assumes "redis_laws exec view" and "\<forall>c\<in>set cs. well_kinded c \<and> \<not> read_only c"
    and "typed_keys (view s)" and "pipeline exec cs s = (rs, s')"
  shows "view s' = fold effect cs (view s) \<and> typed_keys (view s') \<and>
    (rv_scripts (view s) \<or> (\<forall>c\<in>set cs. \<not> is_script c) \<longrightarrow> first_err rs = None)"
  using assms(2-4)
proof (induction cs arbitrary: s rs s')
  case (Cons c cs)
  obtain r s1 where e: "exec c s = (r, s1)" by fastforce
  obtain rs1 s2 where p: "pipeline exec cs s1 = (rs1, s2)" by fastforce
  have c: "well_kinded c" "\<not> read_only c" using Cons.prems(1) by simp_all
  note E = exec_effect [OF assms(1) c(1) Cons.prems(2) e]
  have "typed_keys (view s1)" using E by blast
  then have "view s2 = fold effect cs (view s1) \<and> typed_keys (view s2) \<and>
      (rv_scripts (view s1) \<or> (\<forall>c\<in>set cs. \<not> is_script c) \<longrightarrow> first_err rs1 = None)"
    using Cons.prems(1) by (intro Cons.IH [OF _ _ p]) simp_all
  then show ?case using E Cons.prems(3) answers_write [of c "view s" r] c(2) by (auto simp: e p)
qed simp

lemma pipeline_reads:
  assumes "redis_laws exec view" and "\<forall>c\<in>set cs. well_kinded c \<and> read_only c"
    and "typed_keys (view s)" and "pipeline exec cs s = (rs, s')"
  shows "s' = s \<and> list_all2 (\<lambda>c r. answers c (view s) r) cs rs"
  using assms(2-4)
proof (induction cs arbitrary: rs s')
  case (Cons c cs)
  obtain r s1 where e: "exec c s = (r, s1)" by fastforce
  obtain rs1 s2 where p: "pipeline exec cs s = (rs1, s2)" by fastforce
  have c: "well_kinded c" "read_only c" using Cons.prems(1) by simp_all
  note E = exec_effect [OF assms(1) c(1) Cons.prems(2) e]
  have "s2 = s \<and> list_all2 (\<lambda>c r. answers c (view s) r) cs rs1"
    using Cons.prems(1,2) by (intro Cons.IH [OF _ _ p]) simp_all
  then show ?case using E Cons.prems(3) c(2) by (auto simp: e p)
qed simp

section \<open>The operations as commands\<close>

definition revoke_cmds :: "string \<Rightarrow> string \<Rightarrow> string \<Rightarrow> string list \<Rightarrow> redis_cmd list" where
  "revoke_cmds p t u docs = concat (map (\<lambda>d.
     [SRemDelIfEmpty (keyPermanent p t d) u, ZRemDelIfEmpty (keyExpiring p t d) u]) docs)"

text \<open>The writes of an operation; \<open>docs\<close> are the documents \<open>RevokeAllUser\<close> has read.\<close>

fun op_cmds :: "string \<Rightarrow> int \<Rightarrow> string list \<Rightarrow> acl_op \<Rightarrow> redis_cmd list" where
  "op_cmds p clk docs (OpSetVisibility t d v) =
     (if v = VisibilityPublic then [Del [keyVisibility p t d]] else [Set (keyVisibility p t d) v])"
| "op_cmds p clk docs (OpGrant t d u vf None) =
     [SAdd (keyPermanent p t d) u, SAdd (keyUserPermanent p t u) d,
      ZRem (keyExpiring p t d) u, ZRem (keyUserExpiring p t u) d,
      ZRemDelIfEmpty (keyExpiring p t d) u, ZRemDelIfEmpty (keyUserExpiring p t u) d]"
| "op_cmds p clk docs (OpGrant t d u vf (Some e)) =
     [ZRemRangeUpTo (keyExpiring p t d) (unix clk), ZRemRangeUpTo (keyUserExpiring p t u) (unix clk),
      ZAdd (keyExpiring p t d) (unix e) u, ZAdd (keyUserExpiring p t u) (unix e) d,
      SRem (keyPermanent p t d) u, SRem (keyUserPermanent p t u) d,
      SRemDelIfEmpty (keyPermanent p t d) u, SRemDelIfEmpty (keyUserPermanent p t u) d]"
| "op_cmds p clk docs (OpRevoke t d u) =
     [SRemDelIfEmpty (keyPermanent p t d) u, ZRemDelIfEmpty (keyExpiring p t d) u,
      SRemDelIfEmpty (keyUserPermanent p t u) d, ZRemDelIfEmpty (keyUserExpiring p t u) d]"
| "op_cmds p clk docs (OpRevokeAll t u) =
     revoke_cmds p t u docs @ [Del [keyUserPermanent p t u, keyUserExpiring p t u]]"

lemma op_cmds_kinded: "\<forall>c\<in>set (op_cmds p clk docs op). well_kinded c \<and> \<not> read_only c"
  by (cases "(p, clk, docs, op)" rule: op_cmds.cases) (auto simp: revoke_cmds_def)

lemma redis_store_simps [simp]:
  "set_visibility (redis_acl_store exec p order) = redis_SetVisibility exec p"
  "grant (redis_acl_store exec p order) = redis_Grant exec p"
  "revoke (redis_acl_store exec p order) = redis_Revoke exec p"
  "check_batch (redis_acl_store exec p order) = redis_CheckBatch exec p"
  "list_grants (redis_acl_store exec p order) = redis_ListGrants exec p order"
  "revoke_all_user (redis_acl_store exec p order) = redis_RevokeAllUser exec p order"
  by (simp_all add: redis_acl_store_def)

lemma redis_error:
  "op_error op = Some e \<Longrightarrow> acl_apply (redis_acl_store exec p order) clk op s = (Fail e, s)"
  by (cases op) (auto simp: redis_SetVisibility_def redis_Grant_def redis_Revoke_def
      redis_RevokeAllUser_def grant_error_def split: if_splits)

lemma pipeline_append:
  "pipeline exec (cs @ ds) s =
     (case pipeline exec cs s of (rs, s) \<Rightarrow> (case pipeline exec ds s of (rs', s) \<Rightarrow> (rs @ rs', s)))"
  by (induction cs arbitrary: s) (auto split: prod.splits)

lemma exec_list:
  assumes "redis_laws exec view" and "typed_keys (view s)" and "well_kinded c"
    and "c = SMembers k \<or> c = ZRangeAll k \<or> c = ZRangeAbove k low"
  shows "\<exists>xs. exec c s = (RList xs, s) \<and> distinct xs \<and> set xs =
    (case c of SMembers k \<Rightarrow> rv_set (view s) k | ZRangeAll k \<Rightarrow> dom (rv_zset (view s) k)
     | ZRangeAbove k low \<Rightarrow> {m. case rv_zset (view s) k m of None \<Rightarrow> False | Some sc \<Rightarrow> low < sc} | _ \<Rightarrow> {})"
proof -
  obtain r s' where e: "exec c s = (r, s')" by fastforce
  from exec_effect [OF assms(1,3,2) e] assms(4) e show ?thesis by auto
qed

text \<open>A server that has the scripts as well.\<close>

definition kinded_view :: "redis_view \<Rightarrow> bool" where
  "kinded_view v \<longleftrightarrow> typed_keys v \<and> rv_scripts v"

lemma kinded_viewD: "kinded_view v \<Longrightarrow> typed_keys v"
  by (simp add: kinded_view_def)

lemma kinded_view_effect: "well_kinded c \<Longrightarrow> kinded_view v \<Longrightarrow> kinded_view (effect c v)"
  by (simp add: kinded_view_def kinded_effect)

lemma kinded_writes:
  assumes "redis_laws exec view" and "\<forall>c\<in>set cs. well_kinded c \<and> \<not> read_only c"
    and "kinded_view (view s)" and "pipeline exec cs s = (rs, s')"
  shows "view s' = fold effect cs (view s) \<and> kinded_view (view s') \<and> first_err rs = None"
proof -
  have "rv_scripts (fold effect cs v) = rv_scripts v" for v by (induction cs arbitrary: v) simp_all
  then show ?thesis using pipeline_writes [OF assms(1,2) _ assms(4)] assms(3)
    by (simp add: kinded_view_def) metis
qed

text \<open>Without the scripts only the operations that rely on them can fail, and only \<open>Revoke\<close> has no effect.\<close>

definition redis_heeds :: "bool \<Rightarrow> acl_op \<Rightarrow> bool" where
  "redis_heeds loaded op \<longleftrightarrow> loaded \<or> (case op of OpRevoke t d u \<Rightarrow> False | _ \<Rightarrow> True)"

definition redis_sure :: "bool \<Rightarrow> acl_op \<Rightarrow> bool" where
  "redis_sure loaded op \<longleftrightarrow>
     loaded \<or> (case op of OpRevoke t d u \<Rightarrow> False | OpRevokeAll t u \<Rightarrow> False | _ \<Rightarrow> True)"

lemma redis_heeds_simps [simp]:
  "redis_heeds True op" "redis_heeds l (OpSetVisibility t d v)" "redis_heeds l (OpGrant t d u vf vt)"
  "redis_heeds l (OpRevoke t d u) = l" "redis_heeds l (OpRevokeAll t u)"
  by (simp_all add: redis_heeds_def)

lemma redis_sure_simps [simp]:
  "redis_sure True op" "redis_sure l (OpSetVisibility t d v)" "redis_sure l (OpGrant t d u vf vt)"
  "redis_sure l (OpRevoke t d u) = l" "redis_sure l (OpRevokeAll t u) = l"
  by (simp_all add: redis_sure_def)

lemma store_result_cases: "store_result e = Ok () \<or> (\<exists>e'. store_result e = Fail e')"
  by (cases e) simp_all

lemma redis_view_after:
  assumes laws: "redis_laws exec view" and k: "typed_keys (view s)" and "op_error op = None"
    and "acl_apply (redis_acl_store exec p order) clk op s = (r, s')"
  shows "\<exists>docs. (r = Ok () \<or> \<not> redis_sure (rv_scripts (view s)) op \<and> (\<exists>e. r = Fail e)) \<and>
    view s' = fold effect (op_cmds p clk docs op) (view s)"
proof (cases op)
  case (OpSetVisibility t d v)
  let ?c = "hd (op_cmds p clk [] op)"
  obtain r1 s1 where e: "exec ?c s = (r1, s1)" by fastforce
  have "well_kinded ?c" "\<not> read_only ?c" "\<not> is_script ?c" by (simp_all add: OpSetVisibility)
  with exec_effect [OF laws _ k e] have "view s1 = effect ?c (view s)" "reply_err r1 = None"
    using answers_write by blast+
  then show ?thesis using assms(3,4) e
    by (auto simp: OpSetVisibility redis_SetVisibility_def Let_def split: if_splits)
next
  case (OpGrant t d u vf vt)
  let ?n = "if vt = None then 4 else 6"
  let ?cs = "take ?n (op_cmds p clk [] op)" and ?ds = "drop ?n (op_cmds p clk [] op)"
  obtain rs1 s1 where p1: "pipeline exec ?cs s = (rs1, s1)" by fastforce
  obtain rs2 s2 where p2: "pipeline exec ?ds s1 = (rs2, s2)" by fastforce
  have kinded: "\<forall>c\<in>set ?cs. well_kinded c \<and> \<not> read_only c" "\<forall>c\<in>set ?ds. well_kinded c \<and> \<not> read_only c"
    using op_cmds_kinded by (auto dest: in_set_takeD in_set_dropD)
  note P1 = pipeline_writes [OF laws kinded(1) k p1]
  note P2 = pipeline_writes [OF laws kinded(2) _ p2]
  have "view s2 = fold effect (op_cmds p clk [] op) (view s)"
    using P1 P2 by (metis append_take_drop_id comp_apply fold_append)
  moreover have "\<forall>c\<in>set ?cs. \<not> is_script c" by (cases vt) (simp_all add: OpGrant)
  then have "(r, s') = (Ok (), s2)"
    using assms(3,4) P1 p1 p2
    by (cases vt) (auto simp: OpGrant redis_Grant_def grant_error_def Let_def split: if_splits)
  ultimately show ?thesis by auto
next
  case (OpRevoke t d u)
  obtain rs1 s1 where p1: "pipeline exec (op_cmds p clk [] op) s = (rs1, s1)" by fastforce
  from pipeline_writes [OF laws op_cmds_kinded k p1] p1 assms(3,4) store_result_cases [of "first_err rs1"]
  show ?thesis
    by (auto simp: OpRevoke redis_Revoke_def split: if_splits)
next
  case (OpRevokeAll t u)
  from exec_list [OF laws k, of "SMembers (keyUserPermanent p t u)"] obtain xs where
    xs: "exec (SMembers (keyUserPermanent p t u)) s = (RList xs, s)" by auto
  from exec_list [OF laws k, of "ZRangeAll (keyUserExpiring p t u)"] obtain ys where
    ys: "exec (ZRangeAll (keyUserExpiring p t u)) s = (RList ys, s)" by auto
  let ?docs = "order (ffilter (\<lambda>d. d \<noteq> []) (fset_of_list (xs @ ys)))"
  obtain rs1 s1 where p1: "pipeline exec (op_cmds p clk ?docs op) s = (rs1, s1)" by fastforce
  from pipeline_writes [OF laws op_cmds_kinded k p1] have
    "view s1 = fold effect (op_cmds p clk ?docs op) (view s)" "rv_scripts (view s) \<longrightarrow> first_err rs1 = None"
    by simp_all
  then show ?thesis using p1 assms(3,4) store_result_cases [of "first_err rs1"]
    by (intro exI [of _ ?docs]) (auto simp: OpRevokeAll redis_RevokeAllUser_def revoke_cmds_def xs ys Let_def
          split: if_splits)
qed

section \<open>What a command does to the keys that are read\<close>

lemma drop_keys_simps [simp]:
  "rv_str (drop_keys ks v) k = (if k \<in> set ks then None else rv_str v k)"
  "rv_set (drop_keys ks v) k = (if k \<in> set ks then {} else rv_set v k)"
  "rv_zset (drop_keys ks v) k = (if k \<in> set ks then Map.empty else rv_zset v k)"
  by (simp_all add: drop_keys_def)

lemma srem_effect [simp]:
  "rv_set (effect (SRemDelIfEmpty k m) v) k' = 
     (if k' = k \<and> rv_scripts v then rv_set v k - {m} else rv_set v k')"
  "k' \<noteq> k \<Longrightarrow> rv_str (effect (SRemDelIfEmpty k m) v) k' = rv_str v k'"
  "k' \<noteq> k \<Longrightarrow> rv_zset (effect (SRemDelIfEmpty k m) v) k' = rv_zset v k'"
  by (auto simp: script_defs Let_def)

lemma zrem_effect [simp]:
  "rv_zset (effect (ZRemDelIfEmpty k m) v) k' = 
     (if k' = k \<and> rv_scripts v then (rv_zset v k)(m := None) else rv_zset v k')"
  "k' \<noteq> k \<Longrightarrow> rv_str (effect (ZRemDelIfEmpty k m) v) k' = rv_str v k'"
  "k' \<noteq> k \<Longrightarrow> rv_set (effect (ZRemDelIfEmpty k m) v) k' = rv_set v k'"
  by (auto simp: script_defs Let_def)

declare effect.simps(8,9) [simp del]

lemma revoke_docs_effect:
  assumes "no_colon t" and "no_colon t'"
  shows "rv_set (fold effect (revoke_cmds p t u docs) v) (keyUserPermanent p t' u') =
      rv_set v (keyUserPermanent p t' u') \<and>
    rv_zset (fold effect (revoke_cmds p t u docs) v) (keyUserExpiring p t' u') =
      rv_zset v (keyUserExpiring p t' u') \<and>
    rv_str (fold effect (revoke_cmds p t u docs) v) (keyVisibility p t' d') =
      rv_str v (keyVisibility p t' d')"
  by (induction docs arbitrary: v) (simp_all add: revoke_cmds_def assms(1,2))

lemma str_after:
  assumes "op_error op = None" and "\<forall>i\<in>op_ids op. no_colon i" and "no_colon t"
  shows "rv_str (fold effect (op_cmds p clk docs op) v) (keyVisibility p t d) =
    (case op_public t d op of None \<Rightarrow> rv_str v (keyVisibility p t d)
     | Some b \<Rightarrow> if b then None else Some VisibilityRestricted)"
  using assms
proof (cases op)
  case (OpGrant t' d' u' vf vt)
  then show ?thesis using assms by (cases vt) simp_all
qed (auto simp: revoke_docs_effect split: if_splits)

lemma set_after:
  assumes "op_error op = None" and "\<forall>i\<in>op_ids op. no_colon i" and "no_colon t"
  shows "d \<in> rv_set (fold effect (op_cmds p clk docs op) v) (keyUserPermanent p t u) \<longleftrightarrow>
    (case if redis_heeds (rv_scripts v) op then op_grant t d u op else None of
       None \<Rightarrow> d \<in> rv_set v (keyUserPermanent p t u) | Some g \<Rightarrow> g = Some None)"
  using assms
proof (cases op)
  case (OpGrant t' d' u' vf vt)
  then show ?thesis using assms by (cases vt) auto
qed (auto simp: revoke_docs_effect split: if_splits)

lemma zset_after:
  assumes "op_error op = None" and "\<forall>i\<in>op_ids op. no_colon i" and "no_colon t"
  shows "\<exists>old. old \<in> {rv_zset v (keyUserExpiring p t u) d, None} \<and>
    (\<forall>sc. rv_zset v (keyUserExpiring p t u) d = Some sc \<longrightarrow> unix clk < sc \<longrightarrow> old = Some sc) \<and>
    rv_zset (fold effect (op_cmds p clk docs op) v) (keyUserExpiring p t u) d =
      (case if redis_heeds (rv_scripts v) op then op_grant t d u op else None of None \<Rightarrow> old
       | Some g \<Rightarrow> (case g of Some (Some e) \<Rightarrow> Some (unix e) | _ \<Rightarrow> None))"
  using assms
proof (cases op)
  case (OpGrant t' d' u' vf vt)
  then have heeds: "redis_heeds (rv_scripts v) op" by simp
  show ?thesis
  proof (cases vt)
    case None
    with OpGrant assms show ?thesis by auto
  next
    case (Some e)
    let ?old = "rv_zset v (keyUserExpiring p t u) d"
    let ?pruned = "case ?old of None \<Rightarrow> None | Some sc \<Rightarrow> if sc \<le> unix clk then None else Some sc"
    have "rv_zset (fold effect (op_cmds p clk docs op) v) (keyUserExpiring p t u) d =
        (case op_grant t d u op of
           None \<Rightarrow> (if t' = t \<and> u' = u then ?pruned else ?old)
         | Some g \<Rightarrow> (case g of Some (Some e) \<Rightarrow> Some (unix e) | _ \<Rightarrow> None))"
      using OpGrant Some assms by auto
    moreover have "?pruned \<in> {?old, None} \<and> (\<forall>sc. ?old = Some sc \<longrightarrow> unix clk < sc \<longrightarrow> ?pruned = Some sc)"
      by (auto split: option.splits)
    ultimately show ?thesis unfolding if_P [OF heeds]
      by (intro exI [of _ "if t' = t \<and> u' = u then ?pruned else ?old"]) auto
  qed
qed (auto simp: revoke_docs_effect split: if_splits)

section \<open>The contract holds\<close>

definition redis_public :: "string \<Rightarrow> redis_view \<Rightarrow> string \<Rightarrow> string \<Rightarrow> bool" where
  "redis_public p v t d = (rv_str v (keyVisibility p t d) \<noteq> Some VisibilityRestricted)"

definition redis_active :: "string \<Rightarrow> redis_view \<Rightarrow> string \<Rightarrow> string \<Rightarrow> string \<Rightarrow> int \<Rightarrow> bool" where
  "redis_active p v t d u now \<longleftrightarrow> d \<noteq> [] \<and>
     (d \<in> rv_set v (keyUserPermanent p t u) \<or>
      (case rv_zset v (keyUserExpiring p t u) d of None \<Rightarrow> False | Some sc \<Rightarrow> unix now < sc))"

lemma unix_mono: "a \<le> b \<Longrightarrow> unix a \<le> unix b"
  by (simp add: unix_def zdiv_mono1)

lemma redis_apply_active:
  assumes "redis_laws exec view" and "typed_keys (view s)" and "\<forall>i\<in>op_ids op. no_colon i"
    and "acl_apply (redis_acl_store exec p order) clk op s = (r, s')" and "no_colon t" and "clk \<le> now"
  shows "redis_active p (view s') t d u now =
    (case if redis_heeds (rv_scripts (view s)) op then op_grant t d u op else None of
       None \<Rightarrow> redis_active p (view s) t d u now | Some g \<Rightarrow> live unix now g)"
proof (cases "op_error op")
  case (Some e)
  then have "op_grant t d u op = None" by (cases op) (auto split: if_splits)
  then show ?thesis using redis_error [OF Some, of exec p order clk s] assms(4) by simp
next
  case None
  from redis_view_after [OF assms(1,2) None assms(4)] obtain docs where
    v: "view s' = fold effect (op_cmds p clk docs op) (view s)" by blast
  note P = set_after [OF None assms(3,5), of d p clk docs "view s" u, folded v]
  from zset_after [OF None assms(3,5), of "view s" p u d clk docs, folded v] obtain old where
    old: "old \<in> {rv_zset (view s) (keyUserExpiring p t u) d, None}"
      "\<forall>sc. rv_zset (view s) (keyUserExpiring p t u) d = Some sc \<longrightarrow> unix clk < sc \<longrightarrow> old = Some sc" and
    z: "rv_zset (view s') (keyUserExpiring p t u) d =
      (case if redis_heeds (rv_scripts (view s)) op then op_grant t d u op else None of None \<Rightarrow> old
       | Some g \<Rightarrow> (case g of Some (Some e) \<Rightarrow> Some (unix e) | _ \<Rightarrow> None))"
    by blast
  show ?thesis
  proof (cases "if redis_heeds (rv_scripts (view s)) op then op_grant t d u op else None")
    case None
    have "(case old of None \<Rightarrow> False | Some sc \<Rightarrow> unix now < sc) =
        (case rv_zset (view s) (keyUserExpiring p t u) d of None \<Rightarrow> False | Some sc \<Rightarrow> unix now < sc)"
      using old unix_mono [OF assms(6)] by (cases "rv_zset (view s) (keyUserExpiring p t u) d") fastforce+
    then show ?thesis using P z None by (simp add: redis_active_def)
  next
    case (Some g)
    then have "op_grant t d u op = Some g" by (simp split: if_splits)
    with Some show ?thesis using P z op_grant_doc [of t d u op]
      by (cases "(unix, now, g)" rule: live.cases) (auto simp: redis_active_def)
  qed
qed

lemma redis_apply_public:
  assumes "redis_laws exec view" and "typed_keys (view s)" and "\<forall>i\<in>op_ids op. no_colon i"
    and "acl_apply (redis_acl_store exec p order) clk op s = (r, s')" and "no_colon t"
  shows "redis_public p (view s') t d =
    (case if redis_heeds l op then op_public t d op else None of None \<Rightarrow> redis_public p (view s) t d | Some b \<Rightarrow> b)"
proof (cases "op_error op")
  case (Some e)
  then have "op_public t d op = None" by (cases op) (auto split: if_splits)
  then show ?thesis using redis_error [OF Some, of exec p order clk s] assms(4) by simp
next
  case None
  from redis_view_after [OF assms(1,2) None assms(4)] obtain docs where
    v: "view s' = fold effect (op_cmds p clk docs op) (view s)" by blast
  have "redis_public p (view s') t d = (case op_public t d op of None \<Rightarrow> redis_public p (view s) t d | Some b \<Rightarrow> b)"
    unfolding redis_public_def v str_after [OF None assms(3,5)] by (simp split: option.splits)
  then show ?thesis by (cases op) simp_all
qed

lemma redis_apply_kinded:
  assumes "redis_laws exec view" and "typed_keys (view s)"
    and "acl_apply (redis_acl_store exec p order) clk op s = (r, s')"
  shows "typed_keys (view s') \<and> rv_scripts (view s') = rv_scripts (view s) \<and>
    (case op_error op of None \<Rightarrow> r = Ok () \<or> \<not> redis_sure (rv_scripts (view s)) op \<and> (\<exists>e. r = Fail e)
     | Some e \<Rightarrow> r = Fail e)"
proof (cases "op_error op")
  case (Some e)
  then show ?thesis using redis_error [OF Some, of exec p order clk s] assms(2,3) by simp
next
  case None
  from redis_view_after [OF assms(1,2) None assms(3)] obtain docs where
    v: "r = Ok () \<or> \<not> redis_sure (rv_scripts (view s)) op \<and> (\<exists>e. r = Fail e)"
      "view s' = fold effect (op_cmds p clk docs op) (view s)" by blast
  have "rv_scripts (fold effect cs v) = rv_scripts v" for cs v by (induction cs arbitrary: v) simp_all
  moreover have "typed_keys (fold effect cs v)" if "\<forall>c\<in>set cs. well_kinded c" "typed_keys v" for cs v
    using that by (induction cs arbitrary: v) (auto intro: kinded_effect)
  ultimately show ?thesis using v None op_cmds_kinded assms(2) by simp
qed

text \<open>The replies to a check's pipeline, read back.\<close>

lemma check_replies:
  assumes "list_all2 (\<lambda>c r. answers c v r)
      (concat (map (\<lambda>d. enqueueDocOps p t d (keyUserPermanent p t u) (keyUserExpiring p t u)) docs)) rs"
    and "\<forall>d\<in>set docs. d \<noteq> []"
  shows "redis_allowed docs rs (unix now) = [d \<leftarrow> docs. redis_public p v t d \<or> redis_active p v t d u now]"
  using assms
proof (induction docs arbitrary: rs)
  case (Cons d docs)
  let ?cmds = "concat (map (\<lambda>d. enqueueDocOps p t d (keyUserPermanent p t u) (keyUserExpiring p t u)) docs)"
  have "list_all2 (\<lambda>c r. answers c v r) (Get (keyVisibility p t d) #
      SIsMember (keyUserPermanent p t u) d # ZScore (keyUserExpiring p t u) d # ?cmds) rs"
    using Cons.prems(1) by (simp only: enqueueDocOps_def list.map concat.simps append.simps)
  then obtain vis perm exp rs' where rs: "rs = vis # perm # exp # rs'"
    "answers (Get (keyVisibility p t d)) v vis" "answers (SIsMember (keyUserPermanent p t u) d) v perm"
    "answers (ZScore (keyUserExpiring p t u) d) v exp" "list_all2 (\<lambda>c r. answers c v r) ?cmds rs'"
    unfolding list_all2_Cons1 by blast
  have "visibilityFromCmd vis = VisibilityPublic \<longleftrightarrow> redis_public p v t d"
    using rs(2) by (auto simp: redis_public_def split: option.splits)
  moreover have "isAllowedRestricted perm exp (unix now) \<longleftrightarrow> redis_active p v t d u now"
    using rs(3,4) Cons.prems(2) by (auto simp: redis_active_def split: option.splits)
  ultimately show ?case using Cons.IH [OF rs(5)] Cons.prems(2) by (simp add: rs(1))
qed simp

lemma redis_check:
  assumes "redis_laws exec view" and "typed_keys (view s)" and "t \<noteq> []" and "u \<noteq> []"
  shows "redis_CheckBatch exec p clk t u ds now s =
    (Ok (Some [d \<leftarrow> ds. d \<noteq> [] \<and> (redis_public p (view s) t d \<or>
        redis_active p (view s) t d u (if now = 0 then clk else now))]), s)"
proof -
  let ?docs = "[d \<leftarrow> ds. d \<noteq> []]"
  let ?cs = "concat (map (\<lambda>d. enqueueDocOps p t d (keyUserPermanent p t u) (keyUserExpiring p t u)) ?docs)"
  obtain rs s' where e: "pipeline exec ?cs s = (rs, s')" by fastforce
  have "\<forall>c\<in>set ?cs. well_kinded c \<and> read_only c" by (auto simp: enqueueDocOps_def)
  from pipeline_reads [OF assms(1) this assms(2) e] have
    r: "s' = s" "list_all2 (\<lambda>c r. answers c (view s) r) ?cs rs" by blast+
  have "redis_allowed ?docs rs (unix (if now = 0 then clk else now)) =
      [d \<leftarrow> ?docs. redis_public p (view s) t d \<or> redis_active p (view s) t d u (if now = 0 then clk else now)]"
    by (rule check_replies [OF r(2)]) simp
  then show ?thesis using assms(3,4) r(1) unfolding redis_CheckBatch_def Let_def e
    by (simp only: if_False prod.case filter_filter simp_thms)
qed

lemma redis_list:
  assumes "redis_laws exec view" and "typed_keys (view s)" and "lists_sets order"
    and "t \<noteq> []" and "u \<noteq> []" and "redis_ListGrants exec p order clk t u now s = (out, s')"
  shows "s' = s \<and> (\<exists>xs. out = Some xs \<and> distinct xs \<and>
    (\<forall>d. d \<in> set xs \<longleftrightarrow> redis_active p (view s) t d u (if now = 0 then clk else now)))"
proof -
  let ?now = "if now = 0 then clk else now"
  from exec_list [OF assms(1,2), of "SMembers (keyUserPermanent p t u)"] obtain xs where
    xs: "exec (SMembers (keyUserPermanent p t u)) s = (RList xs, s)"
      "set xs = rv_set (view s) (keyUserPermanent p t u)" by auto
  from exec_list [OF assms(1,2), of "ZRangeAbove (keyUserExpiring p t u) (unix ?now)"] obtain ys where
    ys: "exec (ZRangeAbove (keyUserExpiring p t u) (unix ?now)) s = (RList ys, s)"
      "set ys = {m. case rv_zset (view s) (keyUserExpiring p t u) m of None \<Rightarrow> False | Some sc \<Rightarrow> unix ?now < sc}"
    by auto
  have "redis_ListGrants exec p order clk t u now s =
      (Some (order (ffilter (\<lambda>d. d \<noteq> []) (fset_of_list (xs @ ys)))), s)"
    using assms(4,5) xs(1) ys(1) by (simp add: redis_ListGrants_def Let_def del: fset_of_list_append)
  then have out: "out = Some (order (ffilter (\<lambda>d. d \<noteq> []) (fset_of_list (xs @ ys))))" "s' = s"
    using assms(6) by simp_all
  have "d |\<in>| ffilter (\<lambda>d. d \<noteq> []) (fset_of_list (xs @ ys)) \<longleftrightarrow>
      redis_active p (view s) t d u ?now" for d
    by (simp add: redis_active_def fset_of_list_elem xs(2) ys(2) del: fset_of_list_append)
  moreover have "distinct (order A) \<and> set (order A) = fset A" for A
    using assms(3) by (simp add: lists_sets_def)
  ultimately show ?thesis unfolding out by blast
qed

lemma redis_contract:
  assumes "redis_laws exec view"
  shows "acl_contract (redis_acl_store exec p order) (\<lambda>s. typed_keys (view s) \<and> rv_scripts (view s) = loaded)
    (\<lambda>s. redis_public p (view s)) (\<lambda>s. redis_active p (view s)) no_colon unix (redis_heeds loaded) (redis_sure loaded)"
proof
  fix s s' and op clk r
  assume "typed_keys (view s) \<and> rv_scripts (view s) = loaded" and "acl_apply (redis_acl_store exec p order) clk op s = (r, s')"
  then show "(typed_keys (view s') \<and> rv_scripts (view s') = loaded) \<and>
      (case op_error op of None \<Rightarrow> r = Ok () \<or> \<not> redis_sure loaded op \<and> (\<exists>e. r = Fail e) | Some e \<Rightarrow> r = Fail e)"
    using redis_apply_kinded [OF assms, of s p order clk op r s'] by (simp split: option.splits)
next
  fix s clk t u ds now
  assume "typed_keys (view s) \<and> rv_scripts (view s) = loaded" and "\<forall>i\<in>{t, u} \<union> set ds. no_colon i" and "t \<noteq> []" and "u \<noteq> []"
  then show "check_batch (redis_acl_store exec p order) clk t u ds now s =
      (Ok (Some [d \<leftarrow> ds. d \<noteq> [] \<and> (redis_public p (view s) t d \<or>
         redis_active p (view s) t d u (if now = 0 then clk else now))]), s)"
    unfolding redis_store_simps by (intro redis_check [OF assms]) simp_all
qed (use redis_apply_public [OF assms] redis_apply_active [OF assms] in auto)

lemma redis_listing:
  assumes "redis_laws exec view" and "lists_sets order"
  shows "acl_listing (redis_acl_store exec p order) (\<lambda>s. typed_keys (view s) \<and> rv_scripts (view s) = loaded)
    (\<lambda>s. redis_public p (view s)) (\<lambda>s. redis_active p (view s)) no_colon unix (redis_heeds loaded) (redis_sure loaded)"
  using assms by (intro acl_listing.intro redis_contract acl_listing_axioms.intro) (auto dest: redis_list)

text \<open>
  A server that keeps nothing but the data, and an empty one, \<open>loaded\<close> telling whether its script cache
  has the two scripts; in that of a fresh server they are missing.
\<close>

definition no_data :: "bool \<Rightarrow> redis_view" where
  "no_data loaded = \<lparr>rv_str = (\<lambda>_. None), rv_set = (\<lambda>_. {}), rv_zset = (\<lambda>_. Map.empty),
    rv_scripts = loaded\<rparr>"

fun plain_reply :: "redis_cmd \<Rightarrow> redis_view \<Rightarrow> redis_reply" where
  "plain_reply (Get k) v = (case rv_str v k of None \<Rightarrow> RNil | Some x \<Rightarrow> RStr x)"
| "plain_reply (Set k x) v = ROk"
| "plain_reply (SIsMember k m) v = RInt (if m \<in> rv_set v k then 1 else 0)"
| "plain_reply (SMembers k) v = RList (sorted_list_of_set (rv_set v k))"
| "plain_reply (ZScore k m) v = (case rv_zset v k m of None \<Rightarrow> RNil | Some sc \<Rightarrow> RInt sc)"
| "plain_reply (ZRangeAbove k low) v = RList (sorted_list_of_set
     {m. case rv_zset v k m of None \<Rightarrow> False | Some sc \<Rightarrow> low < sc})"
| "plain_reply (ZRangeAll k) v = RList (sorted_list_of_set (dom (rv_zset v k)))"
| "plain_reply _ v = RInt 1"

definition plain_redis :: "redis_view redis_exec" where
  "plain_redis c v =
     (if is_script c \<and> \<not> rv_scripts v then (RErr noscript, v) else (plain_reply c v, effect c v))"

lemma plain_redis_laws: "redis_laws plain_redis id"
proof -
  have "answers c v (plain_reply c v) \<and> (read_only c \<longrightarrow> effect c v = v)" if "finite_view v" "typed c v" for c v
  proof (cases c)
    case (ZRangeAbove k low)
    have "{m. case rv_zset v k m of None \<Rightarrow> False | Some sc \<Rightarrow> low < sc} \<subseteq> dom (rv_zset v k)"
      by (auto split: option.splits)
    then have "finite {m. case rv_zset v k m of None \<Rightarrow> False | Some sc \<Rightarrow> low < sc}"
      using that(1) by (auto simp: finite_view_def intro: finite_subset)
    then show ?thesis using ZRangeAbove by simp
  qed (use that in \<open>auto simp: finite_view_def\<close>)
  moreover have "typed c v \<Longrightarrow> is_script c \<Longrightarrow> rv_scripts v" for c v by (cases c) simp_all
  then have "typed c v \<Longrightarrow> plain_redis c v = (plain_reply c v, effect c v)" for c v
    by (auto simp: plain_redis_def)
  ultimately show ?thesis by (simp add: redis_laws_def) (simp add: plain_redis_def)
qed

lemma no_data_views [simp]:
  "typed_keys (no_data l)" "rv_scripts (no_data l) = l" "redis_public p (no_data l) t d"
  "\<not> redis_active p (no_data l) t d u now"
  by (simp_all add: typed_keys_def finite_view_def no_data_def redis_public_def redis_active_def
      holds_str_def holds_set_def holds_zset_def)

text \<open>At whole seconds the granularity of the times makes no difference.\<close>

lemma last_word_from: "last_word f ops x = x \<or> (\<exists>op\<in>set ops. f op = Some (last_word f ops x))"
proof (induction ops arbitrary: x)
  case (Cons op ops)
  show ?case
  proof (cases "f op")
    case (Some a)
    then show ?thesis using Cons.IH [of a] by auto
  qed (use Cons.IH [of x] in auto)
qed simp

lemma whole_seconds_live:
  assumes "\<forall>t d u vf e. OpGrant t d u vf (Some e) \<in> set ops \<longrightarrow> 1000000000 dvd e"
  shows "live unix now (history_grant ops t d u) = live id now (history_grant ops t d u)"
proof (cases "(unix, now, history_grant ops t d u)" rule: live.cases)
  case (3 tick n e)
  then have "\<exists>op\<in>set ops. op_grant t d u op = Some (Some (Some e))"
    using last_word_from [of "op_grant t d u" ops None] by (auto simp: history_grant_def)
  then obtain op where op: "op \<in> set ops" and g: "op_grant t d u op = Some (Some (Some e))" by blast
  from g obtain vf where "op = OpGrant t d u vf (Some e)" by (cases op) (auto split: if_splits)
  with op assms have "1000000000 dvd e" by blast
  then obtain q where "e = 1000000000 * q" by (rule dvdE)
  then have "unix now < unix e \<longleftrightarrow> now < e" by (simp add: unix_def) linarith
  then show ?thesis using 3 by simp
qed auto

text \<open>What a check answers when no visibility can be read.\<close>

lemma outage_replies:
  assumes "\<And>k s. \<exists>e. fst (exec (Get k) s) = RErr e"
    and "pipeline exec (concat (map (\<lambda>d. enqueueDocOps p t d pk ek) docs)) s = (rs, s')"
  shows "redis_allowed docs rs n = docs"
  using assms(2)
proof (induction docs arbitrary: s rs)
  case (Cons d docs)
  obtain r s1 where e1: "exec (Get (keyVisibility p t d)) s = (r, s1)" by fastforce
  then obtain e where "r = RErr e" using assms(1) [of "keyVisibility p t d" s] by auto
  moreover obtain r2 s2 where e2: "exec (SIsMember pk d) s1 = (r2, s2)" by fastforce
  moreover obtain r3 s3 where e3: "exec (ZScore ek d) s2 = (r3, s3)" by fastforce
  moreover obtain rs4 s4 where e4:
    "pipeline exec (concat (map (\<lambda>d. enqueueDocOps p t d pk ek) docs)) s3 = (rs4, s4)" by fastforce
  ultimately show ?case using Cons.IH [of s3 rs4] Cons.prems e1
    by (auto simp: enqueueDocOps_def)
qed simp

section \<open>Properties\<close>

text \<open>
  Access decisions on Redis.  On a server that does what Redis documents, a store that started
  empty decides a check, at a time not before its operations, by their history as the in-memory store
  does, except that times are compared in whole seconds and that, when the server's script cache does
  not have the two scripts, \<open>Revoke\<close> changes nothing.
\<close>

theorem redis_check_history:
  assumes "redis_laws exec view" and "view s0 = no_data loaded"
    and "\<forall>(clk, op)\<in>set h. (\<forall>i\<in>op_ids op. no_colon i) \<and> clk \<le> (if now = 0 then clk0 else now)"
    and "\<forall>i\<in>{t, u} \<union> set ds. no_colon i" and "t \<noteq> []" and "u \<noteq> []"
  shows "redis_CheckBatch exec p clk0 t u ds now (acl_run (redis_acl_store exec p order) h s0) =
    (Ok (Some [d \<leftarrow> ds. history_allows unix [op \<leftarrow> map snd h. redis_heeds loaded op] t d u
       (if now = 0 then clk0 else now)]),
     acl_run (redis_acl_store exec p order) h s0)"
  using acl_contract.check_history [OF redis_contract [OF assms(1)], of s0 loaded p h now clk0 t u ds order]
    assms(2-6) by simp

theorem redis_check_history_witness:
  "fst (redis_CheckBatch plain_redis ''acl:'' 0 ''t'' ''u'' [''a'', ''b''] 40000000000
      (acl_run (redis_acl_store plain_redis ''acl:'' key_order)
        [(1, OpSetVisibility ''t'' ''a'' VisibilityRestricted),
         (2, OpSetVisibility ''t'' ''b'' VisibilityRestricted),
         (3, OpGrant ''t'' ''a'' ''u'' 0 (Some 50000000000)),
         (4, OpGrant ''t'' ''b'' ''u'' 0 (Some 40999999999)),
         (5, OpRevoke ''t'' ''a'' ''u'')] (no_data False))) = Ok (Some [''a''])"
  by (subst redis_check_history [OF plain_redis_laws, where loaded = False])
     (simp_all add: no_colon_def history_allows_def history_public_def history_grant_def
        grant_error_def unix_def)

text \<open>
  C8: the stores are interchangeable, if the Redis server knows the two Lua scripts.  When every expiry
  time is a whole second and the identifiers have no colon, the in-memory store and the Redis store
  give the same answer, after the same operations, to every check at a time not before them.  With an
  empty script cache (nothing in the repository loads the scripts) that holds as long as \<open>Revoke\<close> is
  not called: the Redis store then fails to revoke (\<open>redis_revoke_noscript\<close>).
\<close>

theorem stores_agree:
  assumes "redis_laws exec view" and "view s0 = no_data loaded"
    and "loaded \<or> (\<forall>t d u. OpRevoke t d u \<notin> snd ` set h)"
    and "\<forall>(clk, op)\<in>set h. (\<forall>i\<in>op_ids op. no_colon i) \<and> clk \<le> (if now = 0 then clk0 else now)"
    and "\<forall>t d u vf e. OpGrant t d u vf (Some e) \<in> snd ` set h \<longrightarrow> 1000000000 dvd e"
    and "\<forall>i\<in>{t, u} \<union> set ds. no_colon i"
  shows "fst (redis_CheckBatch exec p clk0 t u ds now (acl_run (redis_acl_store exec p order) h s0)) =
    fst (mem_CheckBatch clk0 t u ds now (acl_run (mem_acl_store order) h NewInMemoryStore))"
proof (cases "t = [] \<or> u = []")
  case True
  then show ?thesis by (auto simp: redis_CheckBatch_def mem_CheckBatch_def)
next
  case False
  let ?now = "if now = 0 then clk0 else now"
  have "history_allows unix (map snd h) t d u ?now = history_allows id (map snd h) t d u ?now" for d
    using whole_seconds_live [of "map snd h"] assms(5) by (simp add: history_allows_def)
  moreover have mono: "\<forall>(clk, op)\<in>set h. (\<forall>i\<in>op_ids op. True) \<and> clk \<le> ?now" using assms(4) by blast
  moreover have "redis_heeds loaded op" if "op \<in> snd ` set h" for op
    using assms(3) that by (cases op) auto
  then have "[op \<leftarrow> map snd h. redis_heeds loaded op] = map snd h" by (auto intro!: filter_True)
  then have "redis_CheckBatch exec p clk0 t u ds now (acl_run (redis_acl_store exec p order) h s0) =
      (Ok (Some [d \<leftarrow> ds. history_allows unix (map snd h) t d u ?now]),
       acl_run (redis_acl_store exec p order) h s0)"
    using acl_contract.check_history [OF redis_contract [OF assms(1)], of s0 loaded p h now clk0 t u ds order]
      assms(2,4,6) False by simp
  moreover have "check_batch (mem_acl_store order) clk0 t u ds now (acl_run (mem_acl_store order) h NewInMemoryStore) =
      (Ok (Some [d \<leftarrow> ds. history_allows id (map snd h) t d u ?now]),
       acl_run (mem_acl_store order) h NewInMemoryStore)"
    using False mono mem.check_history [of NewInMemoryStore h now clk0 t u ds order] by simp
  ultimately show ?thesis by (simp only: fst_conv mem_store_simps)
qed

theorem stores_agree_witness:
  "fst (redis_CheckBatch plain_redis ''acl:'' 0 ''t'' ''u'' [''a''] 6000000000
      (acl_run (redis_acl_store plain_redis ''acl:'' key_order)
        [(1, OpSetVisibility ''t'' ''a'' VisibilityRestricted),
         (2, OpGrant ''t'' ''a'' ''u'' 0 (Some 7000000000))] (no_data False))) =
   fst (mem_CheckBatch 0 ''t'' ''u'' [''a''] 6000000000
      (acl_run (mem_acl_store key_order)
        [(1, OpSetVisibility ''t'' ''a'' VisibilityRestricted),
         (2, OpGrant ''t'' ''a'' ''u'' 0 (Some 7000000000))] NewInMemoryStore))"
  by (rule stores_agree [OF plain_redis_laws]) (auto simp: no_colon_def)

text \<open>
  An outage opens every document.  When Redis answers the visibility reads with an error, a check
  returns every document asked for, restricted or not, and reports no error to its caller.
\<close>

theorem redis_outage_fails_open:
  assumes "\<And>k s. \<exists>e. fst (exec (Get k) s) = RErr e" and "t \<noteq> []" and "u \<noteq> []"
  shows "fst (redis_CheckBatch exec p clk t u ds now s) = Ok (Some [d \<leftarrow> ds. d \<noteq> []])"
proof -
  obtain rs s' where e: "pipeline exec (concat (map (\<lambda>d. enqueueDocOps p t d (keyUserPermanent p t u)
      (keyUserExpiring p t u)) [d \<leftarrow> ds. d \<noteq> []])) s = (rs, s')" by fastforce
  from outage_replies [OF assms(1) e] show ?thesis
    using assms(2,3) e by (simp add: redis_CheckBatch_def Let_def)
qed

theorem redis_outage_fails_open_witness:
  "fst (redis_CheckBatch (\<lambda>c s. (RErr (ErrText ''i/o timeout''), s)) ''acl:'' 0 ''t'' ''u'' [''secret''] 7 ()) =
    Ok (Some [''secret''])"
  by (subst redis_outage_fails_open) simp_all

text \<open>
  Revoking needs the scripts.  On a server whose script cache is empty (after a restart or a
  \<open>SCRIPT FLUSH\<close>; nothing in the repository loads the scripts) \<open>Revoke\<close> fails with \<open>NOSCRIPT\<close> and
  changes nothing.
\<close>

theorem redis_revoke_noscript:
  assumes "redis_laws exec view" and "\<not> rv_scripts (view s)"
    and "t \<noteq> []" and "d \<noteq> []" and "u \<noteq> []" and "redis_Revoke exec p t d u s = (r, s')"
  shows "r = Fail (StoreErr noscript) \<and> view s' = view s"
proof -
  have script: "\<exists>s'. exec c s = (RErr noscript, s') \<and> view s' = view s"
    if "is_script c" "\<not> rv_scripts (view s)" for c s
    using that assms(1) unfolding redis_laws_def by (metis prod.collapse)
  have run: "\<exists>s'. pipeline exec cs s = (replicate (length cs) (RErr noscript), s') \<and> view s' = view s"
    if "\<forall>c\<in>set cs. is_script c" "\<not> rv_scripts (view s)" for cs s
    using that
  proof (induction cs arbitrary: s)
    case (Cons c cs)
    then obtain s1 where "exec c s = (RErr noscript, s1)" "view s1 = view s" using script [of c s] by auto
    then show ?case using Cons.IH [of s1] Cons.prems by fastforce
  qed simp
  let ?cs = "[SRemDelIfEmpty (keyPermanent p t d) u, ZRemDelIfEmpty (keyExpiring p t d) u,
    SRemDelIfEmpty (keyUserPermanent p t u) d, ZRemDelIfEmpty (keyUserExpiring p t u) d]"
  obtain s1 where "pipeline exec ?cs s = (replicate (length ?cs) (RErr noscript), s1)" "view s1 = view s"
    using run [of ?cs s] assms(2) by auto
  then show ?thesis using assms(3-6) unfolding redis_Revoke_def
    by (simp only: prod.case if_False simp_thms) (simp add: numeral_eq_Suc)
qed

theorem redis_revoke_noscript_witness:
  "fst (redis_Revoke plain_redis ''acl:'' ''t'' ''d'' ''u'' (no_data False)) =
    Fail (StoreErr noscript)"
proof -
  obtain r s' where e: "redis_Revoke plain_redis ''acl:'' ''t'' ''d'' ''u'' (no_data False) = (r, s')"
    by fastforce
  from redis_revoke_noscript [OF plain_redis_laws _ _ _ _ e] e show ?thesis by simp
qed

end
