(* ===== verification/AdminService.thy ===== *)
theory AdminService
  imports AdminSearch AclRedis GoFlag
begin

text \<open>
  \<open>internal/admin/service.go\<close>: the admin service's handlers over Redis and, when configured, the
  vector search.  Redis is again a parameter that executes one command at a time; JSON, the clock's
  formatted readings, \<open>strings.ToLower\<close> and \<open>fmt.Sscanf\<close> are the fields of \<open>admin_env\<close>.  A handler
  gets its decoded request body (or the decoder's error) or its query, and returns the response, an
  error or a panic.  The errors of \<open>addAuditLog\<close> and of the search index, which the code prints or
  drops, are dropped.
\<close>

section \<open>Redis and the environment\<close>

datatype admin_cmd =
    AGet string
  | AExists string
  | ASet string string
  | ADel string
  | AKeys string
  | ASAdd string string
  | ASRem string string
  | ASMembers string
  | ALPush string string
  | ALLen string
  | ALRange string int int

type_synonym 'r admin_exec = "admin_cmd \<Rightarrow> 'r \<Rightarrow> redis_reply \<times> 'r"

fun string_reply :: "redis_reply \<Rightarrow> go_err + string" where
  "string_reply (RStr x) = Inr x"
| "string_reply (RErr e) = Inl e"
| "string_reply RNil = Inl redis_nil"
| "string_reply _ = Inl (ErrText ''redis: unexpected reply'')"

fun int_reply :: "redis_reply \<Rightarrow> go_err + int" where
  "int_reply (RInt n) = Inr n"
| "int_reply (RErr e) = Inl e"
| "int_reply RNil = Inl redis_nil"
| "int_reply _ = Inl (ErrText ''redis: unexpected reply'')"

record AuditLog =
  al_id :: int
  al_action :: string
  al_target :: string
  al_message :: string
  al_timestamp :: string

record admin_env =
  marshal_user :: "User \<Rightarrow> go_err + string"
  unmarshal_user :: "string \<Rightarrow> go_err + User"
  marshal_doc :: "Document \<Rightarrow> go_err + string"
  unmarshal_doc :: "string \<Rightarrow> go_err + Document"
  marshal_log :: "AuditLog \<Rightarrow> go_err + string"
  unmarshal_log :: "string \<Rightarrow> go_err + AuditLog"
  to_lower :: "string \<Rightarrow> string"
  sscanf_int :: "string \<Rightarrow> int option"
  now_rfc3339 :: string
  now_rfc3339nano :: string
  now_ns :: int

text \<open>\<open>Service\<close>: the search is \<open>None\<close> when it is not configured.\<close>

record ('e, 'm, 'r) admin_service =
  adm_redis :: "'r admin_exec"
  adm_search :: "('e search_env \<times> ('e, 'm) milvus) option"

record ('m, 'r) admin_state =
  st_redis :: 'r
  st_milvus :: 'm

text \<open>One Redis command of a handler.\<close>

definition run_cmd ::
  "('e, 'm, 'r) admin_service \<Rightarrow> admin_cmd \<Rightarrow> ('m, 'r) admin_state \<Rightarrow> redis_reply \<times> ('m, 'r) admin_state" where
  "run_cmd svc c s = (case adm_redis svc c (st_redis s) of (r, x) \<Rightarrow> (r, s\<lparr>st_redis := x\<rparr>))"

section \<open>Responses\<close>

record Permission =
  p_tenant_id :: string
  p_user_id :: string
  p_doc_ids :: "string list"
  p_documents :: "Document list"

datatype admin_data =
    NoData
  | UserData User
  | DocData Document
  | UserPage "User list" int int int int
  | DocPage "Document list" int int int int
  | PermData "Permission list"
  | LogData int int "AuditLog list"

datatype admin_response = Response int string admin_data

type_synonym ('m, 'r) handler_result = "(go_err, admin_response) outcome \<times> ('m, 'r) admin_state"

section \<open>Keywords and pages\<close>

text \<open>\<open>strings.Contains\<close>\<close>

definition Contains :: "string \<Rightarrow> string \<Rightarrow> bool" where
  "Contains s sub = sublist sub s"

definition matches_keyword :: "admin_env \<Rightarrow> string list \<Rightarrow> string \<Rightarrow> bool" where
  "matches_keyword env fs keyword =
     (if keyword = [] then True
      else let keyword = to_lower env (TrimSpace keyword) in
        if keyword = [] then True
        else (\<exists>f\<in>set fs. Contains (to_lower env f) keyword))"

definition userMatchesKeyword :: "admin_env \<Rightarrow> User \<Rightarrow> string \<Rightarrow> bool" where
  "userMatchesKeyword env user keyword =
     matches_keyword env [u_name user, u_id user, u_email user] keyword"

definition documentMatchesKeyword :: "admin_env \<Rightarrow> Document \<Rightarrow> string \<Rightarrow> bool" where
  "documentMatchesKeyword env doc keyword =
     matches_keyword env [d_title doc, d_category doc, d_id doc] keyword"

definition parsePagination :: "(string \<Rightarrow> string) \<Rightarrow> int \<times> int" where
  "parsePagination query =
     ((case ParseInt10 (query ''page'') of Inl _ \<Rightarrow> 1 | Inr p \<Rightarrow> if p > 0 then p else 1),
      (case ParseInt10 (query ''page_size'') of
         Inl _ \<Rightarrow> 50 | Inr ps \<Rightarrow> if ps > 0 \<and> ps \<le> 100 then ps else 50))"

text \<open>
  The page computation of \<open>ListUsers\<close> and \<open>ListDocuments\<close>, on \<open>int64\<close> values, with the slice
  expression \<open>xs[start:end]\<close> panicking out of range.
\<close>

definition paginate :: "int \<Rightarrow> int \<Rightarrow> 'a list \<Rightarrow> ('e, 'a list) outcome" where
  "paginate page pageSize xs =
     (let count = int (length xs);
          start = wrap64 (wrap64 (page - 1) * pageSize);
          start = (if start > count then count else start);
          stop = wrap64 (start + pageSize);
          stop = (if stop > count then count else stop) in
      if start < 0 \<or> stop < start then Panic ''slice bounds out of range''
      else Ok (slice (nat start) (nat stop) xs))"

definition total_page :: "int \<Rightarrow> int \<Rightarrow> int" where
  "total_page count pageSize = go_quot (wrap64 (wrap64 (count + pageSize) - 1)) pageSize"

text \<open>The loops that fetch and decode values by key, skipping what fails.\<close>

fun fetch ::
  "('e, 'm, 'r) admin_service \<Rightarrow> (string \<Rightarrow> go_err + 'a) \<Rightarrow> ('a \<Rightarrow> bool) \<Rightarrow> string list \<Rightarrow>
   ('m, 'r) admin_state \<Rightarrow> 'a list \<times> ('m, 'r) admin_state" where
  "fetch svc unmarshal keep [] s = ([], s)"
| "fetch svc unmarshal keep (key # keys) s =
     (case run_cmd svc (AGet key) s of
        (r, s) \<Rightarrow>
          (case string_reply r of
             Inl _ \<Rightarrow> fetch svc unmarshal keep keys s
           | Inr data \<Rightarrow>
               (case unmarshal data of
                  Inl _ \<Rightarrow> fetch svc unmarshal keep keys s
                | Inr x \<Rightarrow>
                    (case fetch svc unmarshal keep keys s of
                       (xs, s) \<Rightarrow> (if keep x then x # xs else xs, s)))))"

definition getUsersByStringMatch ::
  "admin_env \<Rightarrow> ('e, 'm, 'r) admin_service \<Rightarrow> string \<Rightarrow> ('m, 'r) admin_state \<Rightarrow>
   User list \<times> ('m, 'r) admin_state" where
  "getUsersByStringMatch env svc keyword s =
     (case run_cmd svc (AKeys ''user:*'') s of
        (r, s) \<Rightarrow>
          (case list_result r of
             Inl _ \<Rightarrow> ([], s)
           | Inr keys \<Rightarrow>
               fetch svc (unmarshal_user env) (\<lambda>user. userMatchesKeyword env user keyword) keys s))"

definition getDocsByStringMatch ::
  "admin_env \<Rightarrow> ('e, 'm, 'r) admin_service \<Rightarrow> string \<Rightarrow> ('m, 'r) admin_state \<Rightarrow>
   Document list \<times> ('m, 'r) admin_state" where
  "getDocsByStringMatch env svc keyword s =
     (case run_cmd svc (AKeys ''doc:*'') s of
        (r, s) \<Rightarrow>
          (case list_result r of
             Inl _ \<Rightarrow> ([], s)
           | Inr keys \<Rightarrow>
               fetch svc (unmarshal_doc env) (\<lambda>doc. documentMatchesKeyword env doc keyword) keys s))"

section \<open>Audit log\<close>

definition auditLogsKey :: string where "auditLogsKey = ''audit:logs''"

definition addAuditLog ::
  "admin_env \<Rightarrow> ('e, 'm, 'r) admin_service \<Rightarrow> string \<Rightarrow> string \<Rightarrow> string \<Rightarrow> ('m, 'r) admin_state \<Rightarrow>
   go_err option \<times> ('m, 'r) admin_state" where
  "addAuditLog env svc action target message s =
     (let logEntry = \<lparr>al_id = 0, al_action = action, al_target = target, al_message = message,
                      al_timestamp = now_rfc3339nano env\<rparr> in
      case marshal_log env logEntry of
        Inl err \<Rightarrow> (Some err, s)
      | Inr data \<Rightarrow> (case run_cmd svc (ALPush auditLogsKey data) s of (r, s) \<Rightarrow> (reply_err r, s)))"

text \<open>The loop over the entries; \<open>idx\<close> counts those skipped too.\<close>

fun decode_logs :: "admin_env \<Rightarrow> int \<Rightarrow> string list \<Rightarrow> AuditLog list" where
  "decode_logs env idx [] = []"
| "decode_logs env idx (logStr # rest) =
     (case unmarshal_log env logStr of
        Inl _ \<Rightarrow> decode_logs env (idx + 1) rest
      | Inr log \<Rightarrow> log\<lparr>al_id := idx + 1\<rparr> # decode_logs env (idx + 1) rest)"

definition GetAuditLogs ::
  "admin_env \<Rightarrow> ('e, 'm, 'r) admin_service \<Rightarrow> (string \<Rightarrow> string) \<Rightarrow> ('m, 'r) admin_state \<Rightarrow>
   ('m, 'r) handler_result" where
  "GetAuditLogs env svc query s =
     (let limit = 50;
          l = query ''limit'';
          limit = (if l \<noteq> [] then (case sscanf_int env l of Some n \<Rightarrow> n | None \<Rightarrow> limit) else limit) in
      case run_cmd svc (ALLen auditLogsKey) s of
        (r, s) \<Rightarrow>
          (case int_reply r of
             Inl err \<Rightarrow> (Fail err, s)
           | Inr count \<Rightarrow>
               (case run_cmd svc (ALRange auditLogsKey 0 (wrap64 (limit - 1))) s of
                  (r, s) \<Rightarrow>
                    (case list_result r of
                       Inl err \<Rightarrow> (Fail err, s)
                     | Inr logStrs \<Rightarrow>
                         (Ok (Response 200 ''success'' (LogData count limit (decode_logs env 0 logStrs))), s)))))"

section \<open>Users\<close>

definition ListUsers ::
  "admin_env \<Rightarrow> ('e, 'm, 'r) admin_service \<Rightarrow> (string \<Rightarrow> string) \<Rightarrow> ('m, 'r) admin_state \<Rightarrow>
   ('m, 'r) handler_result" where
  "ListUsers env svc query s =
     (let keyword = query ''keyword'';
          (page, pageSize) = parsePagination query;
          (users, s) =
            (case (adm_search svc, keyword) of
               (Some (senv, cl), _ # _) \<Rightarrow>
                 (case SearchUsers senv cl keyword 100 (st_milvus s) of
                    (r, m) \<Rightarrow>
                      let s = s\<lparr>st_milvus := m\<rparr> in
                      (case r of
                         Inr (u # us) \<Rightarrow>
                           fetch svc (unmarshal_user env) (\<lambda>_. True) (map (\<lambda>i. ''user:'' @ i) (u # us)) s
                       | _ \<Rightarrow> getUsersByStringMatch env svc keyword s))
             | _ \<Rightarrow> getUsersByStringMatch env svc keyword s) in
      case paginate page pageSize users of
        Ok p \<Rightarrow> (Ok (Response 200 ''success'' (UserPage p page pageSize (int (length users))
                  (total_page (int (length users)) pageSize))), s)
      | Fail e \<Rightarrow> (Fail e, s) | Panic e \<Rightarrow> (Panic e, s) | Hang \<Rightarrow> (Hang, s))"

record CreateUserReq =
  cu_id :: string
  cu_name :: string
  cu_email :: string

definition CreateUser ::
  "admin_env \<Rightarrow> ('e, 'm, 'r) admin_service \<Rightarrow> go_err + CreateUserReq \<Rightarrow> ('m, 'r) admin_state \<Rightarrow>
   ('m, 'r) handler_result" where
  "CreateUser env svc body s =
     (case body of
        Inl err \<Rightarrow> (Fail err, s)
      | Inr req \<Rightarrow>
          (case run_cmd svc (AExists (''user:'' @ cu_id req)) s of
             (r, s) \<Rightarrow>
               (case int_reply r of
                  Inl err \<Rightarrow> (Fail err, s)
                | Inr n \<Rightarrow>
                    if n > 0 then (Ok (Response 400 ''user already exists'' NoData), s)
                    else
                      let user = \<lparr>u_id = cu_id req, u_name = cu_name req, u_email = cu_email req,
                                  u_created_at = now_rfc3339 env\<rparr> in
                      (case marshal_user env user of
                         Inl err \<Rightarrow> (Fail err, s)
                       | Inr data \<Rightarrow>
                           (case run_cmd svc (ASet (''user:'' @ cu_id req) data) s of
                              (r, s) \<Rightarrow>
                                (case reply_err r of
                                   Some err \<Rightarrow> (Fail err, s)
                                 | None \<Rightarrow>
                                     let s = (case adm_search svc of
                                                None \<Rightarrow> s
                                              | Some (senv, cl) \<Rightarrow>
                                                  s\<lparr>st_milvus := snd (IndexUser senv cl user (st_milvus s))\<rparr>);
                                         s = snd (addAuditLog env svc ''user_created'' (cu_id req)
                                               (''created user: '' @ cu_name req) s)
                                     in (Ok (Response 200 ''user created'' (UserData user)), s)))))))"

text \<open>Deleting every key of a list, errors ignored.\<close>

fun delete_keys ::
  "('e, 'm, 'r) admin_service \<Rightarrow> string list \<Rightarrow> ('m, 'r) admin_state \<Rightarrow> ('m, 'r) admin_state" where
  "delete_keys svc [] s = s"
| "delete_keys svc (key # keys) s = delete_keys svc keys (snd (run_cmd svc (ADel key) s))"

definition DeleteUser ::
  "admin_env \<Rightarrow> ('e, 'm, 'r) admin_service \<Rightarrow> go_err + string \<Rightarrow> ('m, 'r) admin_state \<Rightarrow>
   ('m, 'r) handler_result" where
  "DeleteUser env svc body s =
     (case body of
        Inl err \<Rightarrow> (Fail err, s)
      | Inr i \<Rightarrow>
          (case run_cmd svc (ADel (''user:'' @ i)) s of
             (r, s) \<Rightarrow>
               (case reply_err r of
                  Some err \<Rightarrow> (Fail err, s)
                | None \<Rightarrow>
                    let s = (case adm_search svc of
                               None \<Rightarrow> s
                             | Some (senv, cl) \<Rightarrow>
                                 s\<lparr>st_milvus := snd (search_DeleteUser cl i (st_milvus s))\<rparr>);
                        (r, s) = run_cmd svc (AKeys (''acl:*:'' @ i)) s;
                        s = (case list_result r of Inl _ \<Rightarrow> s | Inr keys \<Rightarrow> delete_keys svc keys s);
                        s = snd (addAuditLog env svc ''user_deleted'' i (''deleted user: '' @ i) s)
                    in (Ok (Response 200 ''user deleted'' NoData), s))))"

section \<open>Documents\<close>

definition ListDocuments ::
  "admin_env \<Rightarrow> ('e, 'm, 'r) admin_service \<Rightarrow> (string \<Rightarrow> string) \<Rightarrow> ('m, 'r) admin_state \<Rightarrow>
   ('m, 'r) handler_result" where
  "ListDocuments env svc query s =
     (let keyword = query ''keyword'';
          (page, pageSize) = parsePagination query;
          found =
            (case (adm_search svc, keyword) of
               (Some (senv, cl), _ # _) \<Rightarrow>
                 (case SearchDocuments senv cl keyword 100 (st_milvus s) of
                    (Panic e, m) \<Rightarrow> (Panic e, s\<lparr>st_milvus := m\<rparr>)
                  | (Ok (d # ds), m) \<Rightarrow>
                      (case fetch svc (unmarshal_doc env) (\<lambda>_. True) (map (\<lambda>i. ''doc:'' @ i) (d # ds))
                              (s\<lparr>st_milvus := m\<rparr>) of (docs, s) \<Rightarrow> (Ok docs, s))
                  | (_, m) \<Rightarrow>
                      (case getDocsByStringMatch env svc keyword (s\<lparr>st_milvus := m\<rparr>) of
                         (docs, s) \<Rightarrow> (Ok docs, s)))
             | _ \<Rightarrow> (case getDocsByStringMatch env svc keyword s of (docs, s) \<Rightarrow> (Ok docs, s))) in
      and_then found (\<lambda>docs s.
      and_then (paginate page pageSize docs, s) (\<lambda>p s.
        (Ok (Response 200 ''success'' (DocPage p page pageSize (int (length docs))
           (total_page (int (length docs)) pageSize))), s))))"

record CreateDocReq =
  cd_id :: string
  cd_title :: string
  cd_category :: string
  cd_owner_id :: string

definition CreateDocument ::
  "admin_env \<Rightarrow> ('e, 'm, 'r) admin_service \<Rightarrow> go_err + CreateDocReq \<Rightarrow> ('m, 'r) admin_state \<Rightarrow>
   ('m, 'r) handler_result" where
  "CreateDocument env svc body s =
     (case body of
        Inl err \<Rightarrow> (Fail err, s)
      | Inr req \<Rightarrow>
          (case run_cmd svc (AExists (''doc:'' @ cd_id req)) s of
             (r, s) \<Rightarrow>
               (case int_reply r of
                  Inl err \<Rightarrow> (Fail err, s)
                | Inr n \<Rightarrow>
                    if n > 0 then (Ok (Response 400 ''document already exists'' NoData), s)
                    else
                      let doc = \<lparr>d_id = cd_id req, d_title = cd_title req, d_category = cd_category req,
                                 d_owner_id = cd_owner_id req, d_created_at = now_rfc3339 env\<rparr> in
                      (case marshal_doc env doc of
                         Inl err \<Rightarrow> (Fail err, s)
                       | Inr data \<Rightarrow>
                           (case run_cmd svc (ASet (''doc:'' @ cd_id req) data) s of
                              (r, s) \<Rightarrow>
                                (case reply_err r of
                                   Some err \<Rightarrow> (Fail err, s)
                                 | None \<Rightarrow>
                                     let s = (case adm_search svc of
                                                None \<Rightarrow> s
                                              | Some (senv, cl) \<Rightarrow>
                                                  s\<lparr>st_milvus := snd (IndexDocument senv (now_ns env) cl doc
                                                                    (st_milvus s))\<rparr>);
                                         s = snd (addAuditLog env svc ''doc_created'' (cd_id req)
                                               (''created document: '' @ cd_title req) s)
                                     in (Ok (Response 200 ''document created'' (DocData doc)), s)))))))"

definition DeleteDocument ::
  "admin_env \<Rightarrow> ('e, 'm, 'r) admin_service \<Rightarrow> go_err + string \<Rightarrow> ('m, 'r) admin_state \<Rightarrow>
   ('m, 'r) handler_result" where
  "DeleteDocument env svc body s =
     (case body of
        Inl err \<Rightarrow> (Fail err, s)
      | Inr i \<Rightarrow>
          (case run_cmd svc (ADel (''doc:'' @ i)) s of
             (r, s) \<Rightarrow>
               (case reply_err r of
                  Some err \<Rightarrow> (Fail err, s)
                | None \<Rightarrow>
                    let s = (case adm_search svc of
                               None \<Rightarrow> s
                             | Some (senv, cl) \<Rightarrow>
                                 s\<lparr>st_milvus := snd (search_DeleteDocument cl i (st_milvus s))\<rparr>);
                        s = snd (addAuditLog env svc ''doc_deleted'' i (''deleted document: '' @ i) s)
                    in (Ok (Response 200 ''document deleted'' NoData), s))))"

section \<open>Permissions\<close>

fun list_perms ::
  "admin_env \<Rightarrow> ('e, 'm, 'r) admin_service \<Rightarrow> string list \<Rightarrow> ('m, 'r) admin_state \<Rightarrow>
   Permission list \<times> ('m, 'r) admin_state" where
  "list_perms env svc [] s = ([], s)"
| "list_perms env svc (key # keys) s =
     (case run_cmd svc (ASMembers key) s of
        (r, s) \<Rightarrow>
          (case list_result r of
             Inl _ \<Rightarrow> list_perms env svc keys s
           | Inr docIDs \<Rightarrow>
               let parts = Split (CHR '':'') key in
               if length parts \<noteq> 3 then list_perms env svc keys s
               else
                 (case fetch svc (unmarshal_doc env) (\<lambda>_. True) (map (\<lambda>d. ''doc:'' @ d) docIDs) s of
                    (documents, s) \<Rightarrow>
                      (case list_perms env svc keys s of
                         (perms, s) \<Rightarrow>
                           (\<lparr>p_tenant_id = parts ! 1, p_user_id = parts ! 2, p_doc_ids = docIDs,
                             p_documents = documents\<rparr> # perms, s)))))"

definition ListPermissions ::
  "admin_env \<Rightarrow> ('e, 'm, 'r) admin_service \<Rightarrow> (string \<Rightarrow> string) \<Rightarrow> ('m, 'r) admin_state \<Rightarrow>
   ('m, 'r) handler_result" where
  "ListPermissions env svc query s =
     (let tenantID = query ''tenant_id'';
          tenantID = (if tenantID = [] then ''tenant-001'' else tenantID) in
      case run_cmd svc (AKeys (''acl:'' @ tenantID @ '':*'')) s of
        (r, s) \<Rightarrow>
          (case list_result r of
             Inl err \<Rightarrow> (Fail err, s)
           | Inr keys \<Rightarrow>
               (case list_perms env svc keys s of
                  (perms, s) \<Rightarrow> (Ok (Response 200 ''success'' (PermData perms)), s))))"

record PermissionReq =
  pr_tenant_id :: string
  pr_user_id :: string
  pr_doc_id :: string

definition permission_key :: "PermissionReq \<Rightarrow> string" where
  "permission_key req = ''acl:'' @ pr_tenant_id req @ '':'' @ pr_user_id req"

definition GrantPermission ::
  "admin_env \<Rightarrow> ('e, 'm, 'r) admin_service \<Rightarrow> go_err + PermissionReq \<Rightarrow> ('m, 'r) admin_state \<Rightarrow>
   ('m, 'r) handler_result" where
  "GrantPermission env svc body s =
     (case body of
        Inl err \<Rightarrow> (Fail err, s)
      | Inr req \<Rightarrow>
          (case run_cmd svc (ASAdd (permission_key req) (pr_doc_id req)) s of
             (r, s) \<Rightarrow>
               (case reply_err r of
                  Some err \<Rightarrow> (Fail err, s)
                | None \<Rightarrow>
                    let s = snd (addAuditLog env svc ''permission_granted''
                          (pr_user_id req @ '':'' @ pr_doc_id req)
                          (''granted '' @ pr_user_id req @ '' access to '' @ pr_doc_id req) s)
                    in (Ok (Response 200 ''permission granted'' NoData), s))))"

definition RevokePermission ::
  "admin_env \<Rightarrow> ('e, 'm, 'r) admin_service \<Rightarrow> go_err + PermissionReq \<Rightarrow> ('m, 'r) admin_state \<Rightarrow>
   ('m, 'r) handler_result" where
  "RevokePermission env svc body s =
     (case body of
        Inl err \<Rightarrow> (Fail err, s)
      | Inr req \<Rightarrow>
          (case run_cmd svc (ASRem (permission_key req) (pr_doc_id req)) s of
             (r, s) \<Rightarrow>
               (case reply_err r of
                  Some err \<Rightarrow> (Fail err, s)
                | None \<Rightarrow>
                    let s = snd (addAuditLog env svc ''permission_revoked''
                          (pr_user_id req @ '':'' @ pr_doc_id req)
                          (''revoked '' @ pr_user_id req @ '' access to '' @ pr_doc_id req) s)
                    in (Ok (Response 200 ''permission revoked'' NoData), s))))"

end
