(* ===== verification/AdminSpec.thy ===== *)
theory AdminSpec
  imports AdminService
begin

text \<open>
  Properties of the admin service: the pages of a listing, and what its handlers do to the data of the
  ACL service when both use the same Redis server.
\<close>

section \<open>Pages\<close>

lemma take_append_slice: "take (n * p) xs @ take p (drop (n * p) xs) = take (Suc n * p) xs"
  by (metis add.commute mult_Suc take_add)

lemma concat_pages: "concat (map (\<lambda>k. take p (drop (k * p) xs)) [0..<n]) = take (n * p) xs"
  by (induction n) (simp_all add: take_append_slice del: mult_Suc)

lemma parsePagination_range:
  assumes "parsePagination query = (page, ps)"
  shows "1 \<le> page \<and> page < 2 ^ 63 \<and> 1 \<le> ps \<and> ps \<le> 100"
  using assms ParseInt10_bounds [of "query ''page''"]
  by (auto simp: parsePagination_def split: sum.splits if_splits)

lemma paginate_start:
  assumes "1 \<le> page" and "page < 2 ^ 63" and "1 \<le> ps" and "ps \<le> 100" and "int (length xs) < 2 ^ 62"
  shows "paginate page ps xs =
    (if wrap64 ((page - 1) * ps) < 0 then Panic ''slice bounds out of range''
     else Ok (take (nat ps) (drop (nat (wrap64 ((page - 1) * ps))) xs)))"
proof -
  have p: "wrap64 (page - 1) = page - 1" using assms(1,2) by (intro wrap64_id) auto
  obtain start where start: "start = wrap64 ((page - 1) * ps)" by simp
  show ?thesis
  proof (cases "start < 0")
    case True
    then show ?thesis using p start by (simp add: paginate_def Let_def)
  next
    case False
    let ?s = "if start > int (length xs) then int (length xs) else start"
    have s: "0 \<le> ?s" "?s \<le> int (length xs)" using False by auto
    have w: "wrap64 (?s + ps) = ?s + ps" using s assms(3-5) by (intro wrap64_id) auto
    have "paginate page ps xs = (let stop = (if ?s + ps > int (length xs) then int (length xs) else ?s + ps) in
        if ?s < 0 \<or> stop < ?s then Panic ''slice bounds out of range'' else Ok (slice (nat ?s) (nat stop) xs))"
      unfolding paginate_def Let_def p start [symmetric] w by (rule refl)
    also have "\<dots> = Ok (take (nat ps) (drop (nat start) xs))"
      using False assms(3) by (auto simp: Let_def slice_def nat_diff_distrib nat_add_distrib)
    finally show ?thesis using False start by simp
  qed
qed

text \<open>The same, the case without a wrap-around first.\<close>

lemma paginate_split:
  assumes "1 \<le> page" and "page < 2 ^ 63" and "1 \<le> ps" and "ps \<le> 100" and "int (length xs) < 2 ^ 62"
  shows "paginate page ps xs =
    (if (page - 1) * ps < 2 ^ 63 then Ok (take (nat ps) (drop (nat ((page - 1) * ps)) xs))
     else if wrap64 ((page - 1) * ps) < 0 then Panic ''slice bounds out of range''
     else Ok (take (nat ps) (drop (nat (wrap64 ((page - 1) * ps))) xs)))"
proof -
  have nonneg: "0 \<le> (page - 1) * ps" using assms(1,3) by simp
  then have "wrap64 ((page - 1) * ps) = (page - 1) * ps" if "(page - 1) * ps < 2 ^ 63"
    using that by (intro wrap64_id) simp_all
  moreover note nonneg
  ultimately show ?thesis using paginate_start [OF assms] by auto
qed

lemma total_page_div:
  assumes "1 \<le> ps" and "ps \<le> 100" and "int n < 2 ^ 62"
  shows "total_page (int n) ps = (int n + ps - 1) div ps"
proof -
  have "wrap64 (int n + ps) = int n + ps" "wrap64 (int n + ps - 1) = int n + ps - 1"
    using assms by (auto intro!: wrap64_id)
  then show ?thesis using assms by (simp add: total_page_def go_quot_nonneg)
qed

text \<open>
  C36: pages.  For the page and page size read from any query, the listing shows exactly the page's slice of
  the matches as long as its first index fits an \<open>int64\<close>; when the product wraps, it panics if the result is
  negative and otherwise shows the page at the wrapped index (page 288230376151711745 of size 64 shows
  page 1).  The pages from the first to the reported total are never affected: put together, they are all
  matches, each once and in order.
\<close>

theorem list_pages:
  assumes "parsePagination query = (page, ps)" and "int (length xs) < 2 ^ 62"
  shows "paginate page ps xs =
      (if (page - 1) * ps < 2 ^ 63 then Ok (take (nat ps) (drop (nat ((page - 1) * ps)) xs))
       else if wrap64 ((page - 1) * ps) < 0 then Panic ''slice bounds out of range''
       else Ok (take (nat ps) (drop (nat (wrap64 ((page - 1) * ps))) xs))) \<and>
    (\<exists>pages. map Ok pages = map (\<lambda>k. paginate (int k + 1) ps xs) [0..<nat (total_page (int (length xs)) ps)] \<and>
      concat pages = xs)"
proof -
  note r = parsePagination_range [OF assms(1)]
  let ?n = "nat (total_page (int (length xs)) ps)"
  have n: "int ?n = (int (length xs) + ps - 1) div ps"
    using r assms(2) by (simp add: total_page_div pos_imp_zdiv_nonneg_iff)
  have bound: "int ?n * ps \<le> int (length xs) + ps - 1" "int (length xs) \<le> int ?n * ps"
    unfolding n using r by (smt (verit) minus_mod_eq_div_mult pos_mod_bound pos_mod_sign)+
  have page: "paginate (int k + 1) ps xs = Ok (take (nat ps) (drop (k * nat ps) xs))" if "k < ?n" for k
  proof -
    have "int k * ps \<le> int ?n * ps" using that r by (intro mult_right_mono) auto
    then have kp: "0 \<le> int k * ps" "int k * ps < 2 ^ 62 + 100"
      using r assms(2) bound(1) by (simp, linarith)
    moreover have "int k \<le> int k * ps" using r by (simp add: mult_le_cancel_left1)
    ultimately have "wrap64 ((int k + 1 - 1) * ps) = int k * ps" "int k + 1 < 2 ^ 63"
      by (auto intro!: wrap64_id)
    moreover have "nat (int k * ps) = k * nat ps" using r by (simp add: nat_mult_distrib)
    ultimately show ?thesis using paginate_start [of "int k + 1" ps xs] r assms(2) kp(1) by simp
  qed
  have "concat (map (\<lambda>k. take (nat ps) (drop (k * nat ps) xs)) [0..<?n]) = take (?n * nat ps) xs"
    by (rule concat_pages)
  moreover have "int (?n * nat ps) = int ?n * ps" using r by simp
  then have "length xs \<le> ?n * nat ps" using bound(2) by linarith
  ultimately have "concat (map (\<lambda>k. take (nat ps) (drop (k * nat ps) xs)) [0..<?n]) = xs" by simp
  moreover have "map Ok (map (\<lambda>k. take (nat ps) (drop (k * nat ps) xs)) [0..<?n]) =
      map (\<lambda>k. paginate (int k + 1) ps xs) [0..<?n]"
    by (simp add: page)
  ultimately show ?thesis using paginate_split [of page ps xs] r assms(2) by blast
qed

theorem list_pages_witness:
  "paginate 9223372036854775807 50 [1 :: nat, 2] = Panic ''slice bounds out of range'' \<and>
   paginate 288230376151711745 64 [1 :: nat, 2] = Ok [1, 2]"
proof -
  have "parsePagination (\<lambda>k. if k = ''page'' then ''9223372036854775807'' else []) = (9223372036854775807, 50)"
    "parsePagination (\<lambda>k. if k = ''page'' then ''288230376151711745'' else ''64'') = (288230376151711745, 64)"
    by (simp_all add: parsePagination_def ParseInt10_def digit_value_def code_of_def)
  from this [THEN list_pages, THEN conjunct1, of "[1 :: nat, 2]"] show ?thesis
    by (simp add: wrap64_def)
qed

section \<open>What Redis documents of the admin commands\<close>

text \<open>
  \<open>KEYS\<close> patterns: a star matches any string, and in a pattern without question marks, brackets and
  backslashes the other letters match themselves.
\<close>

definition star_pattern :: "string \<Rightarrow> bool" where
  "star_pattern p \<longleftrightarrow> set p \<inter> {CHR ''?'', CHR ''['', CHR '']'', CHR 0x5C} = {}"

fun glob :: "string \<Rightarrow> string \<Rightarrow> bool" where
  "glob [] s = (s = [])"
| "glob (c # p) s =
     (if c = CHR ''*'' then glob p s \<or> (case s of [] \<Rightarrow> False | x # xs \<Rightarrow> glob (c # p) xs)
      else (case s of [] \<Rightarrow> False | x # xs \<Rightarrow> x = c \<and> glob p xs))"

lemma glob_literal: "CHR ''*'' \<notin> set l \<Longrightarrow> glob (l @ p) (l @ s) = glob p s"
  by (induction l) auto

lemma glob_star: "glob p s \<Longrightarrow> glob (CHR ''*'' # p) (x @ s)"
  by (induction x) auto

lemma glob_self: "CHR ''*'' \<notin> set l \<Longrightarrow> glob l l"
  using glob_literal [of l "[]" "[]"] by simp

definition holds_key :: "redis_view \<Rightarrow> string \<Rightarrow> bool" where
  "holds_key v k \<longleftrightarrow> rv_str v k \<noteq> None \<or> rv_set v k \<noteq> {} \<or> rv_zset v k \<noteq> Map.empty"

text \<open>
  \<open>DEL\<close> removes its key, \<open>KEYS\<close> answers every key there is that matches, \<open>LPUSH\<close> does not touch
  strings, sets and sorted sets.
\<close>

definition admin_laws :: "'r admin_exec \<Rightarrow> ('r \<Rightarrow> redis_view) \<Rightarrow> bool" where
  "admin_laws exec view \<longleftrightarrow>
     (\<forall>k s. (\<exists>n. fst (exec (ADel k) s) = RInt n) \<and> view (snd (exec (ADel k) s)) = drop_keys [k] (view s)) \<and>
     (\<forall>pat s. view (snd (exec (AKeys pat) s)) = view s \<and> (\<exists>ks. fst (exec (AKeys pat) s) = RList ks \<and>
        (star_pattern pat \<longrightarrow> (\<forall>k. holds_key (view s) k \<and> glob pat k \<longrightarrow> k \<in> set ks)))) \<and>
     (\<forall>k x s. view (snd (exec (ALPush k x) s)) = view s)"

abbreviation admin_view :: "('r \<Rightarrow> redis_view) \<Rightarrow> ('m, 'r) admin_state \<Rightarrow> redis_view" where
  "admin_view view s \<equiv> view (st_redis s)"

lemma run_del:
  assumes "admin_laws (adm_redis svc) view" and "run_cmd svc (ADel k) s = (r, s')"
  shows "reply_err r = None \<and> admin_view view s' = drop_keys [k] (admin_view view s)"
proof -
  have "\<exists>n. fst (adm_redis svc (ADel k) (st_redis s)) = RInt n"
    "view (snd (adm_redis svc (ADel k) (st_redis s))) = drop_keys [k] (admin_view view s)"
    using assms(1) by (simp_all add: admin_laws_def)
  then show ?thesis using assms(2) by (auto simp: run_cmd_def split: prod.splits)
qed

lemma run_keys:
  assumes "admin_laws (adm_redis svc) view" and "run_cmd svc (AKeys pat) s = (r, s')"
  shows "admin_view view s' = admin_view view s \<and> (\<exists>ks. r = RList ks \<and>
    (star_pattern pat \<longrightarrow> (\<forall>k. holds_key (admin_view view s) k \<and> glob pat k \<longrightarrow> k \<in> set ks)))"
proof -
  have "view (snd (adm_redis svc (AKeys pat) (st_redis s))) = admin_view view s"
    "\<exists>ks. fst (adm_redis svc (AKeys pat) (st_redis s)) = RList ks \<and>
      (star_pattern pat \<longrightarrow> (\<forall>k. holds_key (admin_view view s) k \<and> glob pat k \<longrightarrow> k \<in> set ks))"
    using assms(1) by (simp_all add: admin_laws_def)
  then show ?thesis using assms(2) by (auto simp: run_cmd_def split: prod.splits)
qed

lemma audit_keeps_view:
  assumes "admin_laws (adm_redis svc) view"
  shows "admin_view view (snd (addAuditLog env svc a t m s)) = admin_view view s"
proof -
  have "view (snd (adm_redis svc (ALPush k x) (st_redis s))) = admin_view view s" for k x
    using assms by (simp add: admin_laws_def)
  then show ?thesis
    by (auto simp: addAuditLog_def run_cmd_def Let_def split: sum.splits prod.splits) (metis snd_conv)+
qed

lemma delete_keys_view:
  assumes "admin_laws (adm_redis svc) view"
  shows "admin_view view (delete_keys svc ks s) = drop_keys ks (admin_view view s)"
proof (induction ks arbitrary: s)
  case (Cons k ks)
  obtain r s1 where d: "run_cmd svc (ADel k) s = (r, s1)" by fastforce
  have "drop_keys ks (drop_keys [k] v) = drop_keys (k # ks) v" for v
    by (simp add: drop_keys_def fun_eq_iff)
  then show ?case using run_del [OF assms d] Cons.IH [of s1] d by simp
qed (simp add: drop_keys_def)

section \<open>The admin service beside the ACL service\<close>

lemma delete_user_view:
  assumes "admin_laws (adm_redis svc) view" and "DeleteUser env svc (Inr i) s = (r, s')"
    and "star_pattern i" and "glob (''acl:*:'' @ i) k"
  shows "r = Ok (Response 200 ''user deleted'' NoData) \<and> \<not> holds_key (admin_view view s') k"
proof -
  obtain r1 s1 where d: "run_cmd svc (ADel (''user:'' @ i)) s = (r1, s1)" by fastforce
  let ?s2 = "case adm_search svc of None \<Rightarrow> s1
    | Some (senv, cl) \<Rightarrow> s1\<lparr>st_milvus := snd (search_DeleteUser cl i (st_milvus s1))\<rparr>"
  obtain r3 s3 where k: "run_cmd svc (AKeys (''acl:*:'' @ i)) ?s2 = (r3, s3)" by fastforce
  have "star_pattern (''acl:*:'' @ i)" using assms(3) by (simp add: star_pattern_def)
  with run_keys [OF assms(1) k] obtain ks where ks: "r3 = RList ks" "admin_view view s3 = admin_view view ?s2"
    "\<forall>k. holds_key (admin_view view ?s2) k \<and> glob (''acl:*:'' @ i) k \<longrightarrow> k \<in> set ks" by blast
  have "r = Ok (Response 200 ''user deleted'' NoData)"
    "s' = snd (addAuditLog env svc ''user_deleted'' i (''deleted user: '' @ i) (delete_keys svc ks s3))"
    using assms(2) d k run_del [OF assms(1) d] by (simp_all add: DeleteUser_def Let_def ks(1))
  moreover from this(2) have "admin_view view s' = drop_keys ks (admin_view view ?s2)"
    by (simp add: audit_keeps_view [OF assms(1)] delete_keys_view [OF assms(1)] ks(2))
  moreover have "\<not> holds_key (drop_keys ks (admin_view view ?s2)) k"
    using ks(3) assms(4) by (auto simp: holds_key_def)
  ultimately show ?thesis by simp
qed

text \<open>
  C19: deleting a user can open every document.  With the admin service on the Redis server of the ACL
  service (key prefix \<open>acl:\<close>), deleting the admin user named \<open>vis\<close> deletes every visibility the ACL
  service has stored, so each document is public again; the request is answered with success.
\<close>

theorem delete_user_opens_documents:
  assumes "admin_laws (adm_redis svc) view" and "DeleteUser env svc (Inr ''vis'') s = (r, s')"
  shows "r = Ok (Response 200 ''user deleted'' NoData) \<and> (\<forall>t d. redis_public ''acl:'' (view (st_redis s')) t d)"
proof -
  have glob: "glob (''acl:*:'' @ ''vis'') (keyVisibility ''acl:'' t d)" for t d
  proof -
    have "glob (CHR ''*'' # '':vis'') ((''t:'' @ t @ '':doc:'' @ d) @ '':vis'')"
      by (intro glob_star glob_self) simp
    then show ?thesis using glob_literal [of "''acl:''"] by (simp add: keyVisibility_def)
  qed
  have "star_pattern ''vis''" by (simp add: star_pattern_def)
  from delete_user_view [OF assms this glob] show ?thesis by (simp add: redis_public_def holds_key_def)
qed

text \<open>A grant of the admin service is a key the ACL service never reads.\<close>

lemma admin_grant_unread:
  assumes "no_colon (pr_tenant_id req)" and "no_colon (pr_user_id req)"
  shows "permission_key req \<notin> {keyVisibility ''acl:'' t d, keyPermanent ''acl:'' t d, keyExpiring ''acl:'' t d,
    keyUserPermanent ''acl:'' t u, keyUserExpiring ''acl:'' t u}"
proof -
  have "permission_key req \<noteq> ''acl:t:'' @ rest" if "CHR '':'' \<in> set rest" for rest
  proof
    assume "permission_key req = ''acl:t:'' @ rest"
    then have "pr_tenant_id req @ CHR '':'' # pr_user_id req = ''t'' @ CHR '':'' # rest"
      by (simp add: permission_key_def)
    moreover have "no_colon ''t''" by (simp add: no_colon_def)
    ultimately have "pr_user_id req = rest" using split_colon assms(1) by blast
    with that assms(2) show False by (simp add: no_colon_def)
  qed
  from this [of "t @ '':doc:'' @ d @ '':vis''"] this [of "t @ '':doc:'' @ d @ '':perm''"]
    this [of "t @ '':doc:'' @ d @ '':exp''"] this [of "t @ '':u:'' @ u @ '':perm''"]
    this [of "t @ '':u:'' @ u @ '':exp''"]
  show ?thesis by (simp add: key_defs)
qed

text \<open>A server of string keys, for a concrete run.\<close>

definition kv_view :: "(string \<times> string) list \<Rightarrow> redis_view" where
  "kv_view kv = \<lparr>rv_str = map_of kv, rv_set = (\<lambda>_. {}), rv_zset = (\<lambda>_. Map.empty), rv_scripts = True\<rparr>"

definition kv_server :: "(string \<times> string) list admin_exec" where
  "kv_server c kv =
     (case c of
        ADel k \<Rightarrow> (RInt 1, [x \<leftarrow> kv. fst x \<noteq> k])
      | AKeys pat \<Rightarrow> (RList [k \<leftarrow> remdups (map fst kv). glob pat k], kv)
      | AGet k \<Rightarrow> (case map_of kv k of None \<Rightarrow> RNil | Some x \<Rightarrow> RStr x, kv)
      | ASet k x \<Rightarrow> (ROk, (k, x) # kv)
      | AExists k \<Rightarrow> (RInt (if map_of kv k = None then 0 else 1), kv)
      | _ \<Rightarrow> (RInt 1, kv))"

lemma kv_server_laws: "admin_laws kv_server kv_view"
proof -
  have "map_of [x \<leftarrow> kv. fst x \<noteq> k] = (\<lambda>j. if j = k then None else map_of kv j)" for kv :: "(string \<times> string) list" and k
    by (induction kv) (auto simp: fun_eq_iff)
  then show ?thesis
    by (auto simp: admin_laws_def kv_server_def kv_view_def drop_keys_def holds_key_def fun_eq_iff
        dest!: map_of_SomeD) force
qed

definition demo_admin :: admin_env where
  "demo_admin = \<lparr>marshal_user = (\<lambda>_. Inr ''{}''), unmarshal_user = (\<lambda>_. Inl EOF), marshal_doc = (\<lambda>_. Inr ''{}''),
     unmarshal_doc = (\<lambda>_. Inl EOF), marshal_log = (\<lambda>_. Inr ''{}''), unmarshal_log = (\<lambda>_. Inl EOF),
     to_lower = id, sscanf_int = (\<lambda>_. None), now_rfc3339 = [], now_rfc3339nano = [], now_ns = 0\<rparr>"

theorem delete_user_opens_documents_witness:
  "\<exists>s'. DeleteUser demo_admin \<lparr>adm_redis = kv_server, adm_search = None :: (unit search_env \<times> (unit, unit) milvus) option\<rparr>
      (Inr ''vis'') \<lparr>st_redis = [(keyVisibility ''acl:'' ''t'' ''d'', VisibilityRestricted)], st_milvus = ()\<rparr> =
      (Ok (Response 200 ''user deleted'' NoData), s') \<and>
    \<not> redis_public ''acl:'' (kv_view [(keyVisibility ''acl:'' ''t'' ''d'', VisibilityRestricted)]) ''t'' ''d'' \<and>
    redis_public ''acl:'' (kv_view (st_redis s')) ''t'' ''d''"
proof -
  let ?svc = "\<lparr>adm_redis = kv_server, adm_search = None :: (unit search_env \<times> (unit, unit) milvus) option\<rparr>"
  let ?s = "\<lparr>st_redis = [(keyVisibility ''acl:'' ''t'' ''d'', VisibilityRestricted)], st_milvus = ()\<rparr>"
  obtain r s' where e: "DeleteUser demo_admin ?svc (Inr ''vis'') ?s = (r, s')" by fastforce
  have "admin_laws (adm_redis ?svc) kv_view" by (simp add: kv_server_laws)
  from delete_user_opens_documents [OF this e] e show ?thesis
    by (simp add: redis_public_def kv_view_def)
qed

end
