(* ===== verification/AdminServer.thy ===== *)
theory AdminServer
  imports AdminSpec
begin

text \<open>
  \<open>cmd/admin/main.go\<close>: the HTTP routes of the admin service and the wrapper that turns a handler's
  error into a response, and the constructors \<open>NewService\<close> and \<open>NewSearchService\<close>.  The path is the
  one \<open>http.ServeMux\<close> has cleaned, the JSON decoders of the request bodies and the texts of errors are
  parameters, and the file server is the answer \<open>StaticFile\<close>.  The last part follows a whole session
  of requests: what it leaves in Redis, and what the listings then show.
\<close>

section \<open>Construction\<close>

definition NewSearchService ::
  "(string \<Rightarrow> 'm \<Rightarrow> (go_err + ('e, 'm) milvus) \<times> 'm) \<Rightarrow> string \<Rightarrow> 'm \<Rightarrow>
   (go_err + ('e, 'm) milvus) \<times> 'm" where
  "NewSearchService connect milvusAddr m =
     (case connect milvusAddr m of
        (Inl err, m) \<Rightarrow> (Inl (Wrapped ''failed to connect to Milvus'' err), m)
      | (Inr c, m) \<Rightarrow>
          (case initCollections c m of
             (Some err, m) \<Rightarrow> (Inl (Wrapped ''failed to initialize collections'' err), m)
           | (None, m) \<Rightarrow> (Inr c, m)))"

definition NewService ::
  "(string \<Rightarrow> 'r admin_exec) \<Rightarrow> (string \<Rightarrow> go_err option) \<Rightarrow> 'e search_env \<Rightarrow>
   (string \<Rightarrow> 'm \<Rightarrow> (go_err + ('e, 'm) milvus) \<times> 'm) \<Rightarrow> string \<Rightarrow> string \<Rightarrow> 'm \<Rightarrow>
   (go_err + ('e, 'm, 'r) admin_service) \<times> 'm" where
  "NewService new_client ping senv connect redisAddr milvusAddr m =
     (let client = new_client redisAddr in
      case ping redisAddr of
        Some err \<Rightarrow> (Inl (Wrapped ''redis connection failed'' err), m)
      | None \<Rightarrow>
          let (searchSvc, m) =
            (if milvusAddr \<noteq> [] then
               (case NewSearchService connect milvusAddr m of
                  (Inl err, m) \<Rightarrow> (None, m)
                | (Inr c, m) \<Rightarrow> (Some (senv, c), m))
             else (None, m))
          in (Inr \<lparr>adm_redis = client, adm_search = searchSvc\<rparr>, m))"

section \<open>Routes\<close>

record admin_request =
  rq_method :: string
  rq_path :: string
  rq_query :: "string \<Rightarrow> string"
  rq_body :: string

record admin_decoders =
  dec_user :: "string \<Rightarrow> go_err + CreateUserReq"
  dec_doc :: "string \<Rightarrow> go_err + CreateDocReq"
  dec_id :: "string \<Rightarrow> go_err + string"
  dec_perm :: "string \<Rightarrow> go_err + PermissionReq"

datatype http_reply =
    JSONReply nat admin_response
  | ErrorReply nat string
  | StaticFile string

type_synonym ('m, 'r) http_result = "(unit, http_reply) outcome \<times> ('m, 'r) admin_state"

definition methodNotAllowed :: go_err where
  "methodNotAllowed = ErrText ''method not allowed''"

definition quote :: string where "quote = [CHR 0x22]"

fun withJSON :: "(go_err \<Rightarrow> string) \<Rightarrow> ('m, 'r) handler_result \<Rightarrow> ('m, 'r) http_result" where
  "withJSON err_text (Ok resp, s) = (Ok (JSONReply 200 resp), s)"
| "withJSON err_text (Fail err, s) =
     (Ok (ErrorReply 500 (''{'' @ quote @ ''error'' @ quote @ '':'' @ quote @ err_text err @ quote @ ''}'')), s)"
| "withJSON err_text (Panic p, s) = (Panic p, s)"
| "withJSON err_text (Hang, s) = (Hang, s)"

text \<open>The \<open>switch r.Method\<close> of the three resources.\<close>

definition by_method ::
  "string \<Rightarrow> ('m, 'r) handler_result \<Rightarrow> ('m, 'r) handler_result \<Rightarrow> ('m, 'r) handler_result \<Rightarrow>
   ('m, 'r) admin_state \<Rightarrow> ('m, 'r) handler_result" where
  "by_method meth onGet onPost onDelete s =
     (if meth = ''GET'' then onGet
      else if meth = ''POST'' then onPost
      else if meth = ''DELETE'' then onDelete
      else (Fail methodNotAllowed, s))"

definition registerRoutes ::
  "admin_env \<Rightarrow> admin_decoders \<Rightarrow> (go_err \<Rightarrow> string) \<Rightarrow> ('e, 'm, 'r) admin_service \<Rightarrow> admin_request \<Rightarrow>
   ('m, 'r) admin_state \<Rightarrow> ('m, 'r) http_result" where
  "registerRoutes env dec err_text svc r s =
     (if rq_path r = ''/api/users'' then
        withJSON err_text (by_method (rq_method r) (ListUsers env svc (rq_query r) s)
          (CreateUser env svc (dec_user dec (rq_body r)) s) (DeleteUser env svc (dec_id dec (rq_body r)) s) s)
      else if rq_path r = ''/api/documents'' then
        withJSON err_text (by_method (rq_method r) (ListDocuments env svc (rq_query r) s)
          (CreateDocument env svc (dec_doc dec (rq_body r)) s)
          (DeleteDocument env svc (dec_id dec (rq_body r)) s) s)
      else if rq_path r = ''/api/permissions'' then
        withJSON err_text (by_method (rq_method r) (ListPermissions env svc (rq_query r) s)
          (GrantPermission env svc (dec_perm dec (rq_body r)) s)
          (RevokePermission env svc (dec_perm dec (rq_body r)) s) s)
      else if rq_path r = ''/api/audit-logs'' then withJSON err_text (GetAuditLogs env svc (rq_query r) s)
      else (Ok (StaticFile (rq_path r)), s))"

text \<open>
  The paths of the documentation (\<open>docs/admin-guide.md\<close>, \<open>docs/quick-start.md\<close>, \<open>docs/ADMIN_DEVELOPMENT.md\<close>)
  for creating, deleting, granting and revoking are no routes of the server: they reach the file server
  and change nothing.
\<close>

lemma documented_paths:
  assumes "rq_path r \<in> {''/api/users/create'', ''/api/users/delete'', ''/api/documents/create'', ''/api/documents/delete'',
    ''/api/permissions/grant'', ''/api/permissions/revoke''}"
  shows "registerRoutes env dec err_text svc r s = (Ok (StaticFile (rq_path r)), s)"
  using assms by (auto simp: registerRoutes_def)

text \<open>A session: each request comes with what its handler reads of the clock.\<close>

fun admin_session ::
  "admin_decoders \<Rightarrow> (go_err \<Rightarrow> string) \<Rightarrow> ('e, 'm, 'r) admin_service \<Rightarrow>
   (admin_env \<times> admin_request) list \<Rightarrow> ('m, 'r) admin_state \<Rightarrow> ('m, 'r) admin_state" where
  "admin_session dec err_text svc [] s = s"
| "admin_session dec err_text svc ((env, r) # reqs) s =
     admin_session dec err_text svc reqs (snd (registerRoutes env dec err_text svc r s))"

section \<open>What Redis documents of the commands\<close>

definition key_value :: "redis_view \<Rightarrow> string \<Rightarrow> string option \<times> string set \<times> (string \<Rightarrow> int option)" where
  "key_value v k = (rv_str v k, rv_set v k, rv_zset v k)"

abbreviation absent :: "string option \<times> string set \<times> (string \<Rightarrow> int option)" where
  "absent \<equiv> (None, {}, Map.empty)"

fun writes :: "admin_cmd \<Rightarrow> string set" where
  "writes (ASet k x) = {k}"
| "writes (ADel k) = {k}"
| "writes (ASAdd k x) = {k}"
| "writes (ASRem k x) = {k}"
| "writes (ALPush k x) = {k}"
| "writes _ = {}"

text \<open>
  The view leaves lists out: the only list is the audit log, so the laws of \<open>EXISTS\<close> and \<open>GET\<close> are about
  the other keys.  Literal letters of a pattern match themselves only.
\<close>

definition literal :: "string \<Rightarrow> bool" where
  "literal l \<longleftrightarrow> star_pattern l \<and> CHR ''*'' \<notin> set l"

definition admin_store_laws :: "'r admin_exec \<Rightarrow> ('r \<Rightarrow> redis_view) \<Rightarrow> bool" where
  "admin_store_laws exec view \<longleftrightarrow>
     (\<forall>c s k. k \<notin> writes c \<longrightarrow> key_value (view (snd (exec c s))) k = key_value (view s) k) \<and>
     (\<forall>k s. k \<noteq> auditLogsKey \<longrightarrow>
        fst (exec (AExists k) s) = RInt (if key_value (view s) k = absent then 0 else 1)) \<and>
     (\<forall>k s x. k \<noteq> auditLogsKey \<longrightarrow>
        (fst (exec (AGet k) s) = RStr x) = (rv_str (view s) k = Some x)) \<and>
     (\<forall>k x s. fst (exec (ASet k x) s) = ROk \<and>
        key_value (view (snd (exec (ASet k x) s))) k = (Some x, {}, Map.empty)) \<and>
     (\<forall>k s. (\<exists>n. fst (exec (ADel k) s) = RInt n) \<and> key_value (view (snd (exec (ADel k) s))) k = absent) \<and>
     (\<forall>pat s. \<exists>ks. fst (exec (AKeys pat) s) = RList ks \<and> distinct ks \<and>
        (star_pattern pat \<longrightarrow> (\<forall>k. holds_key (view s) k \<and> glob pat k \<longrightarrow> k \<in> set ks)) \<and>
        (\<forall>l p. pat = l @ p \<and> literal l \<longrightarrow> (\<forall>k\<in>set ks. prefix l k)))"

section \<open>What a session stores\<close>

text \<open>The users and documents in Redis, and the map from keys to stored texts that describes them.\<close>

definition data_key :: "string \<Rightarrow> bool" where
  "data_key k \<longleftrightarrow> prefix ''user:'' k \<or> prefix ''doc:'' k"

definition entries ::
  "('r \<Rightarrow> redis_view) \<Rightarrow> ('m, 'r) admin_state \<Rightarrow> string \<Rightarrow>
   string option \<times> string set \<times> (string \<Rightarrow> int option)" where
  "entries view s = (\<lambda>k. if data_key k then key_value (admin_view view s) k else absent)"

definition stored ::
  "(string \<Rightarrow> string option) \<Rightarrow> string \<Rightarrow> string option \<times> string set \<times> (string \<Rightarrow> int option)" where
  "stored m = (\<lambda>k. if data_key k then (m k, {}, Map.empty) else absent)"

text \<open>The specification: creating takes a free key only, deleting frees it, nothing else matters.\<close>

definition spec_create :: "string \<Rightarrow> go_err + string \<Rightarrow> (string \<Rightarrow> string option) \<Rightarrow> string \<Rightarrow> string option" where
  "spec_create k data m =
     (if m k \<noteq> None then m else (case data of Inl _ \<Rightarrow> m | Inr x \<Rightarrow> m(k \<mapsto> x)))"

definition new_user :: "admin_env \<Rightarrow> CreateUserReq \<Rightarrow> User" where
  "new_user env req = \<lparr>u_id = cu_id req, u_name = cu_name req, u_email = cu_email req,
     u_created_at = now_rfc3339 env\<rparr>"

definition new_doc :: "admin_env \<Rightarrow> CreateDocReq \<Rightarrow> Document" where
  "new_doc env req = \<lparr>d_id = cd_id req, d_title = cd_title req, d_category = cd_category req,
     d_owner_id = cd_owner_id req, d_created_at = now_rfc3339 env\<rparr>"

definition spec_step ::
  "admin_decoders \<Rightarrow> admin_env \<times> admin_request \<Rightarrow> (string \<Rightarrow> string option) \<Rightarrow> string \<Rightarrow> string option" where
  "spec_step dec = (\<lambda>(env, r) m.
     if rq_path r = ''/api/users'' \<and> rq_method r = ''POST'' then
       (case dec_user dec (rq_body r) of
          Inl _ \<Rightarrow> m
        | Inr req \<Rightarrow> spec_create (''user:'' @ cu_id req) (marshal_user env (new_user env req)) m)
     else if rq_path r = ''/api/documents'' \<and> rq_method r = ''POST'' then
       (case dec_doc dec (rq_body r) of
          Inl _ \<Rightarrow> m
        | Inr req \<Rightarrow> spec_create (''doc:'' @ cd_id req) (marshal_doc env (new_doc env req)) m)
     else if rq_path r = ''/api/users'' \<and> rq_method r = ''DELETE'' then
       (case dec_id dec (rq_body r) of Inl _ \<Rightarrow> m | Inr i \<Rightarrow> m(''user:'' @ i := None))
     else if rq_path r = ''/api/documents'' \<and> rq_method r = ''DELETE'' then
       (case dec_id dec (rq_body r) of Inl _ \<Rightarrow> m | Inr i \<Rightarrow> m(''doc:'' @ i := None))
     else m)"

lemma data_keys [simp]:
  "data_key (''user:'' @ i)" "data_key (''doc:'' @ i)" "\<not> data_key auditLogsKey" "\<not> data_key (permission_key req)"
  by (simp_all add: data_key_def auditLogsKey_def permission_key_def)

lemmas data_keys_cons [simp] = data_keys(1,2) [unfolded append.simps]

lemma data_key_not_audit: "data_key k \<Longrightarrow> k \<noteq> auditLogsKey"
  by auto

lemma entries_milvus [simp]: "entries view (s\<lparr>st_milvus := m\<rparr>) = entries view s"
  by (auto simp: entries_def fun_eq_iff)

text \<open>The values a listing decodes, in the order of the keys, and the answer with a page of them.\<close>

definition decoded :: "(string \<Rightarrow> go_err + 'a) \<Rightarrow> (string \<Rightarrow> string option) \<Rightarrow> string list \<Rightarrow> 'a list" where
  "decoded f m ks = concat (map (\<lambda>k. case m k of
     None \<Rightarrow> [] | Some x \<Rightarrow> (case f x of Inl _ \<Rightarrow> [] | Inr y \<Rightarrow> [y])) ks)"

definition page_reply ::
  "('a list \<Rightarrow> int \<Rightarrow> int \<Rightarrow> int \<Rightarrow> int \<Rightarrow> admin_data) \<Rightarrow> int \<Rightarrow> int \<Rightarrow> 'a list \<Rightarrow>
   (go_err, admin_response) outcome" where
  "page_reply mk page ps xs =
     (case paginate page ps xs of
        Ok p \<Rightarrow> Ok (Response 200 ''success'' (mk p page ps (int (length xs)) (total_page (int (length xs)) ps)))
      | Fail e \<Rightarrow> Fail e | Panic e \<Rightarrow> Panic e | Hang \<Rightarrow> Hang)"

lemma withJSON_state [simp]: "snd (withJSON err_text h) = snd h"
  by (cases "(err_text, h)" rule: withJSON.cases) simp_all

lemma withJSON_result:
  "fst h = Ok x \<Longrightarrow> fst (withJSON err_text h) = Ok (JSONReply 200 x)"
  "fst h = Panic p \<Longrightarrow> fst (withJSON err_text h) = Panic p"
  by (cases h; simp)+

lemma and_then_state:
  "(\<And>x s. snd (k x s) = s) \<Longrightarrow> snd (and_then m k) = snd m"
  by (cases "(m, k)" rule: and_then.cases) simp_all

lemma snd_case_outcome:
  "snd (case r of Ok x \<Rightarrow> (a x, s) | Fail e \<Rightarrow> (b e, s) | Panic p \<Rightarrow> (c p, s) | Hang \<Rightarrow> (d, s)) = s"
  by (cases r) simp_all

text \<open>
  What the requests that only read leave alone: every observation \<open>obs\<close> that no reading command changes
  and, for the listings that search, that does not look at Milvus.
\<close>

locale read_observer =
  fixes svc :: "('e, 'm, 'r) admin_service" and obs :: "('m, 'r) admin_state \<Rightarrow> 'o"
  assumes run_read: "writes c = {} \<Longrightarrow> obs (snd (run_cmd svc c s)) = obs s"
begin

lemma reads_observed [simp]:
  "obs (snd (run_cmd svc (AGet k) s)) = obs s"
  "obs (snd (run_cmd svc (AExists k) s)) = obs s"
  "obs (snd (run_cmd svc (AKeys pat) s)) = obs s"
  "obs (snd (run_cmd svc (ASMembers k) s)) = obs s"
  "obs (snd (run_cmd svc (ALLen k) s)) = obs s"
  "obs (snd (run_cmd svc (ALRange k i j) s)) = obs s"
  by (simp_all add: run_read)

lemma fetch_observed [simp]: "obs (snd (fetch svc f keep ks s)) = obs s"
proof (induction ks arbitrary: s)
  case (Cons k ks)
  have "obs (snd (fetch svc f keep ks (snd (run_cmd svc (AGet k) s)))) = obs s"
    by (simp add: Cons.IH)
  then show ?case by (simp add: case_prod_beta split: sum.split)
qed simp

lemma match_observed [simp]:
  "obs (snd (getUsersByStringMatch env svc kw s)) = obs s"
  "obs (snd (getDocsByStringMatch env svc kw s)) = obs s"
  by (simp_all add: getUsersByStringMatch_def getDocsByStringMatch_def case_prod_beta split: sum.split)

lemma perms_observed [simp]: "obs (snd (list_perms env svc ks s)) = obs s"
proof (induction ks arbitrary: s)
  case (Cons k ks)
  show ?case by (simp add: case_prod_beta Let_def Cons.IH split: sum.split)
qed simp

lemma views_observed [simp]:
  "obs (snd (ListPermissions env svc q s)) = obs s"
  "obs (snd (GetAuditLogs env svc q s)) = obs s"
  by (simp_all add: ListPermissions_def GetAuditLogs_def Let_def case_prod_beta split: sum.split)

end

interpretation milvus_observed: read_observer svc st_milvus
  by unfold_locales (simp add: run_cmd_def case_prod_beta)

locale redis_observer = read_observer svc obs
  for svc :: "('e, 'm, 'r) admin_service" and obs :: "('m, 'r) admin_state \<Rightarrow> 'o" +
  assumes no_milvus [simp]: "obs (s\<lparr>st_milvus := m\<rparr>) = obs s"
begin

lemma lists_observed [simp]:
  "obs (snd (ListUsers env svc q s)) = obs s"
  "obs (snd (ListDocuments env svc q s)) = obs s"
proof -
  show "obs (snd (ListUsers env svc q s)) = obs s"
  proof (cases "adm_search svc = None \<or> q ''keyword'' = []")
    case True
    then show ?thesis
      by (auto simp: ListUsers_def Let_def case_prod_beta snd_case_outcome split: option.split)
  next
    case False
    then obtain senv cl c cs where f: "adm_search svc = Some (senv, cl)" "q ''keyword'' = c # cs"
      by (metis not_None_eq neq_Nil_conv surj_pair)
    obtain r m where r: "SearchUsers senv cl (c # cs) 100 (st_milvus s) = (r, m)" by fastforce
    show ?thesis
    proof (cases "\<exists>u us. r = Inr (u # us)")
      case True
      then show ?thesis by (auto simp: ListUsers_def f r Let_def case_prod_beta snd_case_outcome simp del: fetch.simps)
    next
      case False
      then show ?thesis
        by (auto simp: ListUsers_def f r Let_def case_prod_beta snd_case_outcome split: sum.splits list.splits simp del: fetch.simps)
    qed
  qed
  show "obs (snd (ListDocuments env svc q s)) = obs s"
  proof (cases "adm_search svc = None \<or> q ''keyword'' = []")
    case True
    then show ?thesis
      by (auto simp: ListDocuments_def Let_def case_prod_beta and_then_state split: option.split)
  next
    case False
    then obtain senv cl c cs where f: "adm_search svc = Some (senv, cl)" "q ''keyword'' = c # cs"
      by (metis not_None_eq neq_Nil_conv surj_pair)
    obtain r m where r: "SearchDocuments senv cl (c # cs) 100 (st_milvus s) = (r, m)" by fastforce
    show ?thesis
    proof (cases r)
      case (Ok ds)
      then show ?thesis
        by (cases ds) (simp_all add: ListDocuments_def f r Let_def case_prod_beta and_then_state del: fetch.simps)
    qed (simp_all add: ListDocuments_def f r Let_def case_prod_beta and_then_state)
  qed
qed

end

text \<open>A service on such a server.\<close>

locale admin_redis =
  fixes svc :: "('e, 'm, 'r) admin_service" and view :: "'r \<Rightarrow> redis_view"
  assumes laws: "admin_store_laws (adm_redis svc) view"
begin

lemma run_other_key:
  assumes "k \<notin> writes c"
  shows "key_value (admin_view view (snd (run_cmd svc c s))) k = key_value (admin_view view s) k"
  using laws assms by (simp add: admin_store_laws_def run_cmd_def case_prod_beta)

lemma run_entries:
  assumes "\<forall>k\<in>writes c. \<not> data_key k"
  shows "entries view (snd (run_cmd svc c s)) = entries view s"
  using run_other_key [of _ c s] assms by (auto simp: entries_def fun_eq_iff)

end

sublocale admin_redis \<subseteq> stored: redis_observer svc "entries view"
  by unfold_locales (simp_all add: run_entries)

context admin_redis
begin

lemma audit_entries [simp]: "entries view (snd (addAuditLog env svc a tg msg s)) = entries view s"
proof -
  have "entries view (snd (run_cmd svc (ALPush auditLogsKey x) s)) = entries view s" for x
    by (rule run_entries) simp
  then show ?thesis by (simp add: addAuditLog_def Let_def case_prod_beta split: sum.split)
qed

text \<open>The commands on users and documents, against the map.\<close>

lemma run_exists:
  assumes "entries view s = stored m" and "data_key k"
  shows "fst (run_cmd svc (AExists k) s) = RInt (if m k = None then 0 else 1)"
proof -
  have "key_value (admin_view view s) k = (m k, {}, Map.empty)"
    using fun_cong [OF assms(1), of k] assms(2) by (simp add: entries_def stored_def)
  then show ?thesis using laws data_key_not_audit [OF assms(2)]
    by (simp add: admin_store_laws_def run_cmd_def case_prod_beta)
qed

lemma entries_update:
  assumes "entries view s = stored m" and "data_key k" and "writes c = {k}"
    and "key_value (view (snd (adm_redis svc c (st_redis s)))) k = (x, {}, Map.empty)"
  shows "entries view (snd (run_cmd svc c s)) = stored (m(k := x))"
proof
  fix j
  show "entries view (snd (run_cmd svc c s)) j = stored (m(k := x)) j"
  proof (cases "j = k")
    case True
    then show ?thesis using assms(2,4) by (simp add: entries_def stored_def run_cmd_def case_prod_beta)
  next
    case False
    then have "entries view (snd (run_cmd svc c s)) j = entries view s j"
      using run_other_key [of j c s] assms(3) by (simp add: entries_def)
    then show ?thesis using fun_cong [OF assms(1), of j] False by (simp add: stored_def)
  qed
qed

lemma run_set:
  assumes "entries view s = stored m" and "data_key k"
  shows "fst (run_cmd svc (ASet k x) s) = ROk \<and>
    entries view (snd (run_cmd svc (ASet k x) s)) = stored (m(k \<mapsto> x))"
proof -
  have "fst (run_cmd svc (ASet k x) s) = ROk"
    using laws by (simp add: admin_store_laws_def run_cmd_def case_prod_beta)
  moreover have "entries view (snd (run_cmd svc (ASet k x) s)) = stored (m(k \<mapsto> x))"
    using laws by (intro entries_update [OF assms]) (simp_all add: admin_store_laws_def)
  ultimately show ?thesis by blast
qed

lemma run_del_key:
  assumes "entries view s = stored m" and "data_key k"
  shows "reply_err (fst (run_cmd svc (ADel k) s)) = None \<and>
    entries view (snd (run_cmd svc (ADel k) s)) = stored (m(k := None))"
proof -
  have "\<exists>n. fst (run_cmd svc (ADel k) s) = RInt n"
    using laws by (simp add: admin_store_laws_def run_cmd_def case_prod_beta)
  moreover have "entries view (snd (run_cmd svc (ADel k) s)) = stored (m(k := None))"
    using laws by (intro entries_update [OF assms]) (simp_all add: admin_store_laws_def)
  ultimately show ?thesis by auto
qed

lemma run_keys_prefix:
  assumes "literal l"
  shows "\<exists>ks. fst (run_cmd svc (AKeys (l @ p)) s) = RList ks \<and> distinct ks \<and> (\<forall>k\<in>set ks. prefix l k) \<and>
    (star_pattern (l @ p) \<longrightarrow> (\<forall>k. holds_key (admin_view view s) k \<and> glob (l @ p) k \<longrightarrow> k \<in> set ks))"
proof -
  obtain ks where "fst (adm_redis svc (AKeys (l @ p)) (st_redis s)) = RList ks" "distinct ks"
    "star_pattern (l @ p) \<longrightarrow> (\<forall>k. holds_key (admin_view view s) k \<and> glob (l @ p) k \<longrightarrow> k \<in> set ks)"
    "\<forall>l' p'. l @ p = l' @ p' \<and> literal l' \<longrightarrow> (\<forall>k\<in>set ks. prefix l' k)"
    using laws unfolding admin_store_laws_def by metis
  then show ?thesis using assms by (auto simp: run_cmd_def case_prod_beta)
qed

lemma delete_keys_entries:
  "\<forall>k\<in>set ks. \<not> data_key k \<Longrightarrow> entries view (delete_keys svc ks s) = entries view s"
proof (induction ks arbitrary: s)
  case (Cons k ks)
  then have "entries view (snd (run_cmd svc (ADel k) s)) = entries view s" by (intro run_entries) simp
  then show ?case using Cons by simp
qed simp

section \<open>What the handlers store and answer\<close>

lemma create_user:
  assumes "entries view s = stored m"
  shows "entries view (snd (CreateUser env svc (Inr req) s)) =
      stored (spec_create (''user:'' @ cu_id req) (marshal_user env (new_user env req)) m) \<and>
    (\<forall>data. marshal_user env (new_user env req) = Inr data \<longrightarrow>
      fst (CreateUser env svc (Inr req) s) = Ok
        (if m (''user:'' @ cu_id req) = None then Response 200 ''user created'' (UserData (new_user env req))
         else Response 400 ''user already exists'' NoData))"
proof -
  let ?k = "''user:'' @ cu_id req"
  define s1 where "s1 = snd (run_cmd svc (AExists ?k) s)"
  have ex: "run_cmd svc (AExists ?k) s = (RInt (if m ?k = None then 0 else 1), s1)"
    using run_exists [OF assms, of ?k] by (simp add: s1_def prod_eq_iff)
  have s1: "entries view s1 = stored m" by (simp add: s1_def assms)
  note set = run_set [OF s1, of ?k]
  show ?thesis
  proof (cases "marshal_user env (new_user env req)")
    case (Inl err)
    then show ?thesis using s1 ex
      by (simp add: CreateUser_def spec_create_def new_user_def Let_def)
  next
    case (Inr data)
    then show ?thesis using s1 set [of data] ex
      by (auto simp: CreateUser_def spec_create_def new_user_def Let_def case_prod_beta split: option.split)
  qed
qed

lemma create_doc:
  assumes "entries view s = stored m"
  shows "entries view (snd (CreateDocument env svc (Inr req) s)) =
      stored (spec_create (''doc:'' @ cd_id req) (marshal_doc env (new_doc env req)) m) \<and>
    (\<forall>data. marshal_doc env (new_doc env req) = Inr data \<longrightarrow>
      fst (CreateDocument env svc (Inr req) s) = Ok
        (if m (''doc:'' @ cd_id req) = None then Response 200 ''document created'' (DocData (new_doc env req))
         else Response 400 ''document already exists'' NoData))"
proof -
  let ?k = "''doc:'' @ cd_id req"
  define s1 where "s1 = snd (run_cmd svc (AExists ?k) s)"
  have ex: "run_cmd svc (AExists ?k) s = (RInt (if m ?k = None then 0 else 1), s1)"
    using run_exists [OF assms, of ?k] by (simp add: s1_def prod_eq_iff)
  have s1: "entries view s1 = stored m" by (simp add: s1_def assms)
  note set = run_set [OF s1, of ?k]
  show ?thesis
  proof (cases "marshal_doc env (new_doc env req)")
    case (Inl err)
    then show ?thesis using s1 ex
      by (simp add: CreateDocument_def spec_create_def new_doc_def Let_def)
  next
    case (Inr data)
    then show ?thesis using s1 set [of data] ex
      by (auto simp: CreateDocument_def spec_create_def new_doc_def Let_def case_prod_beta split: option.split)
  qed
qed

lemma delete_user_entries:
  assumes "entries view s = stored m"
  shows "entries view (snd (DeleteUser env svc (Inr i) s)) = stored (m(''user:'' @ i := None))"
proof -
  obtain r0 s0 where d: "run_cmd svc (ADel (''user:'' @ i)) s = (r0, s0)" by fastforce
  have del: "reply_err r0 = None" "entries view s0 = stored (m(''user:'' @ i := None))"
    using run_del_key [OF assms, of "''user:'' @ i"] d by simp_all
  let ?s1 = "case adm_search svc of None \<Rightarrow> s0
    | Some (senv, cl) \<Rightarrow> s0\<lparr>st_milvus := snd (search_DeleteUser cl i (st_milvus s0))\<rparr>"
  have s1: "entries view ?s1 = entries view s0" by (simp split: option.split)
  obtain r2 s2 where k: "run_cmd svc (AKeys (''acl:*:'' @ i)) ?s1 = (r2, s2)" by fastforce
  have s2: "entries view s2 = entries view ?s1" by (metis stored.reads_observed(3) k snd_conv)
  have "literal ''acl:''" by (simp add: literal_def star_pattern_def)
  from run_keys_prefix [OF this, of "''*:'' @ i" ?s1] k obtain ks where
    ks: "r2 = RList ks" "\<forall>k\<in>set ks. prefix ''acl:'' k" by auto
  have "snd (DeleteUser env svc (Inr i) s) =
      snd (addAuditLog env svc ''user_deleted'' i (''deleted user: '' @ i) (delete_keys svc ks s2))"
    using d k del(1) by (simp add: DeleteUser_def Let_def ks(1))
  moreover have "\<forall>k\<in>set ks. \<not> data_key k" using ks(2) by (auto simp: data_key_def prefix_def)
  ultimately show ?thesis using del(2) s1 s2 by (simp add: delete_keys_entries)
qed

lemma delete_doc_entries:
  assumes "entries view s = stored m"
  shows "entries view (snd (DeleteDocument env svc (Inr i) s)) = stored (m(''doc:'' @ i := None))"
  using run_del_key [OF assms, of "''doc:'' @ i"]
  by (auto simp: DeleteDocument_def Let_def case_prod_beta split: option.split)

lemma permission_entries:
  "entries view (snd (GrantPermission env svc (Inr req) s)) = entries view s"
  "entries view (snd (RevokePermission env svc (Inr req) s)) = entries view s"
proof -
  have "entries view (snd (run_cmd svc (ASAdd (permission_key req) x) s)) = entries view s"
    "entries view (snd (run_cmd svc (ASRem (permission_key req) x) s)) = entries view s" for x
    by (simp_all add: run_entries)
  then show "entries view (snd (GrantPermission env svc (Inr req) s)) = entries view s"
    "entries view (snd (RevokePermission env svc (Inr req) s)) = entries view s"
    by (simp_all add: GrantPermission_def RevokePermission_def Let_def case_prod_beta split: option.split)
qed

text \<open>One request, and a session of them.\<close>

lemma step_entries:
  assumes "entries view s = stored m"
  shows "entries view (snd (registerRoutes env dec err_text svc r s)) = stored (spec_step dec (env, r) m)"
proof -
  have u: "entries view (snd (by_method meth (ListUsers env svc q s) (CreateUser env svc bu s) (DeleteUser env svc bi s) s)) =
      stored (if meth = ''POST'' then (case bu of Inl _ \<Rightarrow> m | Inr req \<Rightarrow>
          spec_create (''user:'' @ cu_id req) (marshal_user env (new_user env req)) m)
        else if meth = ''DELETE'' then (case bi of Inl _ \<Rightarrow> m | Inr i \<Rightarrow> m(''user:'' @ i := None)) else m)" for meth q bu bi
  proof -
    have "entries view (snd (CreateUser env svc (Inl e) s)) = stored m"
      "entries view (snd (DeleteUser env svc (Inl e) s)) = stored m" for e
      using assms by (simp_all add: CreateUser_def DeleteUser_def)
    then show ?thesis
      using create_user [OF assms] delete_user_entries [OF assms] assms
      by (cases bu; cases bi) (simp_all add: by_method_def)
  qed
  have d: "entries view (snd (by_method meth (ListDocuments env svc q s) (CreateDocument env svc bd s) (DeleteDocument env svc bi s) s)) =
      stored (if meth = ''POST'' then (case bd of Inl _ \<Rightarrow> m | Inr req \<Rightarrow>
          spec_create (''doc:'' @ cd_id req) (marshal_doc env (new_doc env req)) m)
        else if meth = ''DELETE'' then (case bi of Inl _ \<Rightarrow> m | Inr i \<Rightarrow> m(''doc:'' @ i := None)) else m)" for meth q bd bi
  proof -
    have "entries view (snd (CreateDocument env svc (Inl e) s)) = stored m"
      "entries view (snd (DeleteDocument env svc (Inl e) s)) = stored m" for e
      using assms by (simp_all add: CreateDocument_def DeleteDocument_def)
    then show ?thesis
      using create_doc [OF assms] delete_doc_entries [OF assms] assms
      by (cases bd; cases bi) (simp_all add: by_method_def)
  qed
  have p: "entries view (snd (by_method meth (ListPermissions env svc q s) (GrantPermission env svc bp s) (RevokePermission env svc bp s) s)) = stored m"
    for meth q bp
    using permission_entries [of env _ s] assms
    by (cases bp) (simp_all add: by_method_def GrantPermission_def RevokePermission_def)
  show ?thesis using assms
    by (simp add: registerRoutes_def spec_step_def u d p del: append.simps)
qed

lemma session_entries:
  assumes "entries view s = stored m"
  shows "entries view (admin_session dec err_text svc reqs s) = stored (fold (spec_step dec) reqs m)"
  using assms
proof (induction reqs arbitrary: s m)
  case (Cons x reqs)
  then show ?case using step_entries [OF Cons.prems] by (cases x) simp
qed simp

text \<open>What a listing finds.\<close>

lemma run_get:
  assumes "entries view s = stored m" and "data_key k"
  shows "string_reply (fst (run_cmd svc (AGet k) s)) = Inr x \<longleftrightarrow> m k = Some x"
proof -
  have "rv_str (admin_view view s) k = m k"
    using fun_cong [OF assms(1), of k] assms(2) by (simp add: entries_def stored_def key_value_def)
  moreover have "fst (adm_redis svc (AGet k) (st_redis s)) = RStr x \<longleftrightarrow> rv_str (admin_view view s) k = Some x"
    using laws data_key_not_audit [OF assms(2)] by (simp add: admin_store_laws_def)
  moreover have "string_reply r = Inr x \<longleftrightarrow> r = RStr x" for r by (cases r) simp_all
  ultimately show ?thesis by (simp add: run_cmd_def case_prod_beta)
qed

lemma fetch_decoded:
  assumes "entries view s = stored m" and "\<forall>k\<in>set ks. data_key k"
  shows "fst (fetch svc f (\<lambda>_. True) ks s) = decoded f m ks"
  using assms
proof (induction ks arbitrary: s)
  case (Cons k ks)
  let ?r = "string_reply (fst (run_cmd svc (AGet k) s))" and ?s = "snd (run_cmd svc (AGet k) s)"
  have IH: "fst (fetch svc f (\<lambda>_. True) ks ?s) = decoded f m ks"
    using Cons.prems by (intro Cons.IH) simp_all
  have r: "?r = Inr x \<longleftrightarrow> m k = Some x" for x using run_get [OF Cons.prems(1)] Cons.prems(2) by simp
  show ?case
  proof (cases "m k")
    case None
    with r obtain e where "?r = Inl e" by (cases ?r) auto
    then show ?thesis using IH None by (simp add: case_prod_beta decoded_def)
  next
    case (Some d)
    then have "?r = Inr d" using r by simp
    then show ?thesis using IH Some by (cases "f d") (simp_all add: case_prod_beta decoded_def)
  qed
qed (simp add: decoded_def)

lemma keys_stored:
  assumes "entries view s = stored m" and "literal l" and "\<And>x. data_key (l @ x)"
  shows "\<exists>ks. fst (run_cmd svc (AKeys (l @ ''*'')) s) = RList ks \<and> distinct ks \<and> (\<forall>k\<in>set ks. data_key k) \<and>
    {k \<in> set ks. m k \<noteq> None} = {k. prefix l k \<and> m k \<noteq> None}"
proof -
  from run_keys_prefix [OF assms(2), of "''*''" s] obtain ks where
    ks: "fst (run_cmd svc (AKeys (l @ ''*'')) s) = RList ks" "distinct ks" "\<forall>k\<in>set ks. prefix l k"
      "star_pattern (l @ ''*'') \<longrightarrow>
        (\<forall>k. holds_key (admin_view view s) k \<and> glob (l @ ''*'') k \<longrightarrow> k \<in> set ks)" by blast
  have data: "data_key k" if "prefix l k" for k using that assms(3) by (auto simp: prefix_def)
  have "star_pattern (l @ ''*'')" using assms(2) by (auto simp: literal_def star_pattern_def)
  moreover have "glob (l @ ''*'') k" if "prefix l k" for k
    using that glob_star [of "[]" "[]"] assms(2) by (auto simp: prefix_def glob_literal literal_def)
  moreover have "holds_key (admin_view view s) k" if "data_key k" "m k \<noteq> None" for k
    using fun_cong [OF assms(1), of k] that
    by (auto simp: entries_def stored_def key_value_def holds_key_def)
  ultimately have "{k \<in> set ks. m k \<noteq> None} = {k. prefix l k \<and> m k \<noteq> None}"
    using ks(3,4) data by auto
  then show ?thesis using ks data by blast
qed

lemma list_users:
  assumes "entries view s = stored m" and "q ''keyword'' = []" and "parsePagination q = (page, ps)"
  shows "\<exists>ks users. distinct ks \<and> set ks = {k. prefix ''user:'' k \<and> m k \<noteq> None} \<and>
    users = decoded (unmarshal_user env) m ks \<and>
    fst (ListUsers env svc q s) = page_reply UserPage page ps users"
proof -
  have "literal ''user:''" by (simp add: literal_def star_pattern_def)
  from keys_stored [OF assms(1) this] obtain ks where
    ks: "fst (run_cmd svc (AKeys ''user:*'') s) = RList ks" "distinct ks" "\<forall>k\<in>set ks. data_key k"
      "{k \<in> set ks. m k \<noteq> None} = {k. prefix ''user:'' k \<and> m k \<noteq> None}" by auto
  obtain s1 where k: "run_cmd svc (AKeys ''user:*'') s = (RList ks, s1)" using ks(1) by (metis prod.collapse)
  have s1: "entries view s1 = stored m" by (metis stored.reads_observed(3) k snd_conv assms(1))
  have "(\<lambda>user. userMatchesKeyword env user []) = (\<lambda>_. True)"
    by (simp add: userMatchesKeyword_def matches_keyword_def fun_eq_iff)
  then have "fst (getUsersByStringMatch env svc [] s) = decoded (unmarshal_user env) m ks"
    using k fetch_decoded [OF s1 ks(3)] by (simp add: getUsersByStringMatch_def)
  moreover have "decoded f m ks = decoded f m (filter (\<lambda>k. m k \<noteq> None) ks)" for f
    by (induction ks) (auto simp: decoded_def)
  ultimately have "fst (getUsersByStringMatch env svc [] s) =
      decoded (unmarshal_user env) m (filter (\<lambda>k. m k \<noteq> None) ks)" by simp
  moreover have "fst (ListUsers env svc q s) = page_reply UserPage page ps (fst (getUsersByStringMatch env svc [] s))"
    using assms(2,3) by (simp add: ListUsers_def page_reply_def Let_def case_prod_beta split: option.split outcome.split)
  ultimately show ?thesis using ks(2,4)
    by (intro exI [of _ "filter (\<lambda>k. m k \<noteq> None) ks"]) (simp add: Collect_conj_eq)
qed

end

lemma decoded_length: "length (decoded f m ks) \<le> length ks"
  by (induction ks) (auto simp: decoded_def split: option.splits sum.splits)

text \<open>Each request adds at most one key.\<close>

lemma spec_create_dom: "\<exists>k. dom (spec_create k0 data m) \<subseteq> insert k (dom m)"
  by (intro exI [of _ k0]) (auto simp: spec_create_def split: sum.split)

lemma spec_step_dom: "\<exists>k. dom (spec_step dec x m) \<subseteq> insert k (dom m)"
proof -
  obtain env r where x: "x = (env, r)" by (cases x)
  have "\<exists>k. dom (m(k0 := None)) \<subseteq> insert k (dom m)" for k0 by auto
  moreover have "\<exists>k. dom m \<subseteq> insert k (dom m)" by blast
  ultimately show ?thesis unfolding x spec_step_def prod.case
    using spec_create_dom [of _ _ m] by (simp split: sum.split)
qed

lemma spec_size:
  assumes "finite (dom m)"
  shows "finite (dom (fold (spec_step dec) reqs m)) \<and> card (dom (fold (spec_step dec) reqs m)) \<le> length reqs + card (dom m)"
  using assms
proof (induction reqs arbitrary: m)
  case (Cons x reqs)
  obtain k where k: "dom (spec_step dec x m) \<subseteq> insert k (dom m)" using spec_step_dom by blast
  have f: "finite (insert k (dom m))" using Cons.prems by simp
  have "card (dom (spec_step dec x m)) \<le> Suc (card (dom m))"
    using card_mono [OF f k] card_insert_le_m1 [of "Suc (card (dom m))" "dom m" k] by simp
  then show ?case using Cons.IH [OF finite_subset [OF k f]] by simp
qed simp

section \<open>A concrete server\<close>

lemma glob_prefix: "glob (l @ p) k \<Longrightarrow> CHR ''*'' \<notin> set l \<Longrightarrow> prefix l k"
  by (induction l arbitrary: k) (auto split: list.splits)

lemma kv_value: "key_value (kv_view kv) k = (map_of kv k, {}, Map.empty)"
  by (simp add: key_value_def kv_view_def)

lemma kv_store_laws: "admin_store_laws kv_server kv_view"
proof -
  have del: "map_of [x \<leftarrow> kv. fst x \<noteq> k] j = (if j = k then None else map_of kv j)" for kv :: "(string \<times> string) list" and k j
    by (induction kv) auto
  have keys: "holds_key (kv_view kv) k \<Longrightarrow> k \<in> fst ` set kv" for kv k
    using map_of_eq_None_iff [of kv k] by (auto simp: holds_key_def kv_view_def)
  have W: "key_value (kv_view (snd (kv_server c kv))) k = key_value (kv_view kv) k" if "k \<notin> writes c" for c k kv
    using that by (cases c) (simp_all add: kv_server_def kv_value del)
  have E: "fst (kv_server (AExists k) kv) = RInt (if key_value (kv_view kv) k = absent then 0 else 1)" for k kv
    by (simp add: kv_server_def kv_value)
  have G: "(fst (kv_server (AGet k) kv) = RStr x) = (rv_str (kv_view kv) k = Some x)" for k x kv
    by (simp add: kv_server_def kv_view_def split: option.split)
  have S: "fst (kv_server (ASet k x) kv) = ROk"
    "key_value (kv_view (snd (kv_server (ASet k x) kv))) k = (Some x, {}, Map.empty)" for k x kv
    by (simp_all add: kv_server_def kv_value)
  have D: "\<exists>n. fst (kv_server (ADel k) kv) = RInt n" "key_value (kv_view (snd (kv_server (ADel k) kv))) k = absent" for k kv
    by (simp_all add: kv_server_def kv_value del)
  have K: "\<exists>ks. fst (kv_server (AKeys pat) kv) = RList ks \<and> distinct ks \<and>
      (star_pattern pat \<longrightarrow> (\<forall>k. holds_key (kv_view kv) k \<and> glob pat k \<longrightarrow> k \<in> set ks)) \<and>
      (\<forall>l p. pat = l @ p \<and> literal l \<longrightarrow> (\<forall>k\<in>set ks. prefix l k))" for pat kv
    using keys [of kv] by (fastforce simp: kv_server_def literal_def dest: glob_prefix)
  show ?thesis unfolding admin_store_laws_def
    by (intro conjI allI impI; (rule E G S D K | rule W, assumption))
qed

abbreviation kv_service :: "(unit, unit, (string \<times> string) list) admin_service" where
  "kv_service \<equiv> \<lparr>adm_redis = kv_server, adm_search = None\<rparr>"

interpretation kv: admin_redis kv_service kv_view
  by unfold_locales (simp add: kv_store_laws)

interpretation kv_stored: redis_observer kv_service "entries kv_view"
  by (rule kv.stored.redis_observer_axioms)

section \<open>Properties\<close>

text \<open>
  C14: what the admin service stores.  On a Redis server without users and documents, after any sequence
  of HTTP requests the users and documents stored are those of the map specification: a POST takes a
  free key only (never overwriting), a DELETE frees the key, and no other request (listings, grants,
  revocations, unknown methods and paths, undecodable bodies) changes them, nor do the keys deleted
  along with a user.  A further POST of a user is answered by the map: created when its key is free,
  refused otherwise.  The POSTs and DELETEs meant are those of the routes in the code, /api/users and
  /api/documents; a POST to /api/users/create and the other paths of the documentation is a request to
  an unknown path and changes nothing (\<open>documented_paths\<close>).
\<close>

theorem admin_session_stores:
  assumes "admin_store_laws (adm_redis svc) view" and "entries view s = stored Map.empty"
  shows "entries view (admin_session dec err_text svc reqs s) = stored (fold (spec_step dec) reqs Map.empty) \<and>
    (\<forall>env r req data. rq_path r = ''/api/users'' \<and> rq_method r = ''POST'' \<and> dec_user dec (rq_body r) = Inr req \<and>
       marshal_user env (new_user env req) = Inr data \<longrightarrow>
       fst (registerRoutes env dec err_text svc r (admin_session dec err_text svc reqs s)) =
         Ok (JSONReply 200
           (if fold (spec_step dec) reqs Map.empty (''user:'' @ cu_id req) = None
            then Response 200 ''user created'' (UserData (new_user env req))
            else Response 400 ''user already exists'' NoData)))"
proof -
  let ?s = "admin_session dec err_text svc reqs s" and ?m = "fold (spec_step dec) reqs Map.empty"
  have R: "admin_redis svc view" by (rule admin_redis.intro [OF assms(1)])
  have e: "entries view ?s = stored ?m" by (rule admin_redis.session_entries [OF R assms(2)])
  have reply: "fst (registerRoutes env dec err_text svc r ?s) = Ok (JSONReply 200 (if ?m (''user:'' @ cu_id req) = None
      then Response 200 ''user created'' (UserData (new_user env req)) else Response 400 ''user already exists'' NoData))"
    if "rq_path r = ''/api/users''" "rq_method r = ''POST''" "dec_user dec (rq_body r) = Inr req"
      "marshal_user env (new_user env req) = Inr data" for env r req data
  proof -
    obtain resp s' where c: "CreateUser env svc (Inr req) ?s = (resp, s')" by fastforce
    then have "resp = Ok (if ?m (''user:'' @ cu_id req) = None
        then Response 200 ''user created'' (UserData (new_user env req)) else Response 400 ''user already exists'' NoData)"
      using admin_redis.create_user [OF R e, of env req] that(4) by (simp del: append.simps)
    then show ?thesis using c that(1-3) by (simp add: registerRoutes_def by_method_def)
  qed
  then show ?thesis using e by blast
qed

definition demo_users :: admin_env where
  "demo_users = demo_admin\<lparr>marshal_user := (\<lambda>u. Inr (u_name u)),
     unmarshal_user := (\<lambda>x. Inr \<lparr>u_id = [], u_name = x, u_email = [], u_created_at = []\<rparr>)\<rparr>"

definition demo_decoders :: admin_decoders where
  "demo_decoders = \<lparr>dec_user = (\<lambda>b. Inr \<lparr>cu_id = take 1 b, cu_name = b, cu_email = []\<rparr>), dec_doc = (\<lambda>_. Inl EOF),
     dec_id = Inr, dec_perm = (\<lambda>_. Inl EOF)\<rparr>"

definition user_request :: "string \<Rightarrow> string \<Rightarrow> admin_request" where
  "user_request meth body = \<lparr>rq_method = meth, rq_path = ''/api/users'', rq_query = (\<lambda>_. []), rq_body = body\<rparr>"

lemma kv_empty: "entries kv_view \<lparr>st_redis = [], st_milvus = ()\<rparr> = stored Map.empty"
  by (simp add: entries_def stored_def kv_value fun_eq_iff)

lemmas demo_admin_defs = demo_users_def demo_decoders_def demo_admin_def user_request_def spec_step_def
  spec_create_def new_user_def

theorem admin_session_stores_witness:
  "fst (registerRoutes demo_users demo_decoders (\<lambda>_. []) kv_service (user_request ''POST'' ''anna'')
     (admin_session demo_decoders (\<lambda>_. []) kv_service
        [(demo_users, user_request ''POST'' ''adam''), (demo_users, user_request ''POST'' ''bob''),
         (demo_users, user_request ''DELETE'' ''b'')] \<lparr>st_redis = [], st_milvus = ()\<rparr>)) =
   Ok (JSONReply 200 (Response 400 ''user already exists'' NoData))"
proof -
  let ?reqs = "[(demo_users, user_request ''POST'' ''adam''), (demo_users, user_request ''POST'' ''bob''),
    (demo_users, user_request ''DELETE'' ''b'')]"
  have l: "admin_store_laws (adm_redis kv_service) kv_view" by (simp add: kv_store_laws)
  have p: "rq_path (user_request ''POST'' ''anna'') = ''/api/users''" "rq_method (user_request ''POST'' ''anna'') = ''POST''"
    "dec_user demo_decoders (rq_body (user_request ''POST'' ''anna'')) = Inr \<lparr>cu_id = ''a'', cu_name = ''anna'', cu_email = []\<rparr>"
    "marshal_user demo_users (new_user demo_users \<lparr>cu_id = ''a'', cu_name = ''anna'', cu_email = []\<rparr>) = Inr ''anna''"
    by (simp_all add: demo_admin_defs)
  have m: "fold (spec_step demo_decoders) ?reqs Map.empty (''user:'' @ ''a'') \<noteq> None"
    by (simp add: demo_admin_defs)
  show ?thesis
    using admin_session_stores [OF l kv_empty, of demo_decoders "\<lambda>_. []" ?reqs] p m by fastforce
qed

text \<open>
  C35: what the admin service shows.  After any session, GET /api/users without a keyword answers with a
  page of all the users stored, each exactly once: the decoded values of the map specification's user
  keys, with their number and the number of pages.  It is the requested page as long as the first index
  of the page fits an \<open>int64\<close>; beyond, the request panics or shows the page at the wrapped index.  What is
  stored comes from the routes of the code, where users are created by POST /api/users; the path
  /api/users/create of the documentation is none of them (see \<open>documented_paths\<close>).
\<close>

theorem admin_lists_users:
  assumes "admin_store_laws (adm_redis svc) view" and "entries view s = stored Map.empty"
    and "rq_path r = ''/api/users''" and "rq_method r = ''GET''" and "rq_query r ''keyword'' = []"
    and "parsePagination (rq_query r) = (page, ps)" and "int (length reqs) < 2 ^ 62"
  shows "\<exists>ks users. distinct ks \<and>
    set ks = {k. prefix ''user:'' k \<and> fold (spec_step dec) reqs Map.empty k \<noteq> None} \<and>
    users = decoded (unmarshal_user env) (fold (spec_step dec) reqs Map.empty) ks \<and>
    fst (registerRoutes env dec err_text svc r (admin_session dec err_text svc reqs s)) =
      (let n = int (length users);
           shown = (\<lambda>start. Ok (JSONReply 200 (Response 200 ''success''
             (UserPage (take (nat ps) (drop (nat start) users)) page ps n ((n + ps - 1) div ps))))) in
       if (page - 1) * ps < 2 ^ 63 then shown ((page - 1) * ps)
       else if wrap64 ((page - 1) * ps) < 0 then Panic ''slice bounds out of range''
       else shown (wrap64 ((page - 1) * ps)))"
proof -
  let ?s = "admin_session dec err_text svc reqs s" and ?m = "fold (spec_step dec) reqs Map.empty"
  have R: "admin_redis svc view" by (rule admin_redis.intro [OF assms(1)])
  have e: "entries view ?s = stored ?m" by (rule admin_redis.session_entries [OF R assms(2)])
  from admin_redis.list_users [OF R e assms(5,6), of env] obtain ks users where
    ks: "distinct ks" "set ks = {k. prefix ''user:'' k \<and> ?m k \<noteq> None}"
      "users = decoded (unmarshal_user env) ?m ks"
      "fst (ListUsers env svc (rq_query r) ?s) = page_reply UserPage page ps users" by blast
  have "length users \<le> length ks" by (simp add: ks(3) decoded_length)
  also have "\<dots> = card (set ks)" by (simp add: distinct_card [OF ks(1)])
  also have "\<dots> \<le> length reqs"
    using spec_size [of Map.empty dec reqs] card_mono [of "dom ?m" "set ks"] ks(2) by (simp add: dom_def) force
  finally have n: "int (length users) < 2 ^ 62" using assms(7) by simp
  note ps = parsePagination_range [OF assms(6)]
  have "fst (registerRoutes env dec err_text svc r ?s) = fst (withJSON err_text (ListUsers env svc (rq_query r) ?s))"
    using assms(3,4) by (simp add: registerRoutes_def by_method_def)
  moreover have "fst (ListUsers env svc (rq_query r) ?s) =
      (let n = int (length users);
           shown = (\<lambda>start. Ok (Response 200 ''success''
             (UserPage (take (nat ps) (drop (nat start) users)) page ps n ((n + ps - 1) div ps)))) in
       if (page - 1) * ps < 2 ^ 63 then shown ((page - 1) * ps)
       else if wrap64 ((page - 1) * ps) < 0 then Panic ''slice bounds out of range''
       else shown (wrap64 ((page - 1) * ps)))"
    using ps ks(4) by (simp add: page_reply_def paginate_split [OF _ _ _ _ n] total_page_div [OF _ _ n] Let_def)
  ultimately have "fst (registerRoutes env dec err_text svc r ?s) =
      (let n = int (length users);
           shown = (\<lambda>start. Ok (JSONReply 200 (Response 200 ''success''
             (UserPage (take (nat ps) (drop (nat start) users)) page ps n ((n + ps - 1) div ps))))) in
       if (page - 1) * ps < 2 ^ 63 then shown ((page - 1) * ps)
       else if wrap64 ((page - 1) * ps) < 0 then Panic ''slice bounds out of range''
       else shown (wrap64 ((page - 1) * ps)))"
    by (simp add: Let_def withJSON_result)
  with ks(1-3) show ?thesis by blast
qed

lemma distinct_singleton: "distinct xs \<Longrightarrow> set xs = {x} \<Longrightarrow> xs = [x]"
  by (cases xs; cases "tl xs") auto

definition list_request :: admin_request where
  "list_request = \<lparr>rq_method = ''GET'', rq_path = ''/api/users'', rq_query = (\<lambda>_. []), rq_body = []\<rparr>"

theorem admin_lists_users_witness:
  "fst (registerRoutes demo_users demo_decoders (\<lambda>_. []) kv_service list_request
     (admin_session demo_decoders (\<lambda>_. []) kv_service
        [(demo_users, user_request ''POST'' ''adam''), (demo_users, user_request ''POST'' ''bob''),
         (demo_users, user_request ''DELETE'' ''b'')] \<lparr>st_redis = [], st_milvus = ()\<rparr>)) =
   Ok (JSONReply 200 (Response 200 ''success''
     (UserPage [\<lparr>u_id = [], u_name = ''adam'', u_email = [], u_created_at = []\<rparr>] 1 50 1 1)))"
proof -
  let ?reqs = "[(demo_users, user_request ''POST'' ''adam''), (demo_users, user_request ''POST'' ''bob''),
    (demo_users, user_request ''DELETE'' ''b'')]"
  have l: "admin_store_laws (adm_redis kv_service) kv_view" by (simp add: kv_store_laws)
  have p: "parsePagination (rq_query list_request) = (1, 50)"
    by (simp add: list_request_def parsePagination_def ParseInt10_def)
  have r: "rq_path list_request = ''/api/users''" "rq_method list_request = ''GET''" "rq_query list_request ''keyword'' = []"
    by (simp_all add: list_request_def)
  have m: "fold (spec_step demo_decoders) ?reqs Map.empty = [''user:a'' \<mapsto> ''adam'']"
    by (simp add: demo_admin_defs fun_eq_iff)
  have single: "{k. prefix ''user:'' k \<and> [''user:a'' \<mapsto> ''adam''] k \<noteq> None} = {''user:a''}" by auto
  have d: "decoded (unmarshal_user demo_users) [''user:a'' \<mapsto> ''adam''] [''user:a''] =
      [\<lparr>u_id = [], u_name = ''adam'', u_email = [], u_created_at = []\<rparr>]"
    by (simp add: decoded_def demo_users_def)
  have n: "int (length ?reqs) < 2 ^ 62" by simp
  obtain ks users where u: "distinct ks" "set ks = {k. prefix ''user:'' k \<and> [''user:a'' \<mapsto> ''adam''] k \<noteq> None}"
    "users = decoded (unmarshal_user demo_users) [''user:a'' \<mapsto> ''adam''] ks"
    "fst (registerRoutes demo_users demo_decoders (\<lambda>_. []) kv_service list_request
       (admin_session demo_decoders (\<lambda>_. []) kv_service ?reqs \<lparr>st_redis = [], st_milvus = ()\<rparr>)) =
     (let n = int (length users);
           shown = (\<lambda>start. Ok (JSONReply 200 (Response 200 ''success''
             (UserPage (take (nat 50) (drop (nat start) users)) 1 50 n ((n + 50 - 1) div 50))))) in
       if (1 - 1) * 50 < (2 :: int) ^ 63 then shown ((1 - 1) * 50)
       else if wrap64 ((1 - 1) * 50) < 0 then Panic ''slice bounds out of range''
       else shown (wrap64 ((1 - 1) * 50)))"
    using admin_lists_users [OF l kv_empty r p n, of demo_decoders demo_users "\<lambda>_. []"] unfolding m by blast
  have "users = [\<lparr>u_id = [], u_name = ''adam'', u_email = [], u_created_at = []\<rparr>]"
    using u(3) distinct_singleton [OF u(1)] u(2) d unfolding single by simp
  then show ?thesis unfolding u(4) by (simp add: Let_def)
qed

end
