(* ===== verification/AclHandlers.thy ===== *)
theory AclHandlers
  imports AclMemory
begin

text \<open>
  \<open>services/acl/biz/handler/acl.go\<close>: the HTTP handlers over an ACL store.  What hertz, the UUID
  package and \<open>time.Parse\<close> do is the environment \<open>acl_env\<close> and the request: a body \<open>c.Bind\<close>
  rejects is \<open>None\<close>.  A handler reads the clock at \<open>clk\<close>, the store it calls at \<open>clk'\<close>.  A response
  is a status and a body.
\<close>

section \<open>Requests and responses\<close>

record acl_env =
  is_uuid :: "string \<Rightarrow> bool"
  parse_time :: "string \<Rightarrow> int option"

record checkBatchRequest =
  cb_tenant :: string
  cb_user :: string
  cb_docs :: "string list"
  cb_now :: string

record grantRequest =
  gr_tenant :: string
  gr_doc :: string
  gr_user :: string
  gr_valid_from :: string
  gr_valid_to :: string
  gr_restricted :: "bool option"

record revokeRequest =
  rv_tenant :: string
  rv_doc :: string
  rv_user :: string

record revokeAllUserRequest =
  ra_tenant :: string
  ra_user :: string

record listGrantsQuery =
  lg_tenant :: string
  lg_user :: string
  lg_now :: string

datatype acl_body =
    ErrorBody string
  | StoreErrorBody acl_error
  | AllowedDocs "string list option"
  | GrantedDocs "string list option"
  | NoBody

type_synonym acl_response = "nat \<times> acl_body"

definition errInvalidJSON :: string where "errInvalidJSON = ''invalid json''"
definition errTenantUserUUID :: string where
  "errTenantUserUUID = ''tenant_id and user_id must be uuid''"

text \<open>\<open>if err != nil \<dots> else \<dots>\<close> on the result of a store call.\<close>

fun on_result ::
  "('e, 'a) outcome \<times> 's \<Rightarrow> ('e \<Rightarrow> 's \<Rightarrow> ('f, 'b) outcome \<times> 's) \<Rightarrow>
   ('a \<Rightarrow> 's \<Rightarrow> ('f, 'b) outcome \<times> 's) \<Rightarrow> ('f, 'b) outcome \<times> 's" where
  "on_result (Ok x, s) ke k = k x s"
| "on_result (Fail e, s) ke k = ke e s"
| "on_result (Panic p, s) ke k = (Panic p, s)"
| "on_result (Hang, s) ke k = (Hang, s)"

text \<open>A time field: its default when it is empty, else what \<open>time.Parse\<close> makes of it.\<close>

definition time_field :: "acl_env \<Rightarrow> string \<Rightarrow> 'a \<Rightarrow> (int \<Rightarrow> 'a) \<Rightarrow> 'a option" where
  "time_field env str dflt conv =
     (if str = [] then Some dflt
      else (case parse_time env str of None \<Rightarrow> None | Some t \<Rightarrow> Some (conv t)))"

section \<open>Handlers\<close>

definition SetStore :: "'s acl_store option \<Rightarrow> 's acl_store \<Rightarrow> 's acl_store" where
  "SetStore s store = (case s of None \<Rightarrow> store | Some s \<Rightarrow> s)"

definition ACLCheckBatch ::
  "acl_env \<Rightarrow> 's acl_store \<Rightarrow> int \<Rightarrow> int \<Rightarrow> checkBatchRequest option \<Rightarrow> 's \<Rightarrow>
   (unit, acl_response) outcome \<times> 's" where
  "ACLCheckBatch env store clk clk' req s =
     (case req of
        None \<Rightarrow> (Ok (400, ErrorBody errInvalidJSON), s)
      | Some req \<Rightarrow>
          if \<not> is_uuid env (cb_tenant req) \<or> \<not> is_uuid env (cb_user req)
          then (Ok (400, ErrorBody errTenantUserUUID), s)
          else if list_ex (\<lambda>id. \<not> is_uuid env id) (cb_docs req)
          then (Ok (400, ErrorBody ''doc_ids must be uuid''), s)
          else
            (case time_field env (cb_now req) clk (\<lambda>t. t) of
               None \<Rightarrow> (Ok (400, ErrorBody ''now must be RFC3339''), s)
             | Some now \<Rightarrow>
                 on_result (check_batch store clk' (cb_tenant req) (cb_user req) (cb_docs req) now s)
                   (\<lambda>_ s. (Ok (200, AllowedDocs (Some [])), s))
                   (\<lambda>allowed s. (Ok (200, AllowedDocs allowed), s))))"

definition ACLListGrants ::
  "acl_env \<Rightarrow> 's acl_store \<Rightarrow> int \<Rightarrow> int \<Rightarrow> listGrantsQuery \<Rightarrow> 's \<Rightarrow>
   (unit, acl_response) outcome \<times> 's" where
  "ACLListGrants env store clk clk' q s =
     (if \<not> is_uuid env (lg_tenant q) \<or> \<not> is_uuid env (lg_user q)
      then (Ok (400, ErrorBody errTenantUserUUID), s)
      else
        (case time_field env (lg_now q) clk (\<lambda>t. t) of
           None \<Rightarrow> (Ok (400, ErrorBody ''now must be RFC3339''), s)
         | Some now \<Rightarrow>
             (case list_grants store clk' (lg_tenant q) (lg_user q) now s of
                (granted, s) \<Rightarrow> (Ok (200, GrantedDocs granted), s))))"

definition ACLGrant ::
  "acl_env \<Rightarrow> 's acl_store \<Rightarrow> int \<Rightarrow> int \<Rightarrow> grantRequest option \<Rightarrow> 's \<Rightarrow>
   (unit, acl_response) outcome \<times> 's" where
  "ACLGrant env store clk clk' req s =
     (case req of
        None \<Rightarrow> (Ok (400, ErrorBody errInvalidJSON), s)
      | Some req \<Rightarrow>
          if \<not> is_uuid env (gr_tenant req) \<or> \<not> is_uuid env (gr_doc req) \<or> \<not> is_uuid env (gr_user req)
          then (Ok (400, ErrorBody ''tenant_id/doc_id/user_id must be uuid''), s)
          else
            (case time_field env (gr_valid_from req) clk (\<lambda>t. t) of
               None \<Rightarrow> (Ok (400, ErrorBody ''valid_from must be RFC3339''), s)
             | Some validFrom \<Rightarrow>
                 (case time_field env (gr_valid_to req) None Some of
                    None \<Rightarrow> (Ok (400, ErrorBody ''valid_to must be RFC3339''), s)
                  | Some validTo \<Rightarrow>
                      on_result
                        (if gr_restricted req = Some True
                         then set_visibility store (gr_tenant req) (gr_doc req) VisibilityRestricted s
                         else (Ok (), s))
                        (\<lambda>e s. (Ok (400, StoreErrorBody e), s))
                        (\<lambda>_ s. on_result
                          (grant store clk' (gr_tenant req) (gr_doc req) (gr_user req)
                             validFrom validTo s)
                          (\<lambda>e s. (Ok (400, StoreErrorBody e), s))
                          (\<lambda>_ s. (Ok (200, NoBody), s))))))"

definition ACLRevoke ::
  "acl_env \<Rightarrow> 's acl_store \<Rightarrow> revokeRequest option \<Rightarrow> 's \<Rightarrow> (unit, acl_response) outcome \<times> 's"
  where
  "ACLRevoke env store req s =
     (case req of
        None \<Rightarrow> (Ok (400, ErrorBody errInvalidJSON), s)
      | Some req \<Rightarrow>
          if \<not> is_uuid env (rv_tenant req) \<or> \<not> is_uuid env (rv_doc req) \<or> \<not> is_uuid env (rv_user req)
          then (Ok (400, ErrorBody ''tenant_id/doc_id/user_id must be uuid''), s)
          else
            on_result (revoke store (rv_tenant req) (rv_doc req) (rv_user req) s)
              (\<lambda>e s. (Ok (400, StoreErrorBody e), s))
              (\<lambda>_ s. (Ok (200, NoBody), s)))"

definition ACLRevokeAllUser ::
  "acl_env \<Rightarrow> 's acl_store \<Rightarrow> revokeAllUserRequest option \<Rightarrow> 's \<Rightarrow>
   (unit, acl_response) outcome \<times> 's" where
  "ACLRevokeAllUser env store req s =
     (case req of
        None \<Rightarrow> (Ok (400, ErrorBody errInvalidJSON), s)
      | Some req \<Rightarrow>
          if \<not> is_uuid env (ra_tenant req) \<or> \<not> is_uuid env (ra_user req)
          then (Ok (400, ErrorBody errTenantUserUUID), s)
          else
            on_result (revoke_all_user store (ra_tenant req) (ra_user req) s)
              (\<lambda>e s. (Ok (400, StoreErrorBody e), s))
              (\<lambda>_ s. (Ok (200, NoBody), s)))"

text \<open>The routes of \<open>customizedRegister\<close> that reach a store.\<close>

datatype acl_request =
    CheckBatch "checkBatchRequest option"
  | Grants listGrantsQuery
  | Grant "grantRequest option"
  | Revoke "revokeRequest option"
  | RevokeAll "revokeAllUserRequest option"

fun acl_serve ::
  "acl_env \<Rightarrow> 's acl_store \<Rightarrow> int \<Rightarrow> int \<Rightarrow> acl_request \<Rightarrow> 's \<Rightarrow> (unit, acl_response) outcome \<times> 's"
  where
  "acl_serve env store clk clk' (CheckBatch req) s = ACLCheckBatch env store clk clk' req s"
| "acl_serve env store clk clk' (Grants q) s = ACLListGrants env store clk clk' q s"
| "acl_serve env store clk clk' (Grant req) s = ACLGrant env store clk clk' req s"
| "acl_serve env store clk clk' (Revoke req) s = ACLRevoke env store req s"
| "acl_serve env store clk clk' (RevokeAll req) s = ACLRevokeAllUser env store req s"

fun acl_session ::
  "acl_env \<Rightarrow> 's acl_store \<Rightarrow> ((int \<times> int) \<times> acl_request) list \<Rightarrow> 's \<Rightarrow> 's" where
  "acl_session env store [] s = s"
| "acl_session env store (((clk, clk'), req) # reqs) s =
     acl_session env store reqs (snd (acl_serve env store clk clk' req s))"

section \<open>What a session tells the store\<close>

text \<open>The store operations behind a request.\<close>

fun request_ops :: "acl_env \<Rightarrow> int \<Rightarrow> acl_request \<Rightarrow> acl_op list" where
  "request_ops env clk (Grant (Some req)) =
     (if is_uuid env (gr_tenant req) \<and> is_uuid env (gr_doc req) \<and> is_uuid env (gr_user req)
      then
        (case time_field env (gr_valid_from req) clk (\<lambda>t. t) of
           None \<Rightarrow> []
         | Some validFrom \<Rightarrow>
             (case time_field env (gr_valid_to req) None Some of
                None \<Rightarrow> []
              | Some validTo \<Rightarrow>
                  (if gr_restricted req = Some True
                   then [OpSetVisibility (gr_tenant req) (gr_doc req) VisibilityRestricted] else []) @
                  [OpGrant (gr_tenant req) (gr_doc req) (gr_user req) validFrom validTo]))
      else [])"
| "request_ops env clk (Revoke (Some req)) =
     (if is_uuid env (rv_tenant req) \<and> is_uuid env (rv_doc req) \<and> is_uuid env (rv_user req)
      then [OpRevoke (rv_tenant req) (rv_doc req) (rv_user req)] else [])"
| "request_ops env clk (RevokeAll (Some req)) =
     (if is_uuid env (ra_tenant req) \<and> is_uuid env (ra_user req)
      then [OpRevokeAll (ra_tenant req) (ra_user req)] else [])"
| "request_ops env clk _ = []"

definition session_ops ::
  "acl_env \<Rightarrow> ((int \<times> int) \<times> acl_request) list \<Rightarrow> (int \<times> acl_op) list" where
  "session_ops env reqs =
     concat (map (\<lambda>((clk, clk'), req). map (Pair clk') (request_ops env clk req)) reqs)"

lemma acl_run_append: "acl_run S (h @ h') s = acl_run S h' (acl_run S h s)"
  by (induction S h s rule: acl_run.induct) simp_all

text \<open>
  What the handlers rely on of the UUID package: the empty string is no UUID.  For a store that
  restricts its identifiers, \<open>ident\<close> must allow every UUID.
\<close>

definition uuids_ok :: "acl_env \<Rightarrow> (string \<Rightarrow> bool) \<Rightarrow> bool" where
  "uuids_ok env ident \<longleftrightarrow> \<not> is_uuid env [] \<and> (\<forall>x. is_uuid env x \<longrightarrow> ident x)"

lemma uuids_okD: "uuids_ok env ident \<Longrightarrow> is_uuid env x \<Longrightarrow> x \<noteq> [] \<and> ident x"
  by (auto simp: uuids_ok_def)

context acl_listing
begin

text \<open>Every request is answered, and does to the store what its operations do.\<close>

lemma ops_ids:
  assumes "uuids_ok env ident" and "op \<in> set (request_ops env clk req)"
  shows "\<forall>i\<in>op_ids op. ident i"
proof -
  have id: "ident x" if "is_uuid env x" for x using uuids_okD [OF assms(1) that] by simp
  show ?thesis
  proof (cases req)
    case (Grant r)
    show ?thesis
    proof (cases r)
      case (Some q)
      show ?thesis
      proof (cases "is_uuid env (gr_tenant q) \<and> is_uuid env (gr_doc q) \<and> is_uuid env (gr_user q)")
        case True
        with assms(2) id show ?thesis
          by (cases "time_field env (gr_valid_from q) clk (\<lambda>t. t)";
              cases "time_field env (gr_valid_to q) None Some"; cases "gr_restricted q = Some True")
             (auto simp: Grant Some)
      next
        case False
        then have "request_ops env clk req = []" unfolding Grant Some request_ops.simps by (rule if_not_P)
        with assms(2) show ?thesis by simp
      qed
    qed (use assms(2) Grant in simp)
  next
    case (Revoke r)
    with assms(2) id show ?thesis by (cases r) (simp_all split: if_split_asm)
  next
    case (RevokeAll r)
    with assms(2) id show ?thesis by (cases r) (simp_all split: if_split_asm)
  qed (use assms(2) in simp_all)
qed

lemma apply_ends:
  assumes "inv s" and "\<forall>i\<in>op_ids op. ident i"
  shows "\<exists>r s'. acl_apply S clk op s = (r, s') \<and> inv s' \<and>
    (r = Ok () \<or> (\<exists>e. r = Fail e)) \<and> (sure op \<longrightarrow> op_error op = None \<longrightarrow> r = Ok ())"
  using apply_result [OF assms, of clk] by (cases "acl_apply S clk op s") (auto split: option.splits)

lemma grant_run:
  assumes "uuids_ok env ident" and "inv s" and "is_uuid env (gr_tenant q)" and "is_uuid env (gr_doc q)"
    and "is_uuid env (gr_user q)" and "time_field env (gr_valid_from q) clk (\<lambda>t. t) = Some vf"
    and "time_field env (gr_valid_to q) None Some = Some vt"
  shows "\<exists>resp. ACLGrant env S clk clk' (Some q) s =
    (Ok resp, acl_run S (map (Pair clk') (request_ops env clk (Grant (Some q)))) s)"
proof -
  let ?vis = "OpSetVisibility (gr_tenant q) (gr_doc q) VisibilityRestricted"
  let ?grant = "OpGrant (gr_tenant q) (gr_doc q) (gr_user q) vf vt"
  have ids: "\<forall>i\<in>op_ids ?vis. ident i" "\<forall>i\<in>op_ids ?grant. ident i"
    using assms(3-5) uuids_okD [OF assms(1)] by simp_all
  have "op_error ?vis = None" using assms(3,4) uuids_okD [OF assms(1)] by auto
  with apply_ends [OF assms(2) ids(1), of clk'] obtain sv where
    v: "acl_apply S clk' ?vis s = (Ok (), sv)" "inv sv"
    using visibility_sure by metis
  define s1 where "s1 = (if gr_restricted q = Some True then sv else s)"
  have "inv s1" using v assms(2) by (simp add: s1_def)
  from apply_ends [OF this ids(2), of clk'] obtain rg sg where
    g: "acl_apply S clk' ?grant s1 = (rg, sg)" "rg = Ok () \<or> (\<exists>e. rg = Fail e)"
    by blast
  have "ACLGrant env S clk clk' (Some q) s =
      on_result (acl_apply S clk' ?grant s1) (\<lambda>e s. (Ok (400, StoreErrorBody e), s))
        (\<lambda>_ s. (Ok (200, NoBody), s))"
    using assms(3-7) v(1) by (simp add: ACLGrant_def s1_def)
  moreover have "acl_run S (map (Pair clk') (request_ops env clk (Grant (Some q)))) s = sg"
    using assms(3-7) g(1) v(1) by (auto simp: s1_def split: if_splits)
  ultimately show ?thesis using g by auto
qed

lemma serve_run:
  assumes "uuids_ok env ident" and "inv s"
  shows "\<exists>resp. acl_serve env S clk clk' req s =
    (Ok resp, acl_run S (map (Pair clk') (request_ops env clk req)) s)"
proof (cases req)
  case (Grant r)
  show ?thesis
  proof (cases "\<exists>q vf vt. r = Some q \<and> is_uuid env (gr_tenant q) \<and> is_uuid env (gr_doc q) \<and>
      is_uuid env (gr_user q) \<and> time_field env (gr_valid_from q) clk (\<lambda>t. t) = Some vf \<and>
      time_field env (gr_valid_to q) None Some = Some vt")
    case False
    then show ?thesis by (cases r) (auto simp: Grant ACLGrant_def split: option.splits)
  next
    case True
    then show ?thesis using grant_run [OF assms] by (auto simp: Grant)
  qed
next
  case (Revoke r)
  show ?thesis
  proof (cases "\<exists>q. r = Some q \<and> request_ops env clk req \<noteq> []")
    case True
    then obtain q where q: "r = Some q"
      "request_ops env clk req = [OpRevoke (rv_tenant q) (rv_doc q) (rv_user q)]"
      "is_uuid env (rv_tenant q)" "is_uuid env (rv_doc q)" "is_uuid env (rv_user q)"
      by (auto simp: Revoke split: if_splits)
    from apply_ends [OF assms(2) ops_ids [OF assms(1), of _ clk req]] q(2) obtain r' s' where
      "acl_apply S clk' (OpRevoke (rv_tenant q) (rv_doc q) (rv_user q)) s = (r', s')" "r' = Ok () \<or> (\<exists>e. r' = Fail e)"
      by force
    with q show ?thesis by (auto simp: Revoke ACLRevoke_def)
  qed (cases r, auto simp: Revoke ACLRevoke_def)
next
  case (RevokeAll r)
  show ?thesis
  proof (cases "\<exists>q. r = Some q \<and> request_ops env clk req \<noteq> []")
    case True
    then obtain q where q: "r = Some q"
      "request_ops env clk req = [OpRevokeAll (ra_tenant q) (ra_user q)]"
      "is_uuid env (ra_tenant q)" "is_uuid env (ra_user q)"
      by (auto simp: RevokeAll split: if_splits)
    from apply_ends [OF assms(2) ops_ids [OF assms(1), of _ clk req]] q(2) obtain r' s' where
      "acl_apply S clk' (OpRevokeAll (ra_tenant q) (ra_user q)) s = (r', s')" "r' = Ok () \<or> (\<exists>e. r' = Fail e)"
      by force
    with q show ?thesis by (auto simp: RevokeAll ACLRevokeAllUser_def)
  qed (cases r, auto simp: RevokeAll ACLRevokeAllUser_def)
next
  case (CheckBatch r)
  then show ?thesis using uuids_okD [OF assms(1)] assms(2)
    by (auto simp: ACLCheckBatch_def check_allowed list_all_iff list_ex_iff split: option.splits)
next
  case (Grants q)
  show ?thesis
  proof (cases "is_uuid env (lg_tenant q) \<and> is_uuid env (lg_user q)")
    case True
    have "snd (list_grants S clk' (lg_tenant q) (lg_user q) now s) = s" for now
    proof -
      obtain out s' where l: "list_grants S clk' (lg_tenant q) (lg_user q) now s = (out, s')" by fastforce
      from list_active [OF assms(2) _ _ _ _ l] show ?thesis
        using True uuids_okD [OF assms(1)] l by simp
    qed
    then show ?thesis using True
      by (auto simp: Grants ACLListGrants_def case_prod_beta split: option.splits)
  qed (auto simp: Grants ACLListGrants_def)
qed

lemma session_run:
  assumes "uuids_ok env ident" and "inv s"
  shows "acl_session env S reqs s = acl_run S (session_ops env reqs) s"
  using assms(2)
proof (induction reqs arbitrary: s)
  case (Cons x reqs)
  obtain clk clk' req where x: "x = ((clk, clk'), req)" by (metis surj_pair)
  have "inv (acl_run S (map (Pair clk') (request_ops env clk req)) s)"
    using ops_ids [OF assms(1)] by (intro run_inv [OF Cons.prems]) auto
  then show ?case using serve_run [OF assms(1) Cons.prems, of clk clk' req] Cons.IH
    by (auto simp: x session_ops_def acl_run_append)
qed (simp add: session_ops_def)

text \<open>The answer to a check that passes validation, after any session.\<close>

lemma check_session:
  assumes "uuids_ok env ident" and "inv s0" and "\<And>t d. public s0 t d" and "\<And>t d u now. \<not> active s0 t d u now"
    and "\<forall>i\<in>{t, u} \<union> set ds. is_uuid env i" and "time_field env now_str clk (\<lambda>t. t) = Some now"
    and "\<forall>((_, c), _)\<in>set reqs. c \<le> (if now = 0 then clk' else now)"
  shows "fst (ACLCheckBatch env S clk clk'
      (Some \<lparr>cb_tenant = t, cb_user = u, cb_docs = ds, cb_now = now_str\<rparr>) (acl_session env S reqs s0)) =
    Ok (200, AllowedDocs (Some [d \<leftarrow> ds.
        history_allows tick [op \<leftarrow> map snd (session_ops env reqs). heeds op] t d u
          (if now = 0 then clk' else now)]))"
proof -
  have "\<forall>(c, op)\<in>set (session_ops env reqs). (\<forall>i\<in>op_ids op. ident i) \<and> c \<le> (if now = 0 then clk' else now)"
    using assms(7) ops_ids [OF assms(1)] by (fastforce simp: session_ops_def)
  moreover have "\<forall>i\<in>{t, u} \<union> set ds. ident i" "t \<noteq> []" "u \<noteq> []"
    using assms(5) uuids_okD [OF assms(1)] by auto
  ultimately show ?thesis
    using check_history [OF assms(2-4), of "session_ops env reqs" now clk' t u ds] assms(5,6)
    by (simp add: ACLCheckBatch_def session_run [OF assms(1,2)] list_ex_iff)
qed

end

section \<open>Properties\<close>


definition demo_env :: acl_env where
  "demo_env = \<lparr>is_uuid = (\<lambda>x. length x = 2), parse_time = (\<lambda>x. if x = ''50'' then Some 50
     else if x = ''30'' then Some 30 else None)\<rparr>"


text \<open>
  A check for a past \<open>now\<close>, which \<open>docs/acl-rag-contract.md\<close> offers for replays: the history allows \<open>u1\<close>
  the document \<open>d1\<close> at 30, until 50, but the grant to \<open>u2\<close> at 60 has made the store forget that.
\<close>

lemma replay_in_the_past:
  fixes reqs
  defines "reqs \<equiv> [((1, 2), Grant (Some \<lparr>gr_tenant = ''t1'', gr_doc = ''d1'', gr_user = ''u1'', gr_valid_from = [],
      gr_valid_to = ''50'', gr_restricted = Some True\<rparr>)),
    ((60, 60), Grant (Some \<lparr>gr_tenant = ''t1'', gr_doc = ''d1'', gr_user = ''u2'', gr_valid_from = [],
      gr_valid_to = [], gr_restricted = None\<rparr>))]"
  shows "fst (ACLCheckBatch demo_env (mem_acl_store key_order) 70 70
      (Some \<lparr>cb_tenant = ''t1'', cb_user = ''u1'', cb_docs = [''d1''], cb_now = ''30''\<rparr>)
      (acl_session demo_env (mem_acl_store key_order) reqs NewInMemoryStore)) = Ok (200, AllowedDocs (Some []))"
    and "history_allows id (map snd (session_ops demo_env reqs)) ''t1'' ''d1'' ''u1'' 30"
  by (simp_all add: reqs_def demo_env_def ACLCheckBatch_def ACLGrant_def time_field_def NewInMemoryStore_def
      mem_SetVisibility_def mem_Grant_def mem_CheckBatch_def validateGrantArgs_def Let_def
      grantPermanentLocked_def grantExpiringLocked_def shrink_users_def store_sub_def put_edge_def submap_def
      drop_expired_def visibilityOfLocked_def hasPermanentGrantLocked_def hasExpiringGrantLocked_def edge_def
      doc_edge_def VisibilityPublic_def VisibilityRestricted_def session_ops_def history_allows_def
      history_public_def history_grant_def grant_error_def)

text \<open>
  Fail closed: whatever the store, an error of its check is answered with the empty list, a
  request with an id that is no UUID or with an unreadable time never reaches it, and no error of
  the store turns into a document.
\<close>

theorem check_fails_closed:
  assumes "ACLCheckBatch env store clk clk' req s = (Ok (status, body), s')"
  shows "(status = 400 \<and> s' = s \<and> (\<exists>msg. body = ErrorBody msg)) \<or>
    (status = 200 \<and> (\<exists>r now. req = Some r \<and>
       (\<forall>i\<in>{cb_tenant r, cb_user r} \<union> set (cb_docs r). is_uuid env i) \<and>
       ((\<exists>e. check_batch store clk' (cb_tenant r) (cb_user r) (cb_docs r) now s = (Fail e, s') \<and>
           body = AllowedDocs (Some [])) \<or>
        (\<exists>ds. check_batch store clk' (cb_tenant r) (cb_user r) (cb_docs r) now s = (Ok ds, s') \<and>
           body = AllowedDocs ds))))"
proof (cases "\<exists>r now. req = Some r \<and> is_uuid env (cb_tenant r) \<and> is_uuid env (cb_user r) \<and>
    (\<forall>i\<in>set (cb_docs r). is_uuid env i) \<and> time_field env (cb_now r) clk (\<lambda>t. t) = Some now")
  case True
  then obtain r now where r: "req = Some r" "is_uuid env (cb_tenant r)" "is_uuid env (cb_user r)"
    "\<forall>i\<in>set (cb_docs r). is_uuid env i" "time_field env (cb_now r) clk (\<lambda>t. t) = Some now"
    by blast
  obtain o1 s1 where "check_batch store clk' (cb_tenant r) (cb_user r) (cb_docs r) now s = (o1, s1)"
    by fastforce
  with assms r show ?thesis
    by (cases o1) (auto simp: ACLCheckBatch_def list_ex_iff)
next
  case False
  with assms have "status = 400 \<and> s' = s \<and> (\<exists>msg. body = ErrorBody msg)"
    by (cases req) (auto simp: ACLCheckBatch_def list_ex_iff split: if_split_asm option.split_asm)
  then show ?thesis by blast
qed

theorem check_fails_closed_witness:
  "fst (ACLCheckBatch demo_env ((mem_acl_store key_order)\<lparr>check_batch :=
        (\<lambda>clk t u ds now s. (Fail (StoreErr EOF), s))\<rparr>) 1 2
      (Some \<lparr>cb_tenant = ''t1'', cb_user = ''u1'', cb_docs = [''d1''], cb_now = []\<rparr>) NewInMemoryStore) =
    Ok (200, AllowedDocs (Some []))"
proof -
  let ?S = "(mem_acl_store key_order)\<lparr>check_batch := (\<lambda>clk t u ds now s. (Fail (StoreErr EOF), s))\<rparr>"
  let ?r = "\<lparr>cb_tenant = ''t1'', cb_user = ''u1'', cb_docs = [''d1''], cb_now = []\<rparr>"
  have h: "ACLCheckBatch demo_env ?S 1 2 (Some ?r) NewInMemoryStore =
      (Ok (200, AllowedDocs (Some [])), NewInMemoryStore)"
    by (simp add: ACLCheckBatch_def demo_env_def time_field_def)
  from check_fails_closed [OF h] show ?thesis by (simp add: h)
qed

text \<open>
  A grant request is not atomic: one whose validity interval is reversed is rejected with 400,
  yet if it asks for a restricted document the document has become restricted, and users without
  a grant have lost their access to it.
\<close>

theorem rejected_grant_restricts:
  assumes "uuids_ok env (\<lambda>_. True)" and "is_uuid env t" and "is_uuid env d" and "is_uuid env u"
    and "parse_time env from_str = Some vf" and "parse_time env to_str = Some vt"
    and "from_str \<noteq> []" and "to_str \<noteq> []" and "vt < vf" and "vf \<noteq> 0" and "vt \<noteq> 0"
    and "ACLGrant env (mem_acl_store order) clk clk'
      (Some \<lparr>gr_tenant = t, gr_doc = d, gr_user = u, gr_valid_from = from_str,
             gr_valid_to = to_str, gr_restricted = Some True\<rparr>) s = (r, s')"
    and "\<not> mem_active s t d u' now" and "u' \<noteq> []" and "now \<noteq> 0"
  shows "r = Ok (400, StoreErrorBody ErrValidToBeforeFrom) \<and>
    fst (mem_CheckBatch clk' t u' [d] now s') = Ok (Some [])"
proof -
  have ne: "t \<noteq> []" "d \<noteq> []" "u \<noteq> []" using uuids_okD [OF assms(1)] assms(2-4) by auto
  obtain r1 s1 where v: "acl_apply (mem_acl_store order) clk'
      (OpSetVisibility t d VisibilityRestricted) s = (r1, s1)" by fastforce
  have r1: "r1 = Ok ()" using mem_result [OF v] ne by simp
  obtain r2 s2 where g: "acl_apply (mem_acl_store order) clk' (OpGrant t d u vf (Some vt)) s1 = (r2, s2)"
    by fastforce
  have "op_error (OpGrant t d u vf (Some vt)) = Some ErrValidToBeforeFrom"
    using ne assms(9-11) by (simp add: grant_error_def)
  with mem_result [OF g] have r2: "r2 = Fail ErrValidToBeforeFrom" "s2 = s1" by simp_all
  have "mem_Grant clk' t d u vf (Some vt) s1 = (r2, s2)" "mem_SetVisibility t d VisibilityRestricted s = (r1, s1)"
    using v g by simp_all
  with assms have r: "r = Ok (400, StoreErrorBody ErrValidToBeforeFrom)" "s' = s1"
    by (simp_all add: ACLGrant_def time_field_def r1 r2)
  have "\<not> mem_public s1 t d" using mem_apply_public [OF v, of t d] ne by simp
  moreover have "mem_active s1 t d u' now = mem_active s t d u' now"
    using v ne by (auto simp: mem_SetVisibility_def mem_view_defs Let_def)
  ultimately show ?thesis using r assms(13-15) ne by (simp add: mem_check)
qed

theorem rejected_grant_restricts_witness:
  "\<exists>s'. ACLGrant demo_env (mem_acl_store key_order) 1 2
      (Some \<lparr>gr_tenant = ''t1'', gr_doc = ''d1'', gr_user = ''u1'', gr_valid_from = ''50'',
             gr_valid_to = ''30'', gr_restricted = Some True\<rparr>) NewInMemoryStore =
      (Ok (400, StoreErrorBody ErrValidToBeforeFrom), s') \<and>
    fst (mem_CheckBatch 2 ''t1'' ''u2'' [''d1''] 7 s') = Ok (Some [])"
proof -
  obtain r s' where g: "ACLGrant demo_env (mem_acl_store key_order) 1 2
      (Some \<lparr>gr_tenant = ''t1'', gr_doc = ''d1'', gr_user = ''u1'', gr_valid_from = ''50'',
             gr_valid_to = ''30'', gr_restricted = Some True\<rparr>) NewInMemoryStore = (r, s')"
    by fastforce
  have u: "uuids_ok demo_env (\<lambda>_. True)" by (simp add: uuids_ok_def demo_env_def)
  have "r = Ok (400, StoreErrorBody ErrValidToBeforeFrom) \<and>
      fst (mem_CheckBatch 2 ''t1'' ''u2'' [''d1''] 7 s') = Ok (Some [])"
    by (rule rejected_grant_restricts [OF u _ _ _ _ _ _ _ _ _ _ g, where vf = 50 and vt = 30])
       (simp_all add: demo_env_def)
  then show ?thesis using g by blast
qed

end
