(* ===== verification/AclConfig.thy ===== *)
theory AclConfig
  imports GoErrors
begin

text \<open>
  \<open>services/acl/config.go\<close>: the ACL service's configuration.  The file system and the YAML parser are
  parameters; the parser fills a configuration that already holds the defaults, so it may keep or
  overwrite any field, also with an empty string.
\<close>

record acl_server_config =
  as_addr :: string
  as_enable_stats :: bool

record acl_redis_config =
  ar_addr :: string
  ar_password :: string
  ar_db :: int
  ar_key_prefix :: string
  ar_dial_timeout :: string
  ar_read_timeout :: string
  ar_write_timeout :: string

record acl_config =
  ac_server :: acl_server_config
  ac_redis :: acl_redis_config

definition zero_acl_config :: acl_config where
  "zero_acl_config =
     \<lparr>ac_server = \<lparr>as_addr = [], as_enable_stats = False\<rparr>,
      ac_redis = \<lparr>ar_addr = [], ar_password = [], ar_db = 0, ar_key_prefix = [],
                 ar_dial_timeout = [], ar_read_timeout = [], ar_write_timeout = []\<rparr>\<rparr>"

definition acl_defaultConfig :: acl_config where
  "acl_defaultConfig =
     \<lparr>ac_server = \<lparr>as_addr = '':8888'', as_enable_stats = False\<rparr>,
      ac_redis = \<lparr>ar_addr = [], ar_password = [], ar_db = 0, ar_key_prefix = ''acl:'',
                 ar_dial_timeout = ''1s'', ar_read_timeout = ''1s'', ar_write_timeout = ''1s''\<rparr>\<rparr>"

text \<open>\<open>if field == "" { field = default }\<close>\<close>

definition or_default :: "string \<Rightarrow> string \<Rightarrow> string" where
  "or_default v d = (if v = [] then d else v)"

definition acl_fill_defaults :: "acl_config \<Rightarrow> acl_config" where
  "acl_fill_defaults cfg =
     (let d = acl_defaultConfig;
          s = (ac_server cfg)\<lparr>as_addr := or_default (as_addr (ac_server cfg)) (as_addr (ac_server d))\<rparr>;
          r = ac_redis cfg;
          r = r\<lparr>ar_key_prefix := or_default (ar_key_prefix r) (ar_key_prefix (ac_redis d))\<rparr>;
          r = r\<lparr>ar_dial_timeout := or_default (ar_dial_timeout r) (ar_dial_timeout (ac_redis d))\<rparr>;
          r = r\<lparr>ar_read_timeout := or_default (ar_read_timeout r) (ar_read_timeout (ac_redis d))\<rparr>;
          r = r\<lparr>ar_write_timeout := or_default (ar_write_timeout r) (ar_write_timeout (ac_redis d))\<rparr>
      in cfg\<lparr>ac_server := s, ac_redis := r\<rparr>)"

definition acl_loadConfig ::
  "(string \<Rightarrow> go_err + 'b) \<Rightarrow> (go_err \<Rightarrow> bool) \<Rightarrow> ('b \<Rightarrow> acl_config \<Rightarrow> go_err + acl_config) \<Rightarrow> string \<Rightarrow>
   acl_config \<times> bool \<times> go_err option" where
  "acl_loadConfig read_file is_not_exist unmarshal path =
     (let cfg = acl_defaultConfig in
      if path = [] then (cfg, False, None)
      else
        (case read_file path of
           Inl err \<Rightarrow>
             if is_not_exist err then (cfg, False, None) else (zero_acl_config, False, Some err)
         | Inr b \<Rightarrow>
             (case unmarshal b cfg of
                Inl err \<Rightarrow> (zero_acl_config, False, Some (Wrapped (''parse '' @ path) err))
              | Inr cfg \<Rightarrow> (acl_fill_defaults cfg, True, None))))"

definition redisTimeouts ::
  "(string \<Rightarrow> go_err + int) \<Rightarrow> acl_config \<Rightarrow> int \<times> int \<times> int \<times> go_err option" where
  "redisTimeouts parse_duration c =
     (case parse_duration (ar_dial_timeout (ac_redis c)) of
        Inl err \<Rightarrow> (0, 0, 0, Some (Wrapped ''redis.dial_timeout invalid duration'' err))
      | Inr dial \<Rightarrow>
          (case parse_duration (ar_read_timeout (ac_redis c)) of
             Inl err \<Rightarrow> (0, 0, 0, Some (Wrapped ''redis.read_timeout invalid duration'' err))
           | Inr read \<Rightarrow>
               (case parse_duration (ar_write_timeout (ac_redis c)) of
                  Inl err \<Rightarrow> (0, 0, 0, Some (Wrapped ''redis.write_timeout invalid duration'' err))
                | Inr write \<Rightarrow> (dial, read, write, None))))"

section \<open>Properties\<close>

text \<open>A configuration the service can start with.\<close>

definition complete_config :: "acl_config \<Rightarrow> bool" where
  "complete_config c \<longleftrightarrow> as_addr (ac_server c) \<noteq> [] \<and> ar_key_prefix (ac_redis c) \<noteq> [] \<and>
     ar_dial_timeout (ac_redis c) \<noteq> [] \<and> ar_read_timeout (ac_redis c) \<noteq> [] \<and>
     ar_write_timeout (ac_redis c) \<noteq> []"

text \<open>
  C38: a configuration is complete or refused: whatever the file holds, \<open>loadConfig\<close> returns either an
  error with the zero configuration, or a configuration whose address, key prefix and timeouts are
  not empty; it is marked as loaded exactly when it comes from the file, and is the default one
  otherwise.
\<close>

theorem acl_config_complete:
  "case acl_loadConfig read_file is_not_exist unmarshal path of
     (c, loaded, None) \<Rightarrow> complete_config c \<and> (if loaded
        then \<exists>b c0. read_file path = Inr b \<and> unmarshal b acl_defaultConfig = Inr c0 \<and> c = acl_fill_defaults c0
        else c = acl_defaultConfig)
   | (c, loaded, Some e) \<Rightarrow> c = zero_acl_config \<and> \<not> loaded \<and> path \<noteq> []"
proof -
  have "complete_config (acl_fill_defaults c)" for c
    by (simp add: complete_config_def acl_fill_defaults_def acl_defaultConfig_def or_default_def Let_def)
  moreover have "complete_config acl_defaultConfig"
    by (simp add: complete_config_def acl_defaultConfig_def)
  ultimately show ?thesis
    by (auto simp: acl_loadConfig_def Let_def split: sum.splits)
qed

end
