(* ===== verification/AclService.thy ===== *)
theory AclService
  imports AclHandlers AclRedis AclConfig
begin

text \<open>
  The ACL service as \<open>services/acl/main.go\<close> runs it: which store the configuration selects, and the
  handlers of \<open>AclHandlers\<close> over the Redis store of \<open>AclRedis\<close>.  The listing interface holds for that
  store on every server that does what Redis documents, so the lemmas about sessions of requests apply
  to it unchanged.
\<close>

section \<open>Start-up\<close>

text \<open>
  \<open>main\<close> up to the listener: the options of the Redis client, and a \<open>PING\<close> that must succeed, are
  parameters of the model; \<open>log.Fatalf\<close> is an error.
\<close>

record redis_options =
  ro_addr :: string
  ro_password :: string
  ro_db :: int
  ro_dial_timeout :: int
  ro_read_timeout :: int
  ro_write_timeout :: int

datatype store_choice = RedisStore redis_options string | InMemoryStore

definition acl_main ::
  "(string \<Rightarrow> go_err + 'b) \<Rightarrow> (go_err \<Rightarrow> bool) \<Rightarrow> ('b \<Rightarrow> acl_config \<Rightarrow> go_err + acl_config) \<Rightarrow>
   (string \<Rightarrow> go_err + int) \<Rightarrow> (redis_options \<Rightarrow> go_err option) \<Rightarrow> string \<Rightarrow>
   go_err + bool \<times> string \<times> store_choice" where
  "acl_main read_file is_not_exist unmarshal parse_duration ping configPath =
     (case acl_loadConfig read_file is_not_exist unmarshal configPath of
        (_, _, Some err) \<Rightarrow> Inl (Wrapped ''load config'' err)
      | (cfg, _, None) \<Rightarrow>
          if ar_addr (ac_redis cfg) \<noteq> [] then
            (case redisTimeouts parse_duration cfg of
               (_, _, _, Some err) \<Rightarrow> Inl (Wrapped ''invalid redis timeouts'' err)
             | (dial, read, write, None) \<Rightarrow>
                 let opts = \<lparr>ro_addr = ar_addr (ac_redis cfg), ro_password = ar_password (ac_redis cfg),
                             ro_db = ar_db (ac_redis cfg), ro_dial_timeout = dial,
                             ro_read_timeout = read, ro_write_timeout = write\<rparr> in
                 (case ping opts of
                    Some err \<Rightarrow> Inl (Wrapped ''redis ping failed'' err)
                  | None \<Rightarrow>
                      Inr (as_enable_stats (ac_server cfg), as_addr (ac_server cfg),
                           RedisStore opts (NewRedisStore_prefix (ar_key_prefix (ac_redis cfg))))))
          else Inr (as_enable_stats (ac_server cfg), as_addr (ac_server cfg), InMemoryStore))"

text \<open>
  A service that starts with Redis has reached it, and uses the key prefix of its configuration; one
  whose configuration file is missing keeps its grants in memory.
\<close>

lemma acl_main_redis:
  assumes "acl_main read_file is_not_exist unmarshal parse_duration ping path = Inr (stats, a, RedisStore opts prefix)"
  shows "ping opts = None \<and> ro_addr opts \<noteq> [] \<and>
    (\<exists>b c0. read_file path = Inr b \<and> unmarshal b acl_defaultConfig = Inr c0 \<and>
      prefix = ar_key_prefix (ac_redis (acl_fill_defaults c0)))"
proof -
  have "ar_key_prefix (ac_redis (acl_fill_defaults c)) \<noteq> []" for c
    by (simp add: acl_fill_defaults_def acl_defaultConfig_def or_default_def Let_def)
  moreover have "ar_addr (ac_redis acl_defaultConfig) = []" by (simp add: acl_defaultConfig_def)
  ultimately show ?thesis using assms
    by (auto simp: acl_main_def acl_loadConfig_def NewRedisStore_prefix_def Let_def
        split: sum.splits if_splits prod.splits option.splits)
qed

lemma acl_main_without_file:
  assumes "path = [] \<or> (\<exists>err. read_file path = Inl err \<and> is_not_exist err)"
  shows "acl_main read_file is_not_exist unmarshal parse_duration ping path =
    Inr (False, '':8888'', InMemoryStore)"
  using assms by (auto simp: acl_main_def acl_loadConfig_def acl_defaultConfig_def Let_def)

interpretation redis_plain: acl_listing "redis_acl_store plain_redis ''acl:'' key_order"
    "\<lambda>s. typed_keys s \<and> rv_scripts s = loaded" "redis_public ''acl:''" "redis_active ''acl:''" no_colon unix
    "redis_heeds loaded" "redis_sure loaded" for loaded
  using redis_listing [OF plain_redis_laws key_order, of "''acl:''" loaded] by simp

text \<open>Identifiers of two letters, as stand-ins for UUIDs.\<close>

definition demo_ids :: acl_env where
  "demo_ids = demo_env\<lparr>is_uuid := (\<lambda>x. length x = 2 \<and> no_colon x)\<rparr>"

lemma demo_ids_ok: "uuids_ok demo_ids no_colon"
  by (simp add: uuids_ok_def demo_ids_def)

section \<open>Properties\<close>



text \<open>
  C20: an outage opens every document.  When Redis answers the visibility reads with an error, a valid
  check-batch is answered 200 with every document asked for, restricted or not: the branch of the
  handler that would answer the empty list on an error is never taken.
\<close>

theorem redis_outage_opens_all:
  assumes "\<And>k s. \<exists>e. fst (exec (Get k) s) = RErr e" and "uuids_ok env ident"
    and "\<forall>i\<in>{t, u} \<union> set ds. is_uuid env i" and "time_field env now_str clk (\<lambda>t. t) = Some now"
  shows "fst (ACLCheckBatch env (redis_acl_store exec p order) clk clk'
      (Some \<lparr>cb_tenant = t, cb_user = u, cb_docs = ds, cb_now = now_str\<rparr>) s) =
    Ok (200, AllowedDocs (Some ds))"
proof -
  have ne: "t \<noteq> []" "u \<noteq> []" "[d \<leftarrow> ds. d \<noteq> []] = ds"
    using assms(3) uuids_okD [OF assms(2)] by (auto simp: filter_id_conv)
  obtain r s' where c: "redis_CheckBatch exec p clk' t u ds now s = (r, s')" by fastforce
  with redis_outage_fails_open [where exec = exec and p = p and clk = clk' and ds = ds and now = now and s = s, OF assms(1) ne(1,2)] ne(3)
  have "r = Ok (Some ds)" by simp
  with c show ?thesis using assms(3,4) by (simp add: ACLCheckBatch_def list_ex_iff)
qed

theorem redis_outage_opens_all_witness:
  "fst (ACLCheckBatch demo_env
      (redis_acl_store (\<lambda>c s. (RErr (ErrText ''i/o timeout''), s)) ''acl:'' key_order) 1 2
      (Some \<lparr>cb_tenant = ''t1'', cb_user = ''u1'', cb_docs = [''d1''], cb_now = []\<rparr>) ()) =
    Ok (200, AllowedDocs (Some [''d1'']))"
  by (rule redis_outage_opens_all [where ident = "\<lambda>_. True" and now = 1])
     (simp_all add: uuids_ok_def demo_env_def time_field_def)

end
