(* ===== verification/Commands.thy ===== *)
theory Commands
  imports Client AdminServer AclService ServerConfig
begin

text \<open>
  The command lines of the other three programs: \<open>parseFlags\<close> and \<open>main\<close> of \<open>cmd/client\<close>, \<open>main\<close> of
  \<open>cmd/admin\<close> up to the listener, and the \<open>-config\<close> flag of \<open>services/acl\<close>.  They use the flag package of
  \<open>GoFlag\<close>; a bad command line ends the process there.  Dialling and the listeners are parameters.
\<close>

section \<open>The client\<close>

definition is_uint64 :: "string \<Rightarrow> bool" where
  "is_uint64 s = (case ParseUint0 64 s of Inl _ \<Rightarrow> False | Inr _ \<Rightarrow> True)"

definition client_flags :: flag_set where
  "client_flags = [''addr'' \<mapsto> (\<lambda>_. True), ''cmd'' \<mapsto> (\<lambda>_. True), ''flags'' \<mapsto> (\<lambda>_. True),
     ''payload'' \<mapsto> (\<lambda>_. True), ''id'' \<mapsto> is_uint64]"

definition uint64_flag :: "(string \<times> string) list \<Rightarrow> string \<Rightarrow> 64 word \<Rightarrow> 64 word" where
  "uint64_flag xs name def =
     (case flag_value xs name of
        None \<Rightarrow> def
      | Some v \<Rightarrow> (case ParseUint0 64 v of Inl _ \<Rightarrow> def | Inr n \<Rightarrow> of_nat n))"

definition client_parseFlags :: "string list \<Rightarrow> flag_error + clientConfig" where
  "client_parseFlags args =
     (case parse_flags client_flags args of
        (_, Some e) \<Rightarrow> Inl e
      | (xs, None) \<Rightarrow>
          Inr \<lparr>cc_addr = string_flag xs ''addr'' ''127.0.0.1:9000'',
               cc_cmdHex = string_flag xs ''cmd'' ''0x0001'',
               cc_flagsHex = string_flag xs ''flags'' ''0x00'',
               cc_payload = go_bytes (string_flag xs ''payload'' ''ping''),
               cc_reqID = uint64_flag xs ''id'' 1\<rparr>)"

text \<open>\<open>main\<close> panics with the error of \<open>run\<close>; the outer error is the exit of \<open>flag.Parse\<close>.\<close>

definition client_main ::
  "gzip \<Rightarrow> int \<Rightarrow> (string \<Rightarrow> int \<Rightarrow> go_err + client_conn) \<Rightarrow> string list \<Rightarrow>
   flag_error + (unit, client_output) outcome \<times> client_conn option" where
  "client_main gz now dial args =
     (case client_parseFlags args of
        Inl e \<Rightarrow> Inl e
      | Inr cfg \<Rightarrow>
          Inr (case client_run gz now cfg (dial (cc_addr cfg) (3 * Second)) of
             (Ok out, conn) \<Rightarrow> (Ok out, conn)
           | (Fail e, conn) \<Rightarrow> (Panic ''run'', conn)
           | (Panic p, conn) \<Rightarrow> (Panic p, conn)
           | (Hang, conn) \<Rightarrow> (Hang, conn)))"

text \<open>The request id is the number written, and without flags the client pings the default gateway.\<close>

lemma client_request_id:
  assumes "client_parseFlags args = Inr cfg"
  shows "\<exists>xs. parse_flags client_flags args = (xs, None) \<and>
    (case flag_value xs ''id'' of None \<Rightarrow> cc_reqID cfg = 1 | Some v \<Rightarrow> ParseUint0 64 v = Inr (unat (cc_reqID cfg)))"
proof -
  obtain xs where xs: "parse_flags client_flags args = (xs, None)" "cc_reqID cfg = uint64_flag xs ''id'' 1"
    using assms by (auto simp: client_parseFlags_def split: prod.splits option.splits)
  have "ParseUint0 64 v = Inr (unat (cc_reqID cfg))" if v: "flag_value xs ''id'' = Some v" for v
  proof -
    obtain n where n: "ParseUint0 64 v = Inr n"
      using flag_set_valid [OF xs(1) v] by (auto simp: client_flags_def is_uint64_def split: sum.splits)
    then have "n < 2 ^ 64" using ParseUint0_bound [of 64 v n] by simp
    then show ?thesis using v n xs(2) by (simp add: uint64_flag_def unat_of_nat take_bit_nat_eq_self)
  qed
  then show ?thesis using xs by (auto simp: uint64_flag_def split: option.split)
qed

lemma client_defaults:
  "client_parseFlags [] = Inr \<lparr>cc_addr = ''127.0.0.1:9000'', cc_cmdHex = ''0x0001'', cc_flagsHex = ''0x00'',
     cc_payload = go_bytes ''ping'', cc_reqID = 1\<rparr>"
  "parseCommandAndFlags ''0x0001'' ''0x00'' = Inr (CmdPing, 0)"
  by (simp_all add: client_parseFlags_def string_flag_def uint64_flag_def flag_value_def
      parseCommandAndFlags_def parse_eval CmdPing_def)

section \<open>The admin service\<close>

definition admin_flags :: "host \<Rightarrow> flag_set" where
  "admin_flags h = [''addr'' \<mapsto> (\<lambda>_. True), ''redis'' \<mapsto> (\<lambda>_. True), ''milvus'' \<mapsto> (\<lambda>_. True),
     ''read-timeout'' \<mapsto> is_duration h, ''write-timeout'' \<mapsto> is_duration h, ''idle-timeout'' \<mapsto> is_duration h]"

record http_server =
  hs_addr :: string
  hs_read_timeout :: int
  hs_write_timeout :: int
  hs_idle_timeout :: int

datatype admin_exit = AdminUsage flag_error | AdminFatal go_err

definition admin_main ::
  "host \<Rightarrow> (string \<Rightarrow> 'r admin_exec) \<Rightarrow> (string \<Rightarrow> go_err option) \<Rightarrow> 'e search_env \<Rightarrow>
   (string \<Rightarrow> 'm \<Rightarrow> (go_err + ('e, 'm) milvus) \<times> 'm) \<Rightarrow> string list \<Rightarrow> 'm \<Rightarrow>
   (admin_exit + http_server \<times> ('e, 'm, 'r) admin_service) \<times> 'm" where
  "admin_main h new_client ping senv connect args m =
     (case parse_flags (admin_flags h) args of
        (_, Some e) \<Rightarrow> (Inl (AdminUsage e), m)
      | (xs, None) \<Rightarrow>
          (case NewService new_client ping senv connect (string_flag xs ''redis'' ''localhost:6379'')
                  (string_flag xs ''milvus'' ''localhost:19530'') m of
             (Inl err, m) \<Rightarrow> (Inl (AdminFatal (Wrapped ''failed to create admin service'' err)), m)
           | (Inr adminSvc, m) \<Rightarrow>
               (Inr (\<lparr>hs_addr = string_flag xs ''addr'' '':8888'',
                      hs_read_timeout = duration_flag h xs ''read-timeout'' (10 * Second),
                      hs_write_timeout = duration_flag h xs ''write-timeout'' (10 * Second),
                      hs_idle_timeout = duration_flag h xs ''idle-timeout'' (60 * Second)\<rparr>, adminSvc), m)))"

text \<open>
  The admin service starts exactly when its Redis answers; a Milvus that cannot be reached or set up
  only leaves it without the vector search.
\<close>

lemma admin_main_starts:
  assumes "parse_flags (admin_flags h) args = (xs, None)" and "redis = string_flag xs ''redis'' ''localhost:6379''"
    and "milvus = string_flag xs ''milvus'' ''localhost:19530''"
    and "admin_main h new_client ping senv connect args m = (r, m')"
  shows "case ping redis of
      Some err \<Rightarrow> r = Inl (AdminFatal (Wrapped ''failed to create admin service'' (Wrapped ''redis connection failed'' err)))
    | None \<Rightarrow> \<exists>srv svc. r = Inr (srv, svc) \<and> adm_redis svc = new_client redis \<and>
        (adm_search svc = None \<longleftrightarrow> milvus = [] \<or> (\<exists>err. fst (NewSearchService connect milvus m) = Inl err))"
  using assms(4) unfolding admin_main_def assms(1) NewService_def Let_def prod.case option.case assms(2,3) [symmetric]
  by (auto split: option.splits if_splits prod.splits sum.splits)

section \<open>The ACL service\<close>

definition acl_command ::
  "string \<Rightarrow> (string \<Rightarrow> go_err + 'b) \<Rightarrow> (go_err \<Rightarrow> bool) \<Rightarrow> ('b \<Rightarrow> acl_config \<Rightarrow> go_err + acl_config) \<Rightarrow>
   (string \<Rightarrow> go_err + int) \<Rightarrow> (redis_options \<Rightarrow> go_err option) \<Rightarrow> string list \<Rightarrow>
   flag_error + (go_err + bool \<times> string \<times> store_choice)" where
  "acl_command acl_config_env read_file not_exist unmarshal pd ping args =
     (case parse_flags [''config'' \<mapsto> (\<lambda>_. True)] args of
        (_, Some e) \<Rightarrow> Inl e
      | (xs, None) \<Rightarrow>
          Inr (acl_main read_file not_exist unmarshal pd ping (string_flag xs ''config'' acl_config_env)))"

end
