(* ===== verification/AclConcurrent.thy ===== *)
theory AclConcurrent
  imports AclHandlers
begin

text \<open>
  The handlers of \<open>services/acl/biz/handler/acl.go\<close> running concurrently.  Each request becomes a program
  whose steps are its calls of the store; a call is one step, since the in-memory store holds its mutex
  during it, and between two calls of a request those of any other can run.  The calls read the clock
  when they run.
\<close>

section \<open>Handlers as programs\<close>

datatype acl_prog =
    Reply "(unit, acl_response) outcome"
  | Call acl_op "(acl_error, unit) outcome \<Rightarrow> acl_prog"
  | Check string string "string list" int "(acl_error, string list option) outcome \<Rightarrow> acl_prog"
  | List string string int "string list option \<Rightarrow> acl_prog"

fun on_outcome :: "('e \<Rightarrow> acl_prog) \<Rightarrow> ('a \<Rightarrow> acl_prog) \<Rightarrow> ('e, 'a) outcome \<Rightarrow> acl_prog" where
  "on_outcome ke k (Ok x) = k x"
| "on_outcome ke k (Fail e) = ke e"
| "on_outcome ke k (Panic p) = Reply (Panic p)"
| "on_outcome ke k Hang = Reply Hang"

abbreviation answer_400 :: "acl_body \<Rightarrow> acl_prog" where "answer_400 b \<equiv> Reply (Ok (400, b))"
abbreviation answer_200 :: "acl_body \<Rightarrow> acl_prog" where "answer_200 b \<equiv> Reply (Ok (200, b))"

definition check_prog :: "acl_env \<Rightarrow> int \<Rightarrow> checkBatchRequest option \<Rightarrow> acl_prog" where
  "check_prog env clk req =
     (case req of
        None \<Rightarrow> answer_400 (ErrorBody errInvalidJSON)
      | Some req \<Rightarrow>
          if \<not> is_uuid env (cb_tenant req) \<or> \<not> is_uuid env (cb_user req)
          then answer_400 (ErrorBody errTenantUserUUID)
          else if list_ex (\<lambda>id. \<not> is_uuid env id) (cb_docs req)
          then answer_400 (ErrorBody ''doc_ids must be uuid'')
          else
            (case time_field env (cb_now req) clk (\<lambda>t. t) of
               None \<Rightarrow> answer_400 (ErrorBody ''now must be RFC3339'')
             | Some now \<Rightarrow>
                 Check (cb_tenant req) (cb_user req) (cb_docs req) now
                   (on_outcome (\<lambda>_. answer_200 (AllowedDocs (Some []))) (\<lambda>allowed. answer_200 (AllowedDocs allowed)))))"

definition list_prog :: "acl_env \<Rightarrow> int \<Rightarrow> listGrantsQuery \<Rightarrow> acl_prog" where
  "list_prog env clk q =
     (if \<not> is_uuid env (lg_tenant q) \<or> \<not> is_uuid env (lg_user q)
      then answer_400 (ErrorBody errTenantUserUUID)
      else
        (case time_field env (lg_now q) clk (\<lambda>t. t) of
           None \<Rightarrow> answer_400 (ErrorBody ''now must be RFC3339'')
         | Some now \<Rightarrow> List (lg_tenant q) (lg_user q) now (\<lambda>granted. answer_200 (GrantedDocs granted))))"

definition grant_prog :: "acl_env \<Rightarrow> int \<Rightarrow> grantRequest option \<Rightarrow> acl_prog" where
  "grant_prog env clk req =
     (case req of
        None \<Rightarrow> answer_400 (ErrorBody errInvalidJSON)
      | Some req \<Rightarrow>
          if \<not> is_uuid env (gr_tenant req) \<or> \<not> is_uuid env (gr_doc req) \<or> \<not> is_uuid env (gr_user req)
          then answer_400 (ErrorBody ''tenant_id/doc_id/user_id must be uuid'')
          else
            (case time_field env (gr_valid_from req) clk (\<lambda>t. t) of
               None \<Rightarrow> answer_400 (ErrorBody ''valid_from must be RFC3339'')
             | Some validFrom \<Rightarrow>
                 (case time_field env (gr_valid_to req) None Some of
                    None \<Rightarrow> answer_400 (ErrorBody ''valid_to must be RFC3339'')
                  | Some validTo \<Rightarrow>
                      let grant = Call (OpGrant (gr_tenant req) (gr_doc req) (gr_user req) validFrom validTo)
                        (on_outcome (\<lambda>e. answer_400 (StoreErrorBody e)) (\<lambda>_. answer_200 NoBody)) in
                      if gr_restricted req = Some True
                      then Call (OpSetVisibility (gr_tenant req) (gr_doc req) VisibilityRestricted)
                        (on_outcome (\<lambda>e. answer_400 (StoreErrorBody e)) (\<lambda>_. grant))
                      else grant)))"

definition revoke_prog :: "acl_env \<Rightarrow> revokeRequest option \<Rightarrow> acl_prog" where
  "revoke_prog env req =
     (case req of
        None \<Rightarrow> answer_400 (ErrorBody errInvalidJSON)
      | Some req \<Rightarrow>
          if \<not> is_uuid env (rv_tenant req) \<or> \<not> is_uuid env (rv_doc req) \<or> \<not> is_uuid env (rv_user req)
          then answer_400 (ErrorBody ''tenant_id/doc_id/user_id must be uuid'')
          else Call (OpRevoke (rv_tenant req) (rv_doc req) (rv_user req))
            (on_outcome (\<lambda>e. answer_400 (StoreErrorBody e)) (\<lambda>_. answer_200 NoBody)))"

definition revoke_all_prog :: "acl_env \<Rightarrow> revokeAllUserRequest option \<Rightarrow> acl_prog" where
  "revoke_all_prog env req =
     (case req of
        None \<Rightarrow> answer_400 (ErrorBody errInvalidJSON)
      | Some req \<Rightarrow>
          if \<not> is_uuid env (ra_tenant req) \<or> \<not> is_uuid env (ra_user req)
          then answer_400 (ErrorBody errTenantUserUUID)
          else Call (OpRevokeAll (ra_tenant req) (ra_user req))
            (on_outcome (\<lambda>e. answer_400 (StoreErrorBody e)) (\<lambda>_. answer_200 NoBody)))"

fun request_prog :: "acl_env \<Rightarrow> int \<Rightarrow> acl_request \<Rightarrow> acl_prog" where
  "request_prog env clk (CheckBatch req) = check_prog env clk req"
| "request_prog env clk (Grants q) = list_prog env clk q"
| "request_prog env clk (Grant req) = grant_prog env clk req"
| "request_prog env clk (Revoke req) = revoke_prog env req"
| "request_prog env clk (RevokeAll req) = revoke_all_prog env req"

text \<open>Run without interruption, with one reading of the clock for its calls, a program is the handler.\<close>

primrec run_prog :: "acl_prog \<Rightarrow> 's acl_store \<Rightarrow> int \<Rightarrow> 's \<Rightarrow> (unit, acl_response) outcome \<times> 's" where
  "run_prog (Reply r) S clk s = (r, s)"
| "run_prog (Call op k) S clk s = (case acl_apply S clk op s of (r, s) \<Rightarrow> run_prog (k r) S clk s)"
| "run_prog (Check t u ds now k) S clk s = (case check_batch S clk t u ds now s of (r, s) \<Rightarrow> run_prog (k r) S clk s)"
| "run_prog (List t u now k) S clk s = (case list_grants S clk t u now s of (r, s) \<Rightarrow> run_prog (k r) S clk s)"

lemma run_on_outcome:
  "run_prog (on_outcome ke k r) S clk s = on_result (r, s) (\<lambda>e s. run_prog (ke e) S clk s) (\<lambda>x s. run_prog (k x) S clk s)"
  by (cases r) simp_all

lemma serve_prog: "run_prog (request_prog env clk req) S clk' s = acl_serve env S clk clk' req s"
proof (cases req)
  case (CheckBatch r)
  then show ?thesis
    by (simp add: check_prog_def ACLCheckBatch_def run_on_outcome case_prod_beta split: option.split)
next
  case (Grants q)
  then show ?thesis by (simp add: list_prog_def ACLListGrants_def split: option.split)
next
  case (Grant r)
  then show ?thesis
    by (simp add: grant_prog_def ACLGrant_def run_on_outcome case_prod_beta Let_def split: option.split)
next
  case (Revoke r)
  then show ?thesis by (simp add: revoke_prog_def ACLRevoke_def run_on_outcome case_prod_beta split: option.split)
next
  case (RevokeAll r)
  then show ?thesis by (simp add: revoke_all_prog_def ACLRevokeAllUser_def run_on_outcome case_prod_beta split: option.split)
qed

section \<open>Interleavings\<close>

text \<open>
  A schedule says which request moves and what the clock shows then.  The trace are the operations done,
  with the request that did them.
\<close>

type_synonym acl_trace = "(nat \<times> int \<times> acl_op) list"

fun prog_step :: "'s acl_store \<Rightarrow> int \<Rightarrow> acl_prog \<Rightarrow> 's \<Rightarrow> acl_prog \<times> 's \<times> acl_op list" where
  "prog_step S clk (Reply r) s = (Reply r, s, [])"
| "prog_step S clk (Call op k) s = (case acl_apply S clk op s of (r, s) \<Rightarrow> (k r, s, [op]))"
| "prog_step S clk (Check t u ds now k) s = (case check_batch S clk t u ds now s of (r, s) \<Rightarrow> (k r, s, []))"
| "prog_step S clk (List t u now k) s = (case list_grants S clk t u now s of (r, s) \<Rightarrow> (k r, s, []))"

definition conc_step ::
  "'s acl_store \<Rightarrow> nat \<times> int \<Rightarrow> acl_prog list \<times> 's \<times> acl_trace \<Rightarrow> acl_prog list \<times> 's \<times> acl_trace" where
  "conc_step S = (\<lambda>(i, clk) (ps, s, tr).
     if i < length ps
     then (case prog_step S clk (ps ! i) s of (p, s, ops) \<Rightarrow> (ps[i := p], s, tr @ map (\<lambda>op. (i, clk, op)) ops))
     else (ps, s, tr))"

definition conc_run ::
  "'s acl_store \<Rightarrow> (nat \<times> int) list \<Rightarrow> acl_prog list \<times> 's \<times> acl_trace \<Rightarrow> acl_prog list \<times> 's \<times> acl_trace" where
  "conc_run S = fold (conc_step S)"

text \<open>The operations of one request in a trace, and the operations a program still has to do.\<close>

definition done_by :: "nat \<Rightarrow> acl_trace \<Rightarrow> acl_op list" where
  "done_by i tr = map (\<lambda>(j, clk, op). op) (filter (\<lambda>(j, clk, op). j = i) tr)"

primrec follows :: "acl_prog \<Rightarrow> acl_op list \<Rightarrow> bool" where
  "follows (Reply r) ops = (ops = [])"
| "follows (Call op k) ops =
     (case ops of
        [] \<Rightarrow> False
      | op' # rest \<Rightarrow> op' = op \<and> follows (k (case op_error op of None \<Rightarrow> Ok () | Some e \<Rightarrow> Fail e)) rest)"
| "follows (Check t u ds now k) ops = (ops = [] \<and> (\<forall>r. follows (k r) []))"
| "follows (List t u now k) ops = (ops = [] \<and> (\<forall>r. follows (k r) []))"

lemma done_by_append [simp]:
  "done_by i (tr @ tr') = done_by i tr @ done_by i tr'"
  "done_by i (map (\<lambda>op. (j, clk, op)) ops) = (if j = i then ops else [])"
  by (induction ops) (simp_all add: done_by_def o_def)

lemma follows_answer: "follows (on_outcome (\<lambda>e. Reply (f e)) (\<lambda>x. Reply (g x)) r) []"
  by (cases r) simp_all

lemma follows_request:
  assumes "uuids_ok env ident"
  shows "follows (request_prog env clk req) (request_ops env clk req)"
proof (cases req)
  case (Grant r)
  show ?thesis
  proof (cases r)
    case (Some q)
    have "op_error (OpSetVisibility (gr_tenant q) (gr_doc q) VisibilityRestricted) = None"
      if "is_uuid env (gr_tenant q)" "is_uuid env (gr_doc q)"
      using that uuids_okD [OF assms] by auto
    then show ?thesis using Grant Some
      by (auto simp: grant_prog_def Let_def follows_answer split: option.split)
  qed (simp add: Grant grant_prog_def)
qed (simp_all add: check_prog_def list_prog_def revoke_prog_def revoke_all_prog_def follows_answer split: option.split)

text \<open>What every program asks of the store: identifiers only, and the answer to a check is passed on.\<close>

primrec asks_well :: "(string \<Rightarrow> bool) \<Rightarrow> acl_prog \<Rightarrow> bool" where
  "asks_well good (Reply r) = True"
| "asks_well good (Call op k) = ((\<forall>i\<in>op_ids op. good i) \<and> (\<forall>r. asks_well good (k r)))"
| "asks_well good (Check t u ds now k) =
     ((\<forall>i\<in>{t, u} \<union> set ds. good i) \<and> (\<forall>x. k (Ok x) = Reply (Ok (200, AllowedDocs x))) \<and> (\<forall>r. asks_well good (k r)))"
| "asks_well good (List t u now k) = (good t \<and> good u \<and> (\<forall>r. asks_well good (k r)))"

lemma asks_answer: "asks_well good (on_outcome (\<lambda>e. Reply (f e)) (\<lambda>x. Reply (g x)) r)"
  by (cases r) simp_all

lemma asks_request: "asks_well (is_uuid env) (request_prog env clk req)"
proof (cases req)
  case (Grant r)
  have "asks_well (is_uuid env) (on_outcome (\<lambda>e. answer_400 (StoreErrorBody e)) (\<lambda>_. p) r)"
    if "asks_well (is_uuid env) p" for p and r :: "(acl_error, unit) outcome"
    using that by (cases r) simp_all
  then show ?thesis using Grant
    by (cases r) (auto simp: grant_prog_def Let_def asks_answer split: option.split)
qed (auto simp: check_prog_def list_prog_def revoke_prog_def revoke_all_prog_def asks_answer list_ex_iff split: option.split)

lemma asks_mono: "asks_well good p \<Longrightarrow> (\<And>i. good i \<Longrightarrow> good' i) \<Longrightarrow> asks_well good' p"
  by (induction p) auto

context acl_listing
begin

definition conc_inv ::
  "acl_env \<Rightarrow> (int \<times> acl_request) list \<Rightarrow> 'a \<Rightarrow> acl_prog list \<times> 'a \<times> acl_trace \<Rightarrow> bool" where
  "conc_inv env reqs s0 = (\<lambda>(ps, s, tr).
     inv s \<and> s = acl_run S (map snd tr) s0 \<and> (\<forall>(i, c, op)\<in>set tr. \<forall>x\<in>op_ids op. ident x) \<and>
     length ps = length reqs \<and>
     (\<forall>i<length reqs. asks_well (\<lambda>x. x \<noteq> [] \<and> ident x) (ps ! i) \<and>
       (\<exists>rest. follows (ps ! i) rest \<and> request_ops env (fst (reqs ! i)) (snd (reqs ! i)) = done_by i tr @ rest)))"

lemma conc_inv_start:
  assumes "uuids_ok env ident" and "inv s0"
  shows "conc_inv env reqs s0 (map (\<lambda>(clk, req). request_prog env clk req) reqs, s0, [])"
  using assms follows_request [OF assms(1)] asks_mono [OF asks_request uuids_okD [OF assms(1)]]
  by (auto simp: conc_inv_def done_by_def case_prod_beta)

lemma prog_step_inv:
  assumes "inv s" and "asks_well (\<lambda>x. x \<noteq> [] \<and> ident x) p" and "follows p rest"
    and "prog_step S clk p s = (p', s', ops)" and "\<And>op. sure op"
  shows "inv s' \<and> s' = acl_run S (map (Pair clk) ops) s \<and> (\<forall>op\<in>set ops. \<forall>x\<in>op_ids op. ident x) \<and>
    asks_well (\<lambda>x. x \<noteq> [] \<and> ident x) p' \<and> (\<exists>rest'. follows p' rest' \<and> rest = ops @ rest')"
proof (cases p)
  case (Call op k)
  obtain r1 s1 where a: "acl_apply S clk op s = (r1, s1)" by fastforce
  have ids: "\<forall>i\<in>op_ids op. ident i" using assms(2) Call by simp
  have "r1 = (case op_error op of None \<Rightarrow> Ok () | Some e \<Rightarrow> Fail e)"
    using apply_result [OF assms(1) ids a] assms(5) by (simp split: option.splits)
  then show ?thesis using apply_result [OF assms(1) ids a] assms(2-4) Call a ids
    by (cases rest) auto
next
  case (Check t u ds now k)
  then have ids: "\<forall>i\<in>{t, u} \<union> set ds. ident i" "t \<noteq> []" "u \<noteq> []" using assms(2) by auto
  show ?thesis using check_allowed [OF assms(1) ids] assms Check by auto
next
  case (List t u now k)
  then have ids: "ident t" "ident u" "t \<noteq> []" "u \<noteq> []" using assms(2) by auto
  obtain out s1 where l: "list_grants S clk t u now s = (out, s1)" by fastforce
  have "s1 = s" using list_active [OF assms(1) ids l] by simp
  then show ?thesis using l assms List by auto
qed (use assms in auto)

lemma conc_step_inv:
  assumes "conc_inv env reqs s0 g" and "\<And>op. sure op"
  shows "conc_inv env reqs s0 (conc_step S x g)"
proof -
  obtain ps s tr where g: "g = (ps, s, tr)" by (cases g)
  obtain i clk where x: "x = (i, clk)" by (cases x)
  show ?thesis
  proof (cases "i < length ps")
    case True
    obtain p s' ops where st: "prog_step S clk (ps ! i) s = (p, s', ops)" by (metis prod_cases3)
    from assms True obtain rest where i: "asks_well (\<lambda>x. x \<noteq> [] \<and> ident x) (ps ! i)" "follows (ps ! i) rest"
      "request_ops env (fst (reqs ! i)) (snd (reqs ! i)) = done_by i tr @ rest" "inv s"
      by (auto simp: g conc_inv_def)
    from prog_step_inv [OF i(4,1,2) st assms(2)] obtain rest' where
      p: "inv s'" "s' = acl_run S (map (Pair clk) ops) s" "\<forall>op\<in>set ops. \<forall>x\<in>op_ids op. ident x"
        "asks_well (\<lambda>x. x \<noteq> [] \<and> ident x) p" "follows p rest'" "rest = ops @ rest'" by blast
    let ?tr = "tr @ map (\<lambda>op. (i, clk, op)) ops"
    have "map snd ?tr = map snd tr @ map (Pair clk) ops" by (simp add: o_def)
    then have run: "s' = acl_run S (map snd ?tr) s0"
      using assms p(2) unfolding g conc_inv_def by (simp add: acl_run_append del: map_map)
    have "asks_well (\<lambda>x. x \<noteq> [] \<and> ident x) (ps[i := p] ! j) \<and> (\<exists>rest. follows (ps[i := p] ! j) rest \<and>
        request_ops env (fst (reqs ! j)) (snd (reqs ! j)) = done_by j ?tr @ rest)" if "j < length reqs" for j
      using assms that p(4-6) i(3) by (cases "j = i") (auto simp: g conc_inv_def)
    moreover have "length (ps[i := p]) = length reqs" and "\<forall>(i, c, op)\<in>set ?tr. \<forall>x\<in>op_ids op. ident x"
      using assms p(3) by (auto simp: g conc_inv_def)
    moreover have "conc_step S x g = (ps[i := p], s', ?tr)" using True by (simp add: g x conc_step_def st)
    ultimately show ?thesis using p(1) run by (simp add: conc_inv_def)
  qed (use assms in \<open>simp add: g x conc_step_def\<close>)
qed

lemma conc_run_inv: "conc_inv env reqs s0 g \<Longrightarrow> (\<And>op. sure op) \<Longrightarrow> conc_inv env reqs s0 (conc_run S sched g)"
  unfolding conc_run_def by (induction sched arbitrary: g) (simp_all add: conc_step_inv)

text \<open>The answer of a check that moves now.\<close>

lemma conc_check:
  assumes "conc_inv env reqs s0 (ps, s, tr)" and "inv s0" and "\<And>t d. public s0 t d" and "\<And>t d u now. \<not> active s0 t d u now"
    and "i < length reqs" and "ps ! i = Check t u ds now k"
    and "\<forall>(j, c, op)\<in>set tr. c \<le> (if now = 0 then clk else now)"
  shows "conc_step S (i, clk) (ps, s, tr) = (ps[i := Reply (Ok (200, AllowedDocs (Some
      [d \<leftarrow> ds. history_allows tick [op \<leftarrow> map (\<lambda>(j, c, op). op) tr. heeds op] t d u
        (if now = 0 then clk else now)])))], s, tr)"
proof -
  have s: "s = acl_run S (map snd tr) s0" and i: "i < length ps"
    and a: "asks_well (\<lambda>x. x \<noteq> [] \<and> ident x) (ps ! i)"
    using assms(1,5) by (auto simp: conc_inv_def)
  note a = a [unfolded assms(6)]
  have h: "\<forall>(c, op)\<in>set (map snd tr). (\<forall>i\<in>op_ids op. ident i) \<and> c \<le> (if now = 0 then clk else now)"
    using assms(1,7) by (fastforce simp: conc_inv_def)
  have ids: "\<forall>i\<in>{t, u} \<union> set ds. ident i" "t \<noteq> []" "u \<noteq> []" using a by auto
  have "map snd (map snd tr) = map (\<lambda>(j, c, op). op) tr" by auto
  then show ?thesis
    using check_history [OF assms(2-4) h ids] a i assms(6) by (simp add: conc_step_def s del: map_map)
qed

end

section \<open>Properties\<close>

text \<open>
  C6: ACL requests served concurrently, on the in-memory store.  Whatever requests run and however their
  store calls interleave, what they have done to the store is a run of single operations, the trace;
  each request has done its own operations, in its order, once, none of them when it fails
  validation, and all of them once it is answered.  A check that reaches the store at a time not before
  the trace is answered with exactly the documents the trace allows, be the requests behind it complete
  or not.
\<close>

theorem acl_concurrent:
  assumes "uuids_ok env (\<lambda>_. True)" and "lists_sets order"
    and "conc_run (mem_acl_store order) sched
      (map (\<lambda>(clk, req). request_prog env clk req) reqs, NewInMemoryStore, []) = (ps, s, tr)"
  shows "s = acl_run (mem_acl_store order) (map snd tr) NewInMemoryStore \<and> length ps = length reqs \<and>
    (\<forall>i<length reqs. \<exists>rest. request_ops env (fst (reqs ! i)) (snd (reqs ! i)) = done_by i tr @ rest \<and>
       ((\<exists>r. ps ! i = Reply r) \<longrightarrow> rest = [])) \<and>
    (\<forall>i<length reqs. \<forall>t u ds now k clk. ps ! i = Check t u ds now k \<longrightarrow>
       (\<forall>(j, c, op)\<in>set tr. c \<le> (if now = 0 then clk else now)) \<longrightarrow>
       conc_step (mem_acl_store order) (i, clk) (ps, s, tr) =
         (ps[i := Reply (Ok (200, AllowedDocs (Some [d \<leftarrow> ds. history_allows id
            (map (\<lambda>(j, c, op). op) tr) t d u (if now = 0 then clk else now)])))], s, tr))"
proof -
  note L = mem_listing [OF assms(2)]
  have inv: "acl_listing.conc_inv (mem_acl_store order) mem_inv (\<lambda>_. True) env reqs NewInMemoryStore (ps, s, tr)"
    unfolding assms(3) [symmetric]
    by (rule acl_listing.conc_run_inv [OF L acl_listing.conc_inv_start [OF L assms(1) mem_init(1)] TrueI])
  note facts = inv [unfolded acl_listing.conc_inv_def [OF L] split_conv]
  have ops: "\<exists>rest. request_ops env (fst (reqs ! i)) (snd (reqs ! i)) = done_by i tr @ rest \<and>
      ((\<exists>r. ps ! i = Reply r) \<longrightarrow> rest = [])" if "i < length reqs" for i
    using facts that by (metis follows.simps(1))
  have "conc_step (mem_acl_store order) (i, clk) (ps, s, tr) =
      (ps[i := Reply (Ok (200, AllowedDocs (Some [d \<leftarrow> ds. history_allows id
         (map (\<lambda>(j, c, op). op) tr) t d u (if now = 0 then clk else now)])))], s, tr)"
    if "i < length reqs" "ps ! i = Check t u ds now k" "\<forall>(j, c, op)\<in>set tr. c \<le> (if now = 0 then clk else now)"
    for i t u ds now k clk
    using acl_listing.conc_check [OF L inv _ _ _ that] by simp
  with ops show ?thesis using facts by (intro conjI allI impI) simp_all
qed

theorem acl_concurrent_witness:
  "fst (conc_run (mem_acl_store key_order) [(0, 1), (1, 2)]
     (map (\<lambda>(clk, req). request_prog demo_env clk req)
       [(1, Grant (Some \<lparr>gr_tenant = ''t1'', gr_doc = ''d1'', gr_user = ''u1'', gr_valid_from = [],
           gr_valid_to = [], gr_restricted = Some True\<rparr>)),
        (2, CheckBatch (Some \<lparr>cb_tenant = ''t1'', cb_user = ''u1'', cb_docs = [''d1''], cb_now = []\<rparr>))],
      NewInMemoryStore, [])) ! 1 = Reply (Ok (200, AllowedDocs (Some [])))"
proof -
  let ?reqs = "[(1, Grant (Some \<lparr>gr_tenant = ''t1'', gr_doc = ''d1'', gr_user = ''u1'', gr_valid_from = [],
      gr_valid_to = [], gr_restricted = Some True\<rparr>)),
    (2, CheckBatch (Some \<lparr>cb_tenant = ''t1'', cb_user = ''u1'', cb_docs = [''d1''], cb_now = []\<rparr>))]"
  let ?S = "mem_acl_store key_order"
  let ?g = "(map (\<lambda>(clk, req). request_prog demo_env clk req) ?reqs, NewInMemoryStore, [])"
  obtain ps s tr where one: "conc_run ?S [(0, 1)] ?g = (ps, s, tr)" by (metis prod_cases3)
  have p: "ps ! 1 = check_prog demo_env 2 (Some \<lparr>cb_tenant = ''t1'', cb_user = ''u1'', cb_docs = [''d1''], cb_now = []\<rparr>)"
    "tr = [(0, 1, OpSetVisibility ''t1'' ''d1'' VisibilityRestricted)]"
    using one by (auto simp: conc_run_def conc_step_def grant_prog_def demo_env_def time_field_def Let_def split: prod.splits)
  have "\<exists>k. ps ! 1 = Check ''t1'' ''u1'' [''d1''] 2 k"
    unfolding p(1) by (simp add: check_prog_def demo_env_def time_field_def)
  then obtain k where k: "ps ! 1 = Check ''t1'' ''u1'' [''d1''] 2 k" ..
  have u: "uuids_ok demo_env (\<lambda>_. True)" by (simp add: uuids_ok_def demo_env_def)
  note C = acl_concurrent [OF u key_order one]
  have len: "length ps = 2" using C [THEN conjunct2, THEN conjunct1] by simp
  have step: "conc_step ?S (1, 2) (ps, s, tr) = (ps[1 := Reply (Ok (200, AllowedDocs (Some [])))], s, tr)"
    using C [THEN conjunct2, THEN conjunct2, THEN conjunct2, rule_format, OF _ k, of 2]
    by (simp add: p(2) history_allows_def history_public_def history_grant_def)
  have "conc_run ?S [(0, 1), (1, 2)] ?g = conc_step ?S (1, 2) (conc_run ?S [(0, 1)] ?g)"
    by (simp add: conc_run_def)
  also have "fst \<dots> ! 1 = Reply (Ok (200, AllowedDocs (Some [])))"
    unfolding one step using len by simp
  finally show ?thesis .
qed

end
