(* ===== verification/AclRedisConcurrent.thy ===== *)
theory AclRedisConcurrent
  imports AclRedis
begin

text \<open>
  The operations of \<open>redis_store.go\<close> running concurrently on one Redis server, as replicas of the service
  or its handlers do.  The server runs one command at a time, but a pipeline is no transaction: between
  two commands of an operation those of any other can run.  Each operation becomes a program whose
  steps are its commands.
\<close>

section \<open>Operations as programs\<close>

datatype redis_prog =
    Done "(acl_error, unit) outcome"
  | Cmd redis_cmd "redis_reply \<Rightarrow> redis_prog"

fun piped :: "redis_cmd list \<Rightarrow> (redis_reply list \<Rightarrow> redis_prog) \<Rightarrow> redis_prog" where
  "piped [] k = k []"
| "piped (c # cs) k = Cmd c (\<lambda>r. piped cs (\<lambda>rs. k (r # rs)))"

definition visibility_prog :: "string \<Rightarrow> string \<Rightarrow> string \<Rightarrow> string \<Rightarrow> redis_prog" where
  "visibility_prog prefix tenantID docID v =
     (if v \<noteq> VisibilityPublic \<and> v \<noteq> VisibilityRestricted then Done (Fail ErrInvalidVisibility)
      else if tenantID = [] \<or> docID = [] then Done (Fail ErrTenantDocRequired)
      else
        let key = keyVisibility prefix tenantID docID in
        if v = VisibilityPublic
        then Cmd (Del [key]) (\<lambda>r. Done (store_result (reply_err r)))
        else Cmd (Set key v) (\<lambda>r. Done (store_result (reply_err r))))"

text \<open>The pipeline of a grant, and if it had no error the best-effort cleanup.\<close>

definition exec_then_cleanup :: "redis_cmd list \<Rightarrow> redis_cmd list \<Rightarrow> redis_prog" where
  "exec_then_cleanup pipe cleanup =
     piped pipe (\<lambda>rs.
       case first_err rs of
         Some e \<Rightarrow> Done (Fail (StoreErr e))
       | None \<Rightarrow> piped cleanup (\<lambda>_. Done (Ok ())))"

definition grant_redis_prog ::
  "string \<Rightarrow> int \<Rightarrow> string \<Rightarrow> string \<Rightarrow> string \<Rightarrow> int \<Rightarrow> int option \<Rightarrow> redis_prog" where
  "grant_redis_prog prefix clk tenantID docID userID validFrom validTo =
     (if tenantID = [] \<or> docID = [] \<or> userID = [] then Done (Fail ErrTenantDocUserRequired)
      else if validFrom \<noteq> 0 \<and> validTo \<noteq> None \<and> the validTo \<noteq> 0 \<and> the validTo < validFrom
      then Done (Fail ErrValidToBeforeFrom)
      else
        let docPermKey = keyPermanent prefix tenantID docID;
            docExpKey = keyExpiring prefix tenantID docID;
            userPermKey = keyUserPermanent prefix tenantID userID;
            userExpKey = keyUserExpiring prefix tenantID userID;
            pipe =
              (case validTo of
                 None \<Rightarrow>
                   [SAdd docPermKey userID, SAdd userPermKey docID,
                    ZRem docExpKey userID, ZRem userExpKey docID]
               | Some e \<Rightarrow>
                   [ZRemRangeUpTo docExpKey (unix clk), ZRemRangeUpTo userExpKey (unix clk),
                    ZAdd docExpKey (unix e) userID, ZAdd userExpKey (unix e) docID,
                    SRem docPermKey userID, SRem userPermKey docID]);
            cleanup =
              (case validTo of
                 None \<Rightarrow> [ZRemDelIfEmpty docExpKey userID, ZRemDelIfEmpty userExpKey docID]
               | Some e \<Rightarrow> [SRemDelIfEmpty docPermKey userID, SRemDelIfEmpty userPermKey docID])
        in exec_then_cleanup pipe cleanup)"

definition revoke_redis_prog :: "string \<Rightarrow> string \<Rightarrow> string \<Rightarrow> string \<Rightarrow> redis_prog" where
  "revoke_redis_prog prefix tenantID docID userID =
     (if tenantID = [] \<or> docID = [] \<or> userID = [] then Done (Fail ErrTenantDocUserRequired)
      else
        piped
          [SRemDelIfEmpty (keyPermanent prefix tenantID docID) userID,
           ZRemDelIfEmpty (keyExpiring prefix tenantID docID) userID,
           SRemDelIfEmpty (keyUserPermanent prefix tenantID userID) docID,
           ZRemDelIfEmpty (keyUserExpiring prefix tenantID userID) docID]
          (\<lambda>rs. Done (store_result (first_err rs))))"

definition revoke_user_prog :: "string \<Rightarrow> (string fset \<Rightarrow> string list) \<Rightarrow> string \<Rightarrow> string \<Rightarrow> redis_prog" where
  "revoke_user_prog prefix order tenantID userID =
     (if tenantID = [] \<or> userID = [] then Done (Fail ErrTenantUserRequired)
      else
        let userPermKey = keyUserPermanent prefix tenantID userID;
            userExpKey = keyUserExpiring prefix tenantID userID in
        Cmd (SMembers userPermKey) (\<lambda>r.
          case list_result r of
            Inl e \<Rightarrow> Done (Fail (StoreErr e))
          | Inr permDocs \<Rightarrow>
              Cmd (ZRangeAll userExpKey) (\<lambda>r.
                case list_result r of
                  Inl e \<Rightarrow> Done (Fail (StoreErr e))
                | Inr expDocs \<Rightarrow>
                    let seen = order (ffilter (\<lambda>d. d \<noteq> []) (fset_of_list (permDocs @ expDocs)));
                        pipe = concat (map (\<lambda>docID.
                            [SRemDelIfEmpty (keyPermanent prefix tenantID docID) userID,
                             ZRemDelIfEmpty (keyExpiring prefix tenantID docID) userID]) seen) @
                          [Del [userPermKey, userExpKey]]
                    in piped pipe (\<lambda>rs. Done (store_result (first_err rs))))))"

fun op_prog :: "string \<Rightarrow> (string fset \<Rightarrow> string list) \<Rightarrow> int \<Rightarrow> acl_op \<Rightarrow> redis_prog" where
  "op_prog p order clk (OpSetVisibility t d v) = visibility_prog p t d v"
| "op_prog p order clk (OpGrant t d u vf vt) = grant_redis_prog p clk t d u vf vt"
| "op_prog p order clk (OpRevoke t d u) = revoke_redis_prog p t d u"
| "op_prog p order clk (OpRevokeAll t u) = revoke_user_prog p order t u"

text \<open>Run without interruption, a program is its operation.\<close>

primrec run_redis_prog :: "'r redis_exec \<Rightarrow> redis_prog \<Rightarrow> 'r \<Rightarrow> (acl_error, unit) outcome \<times> 'r" where
  "run_redis_prog exec (Done r) s = (r, s)"
| "run_redis_prog exec (Cmd c k) s = (case exec c s of (r, s) \<Rightarrow> run_redis_prog exec (k r) s)"

lemma run_piped:
  "run_redis_prog exec (piped cs k) s = (case pipeline exec cs s of (rs, s) \<Rightarrow> run_redis_prog exec (k rs) s)"
  by (induction cs k arbitrary: s rule: piped.induct) (simp_all split: prod.splits)

lemma run_op_prog: "run_redis_prog exec (op_prog p order clk op) s = acl_apply (redis_acl_store exec p order) clk op s"
proof (cases op)
  case (OpSetVisibility t d v)
  then show ?thesis by (simp add: visibility_prog_def redis_SetVisibility_def Let_def split: prod.splits)
next
  case (OpGrant t d u vf vt)
  then show ?thesis
    by (simp add: grant_redis_prog_def exec_then_cleanup_def redis_Grant_def run_piped Let_def case_prod_beta
        split: option.split)
next
  case (OpRevoke t d u)
  then show ?thesis by (simp add: revoke_redis_prog_def redis_Revoke_def run_piped case_prod_beta)
next
  case (OpRevokeAll t u)
  then show ?thesis
    by (simp add: revoke_user_prog_def redis_RevokeAllUser_def run_piped Let_def case_prod_beta split: sum.split)
qed

section \<open>Interleavings\<close>

text \<open>A schedule says whose command runs next.\<close>

fun redis_prog_step :: "'r redis_exec \<Rightarrow> redis_prog \<Rightarrow> 'r \<Rightarrow> redis_prog \<times> 'r" where
  "redis_prog_step exec (Done r) s = (Done r, s)"
| "redis_prog_step exec (Cmd c k) s = (case exec c s of (r, s) \<Rightarrow> (k r, s))"

definition redis_step :: "'r redis_exec \<Rightarrow> nat \<Rightarrow> redis_prog list \<times> 'r \<Rightarrow> redis_prog list \<times> 'r" where
  "redis_step exec i = (\<lambda>(ps, s).
     if i < length ps then (case redis_prog_step exec (ps ! i) s of (q, s) \<Rightarrow> (ps[i := q], s)) else (ps, s))"

definition redis_conc :: "'r redis_exec \<Rightarrow> nat list \<Rightarrow> redis_prog list \<times> 'r \<Rightarrow> redis_prog list \<times> 'r" where
  "redis_conc exec = fold (redis_step exec)"

lemma redis_conc_append: "redis_conc exec (xs @ ys) g = redis_conc exec ys (redis_conc exec xs g)"
  by (simp add: redis_conc_def)

lemma redis_conc_piped:
  assumes "i < length ps" and "ps ! i = piped cs k"
  shows "redis_conc exec (replicate (length cs) i) (ps, s) =
    (case pipeline exec cs s of (rs, s) \<Rightarrow> (ps[i := k rs], s))"
  using assms
proof (induction cs k arbitrary: ps s rule: piped.induct)
  case (1 k)
  have "ps[i := k []] = ps" using 1 by (metis list_update_id piped.simps(1))
  then show ?case by (simp add: redis_conc_def)
next
  case (2 c cs k)
  obtain r s1 where e: "exec c s = (r, s1)" by fastforce
  let ?ps = "ps[i := piped cs (\<lambda>rs. k (r # rs))]"
  have "redis_step exec i (ps, s) = (?ps, s1)" using 2(2,3) by (simp add: redis_step_def e)
  moreover have "redis_conc exec (replicate (length cs) i) (?ps, s1) =
      (case pipeline exec cs s1 of (rs, s) \<Rightarrow> (?ps[i := k (r # rs)], s))"
    using 2(2) by (intro 2(1)) simp_all
  ultimately show ?case by (simp add: redis_conc_def e split: prod.splits)
qed

section \<open>What a command of an operation may do\<close>

definition granted_until :: "acl_op set \<Rightarrow> string \<Rightarrow> string \<Rightarrow> string \<Rightarrow> int \<Rightarrow> bool" where
  "granted_until ops t d u sc \<longleftrightarrow> (\<exists>vf e. OpGrant t d u vf (Some e) \<in> ops \<and> sc = unix e)"

lemma granted_untilI: "OpGrant t d u vf (Some e) \<in> ops \<Longrightarrow> granted_until ops t d u (unix e)"
  by (auto simp: granted_until_def)

definition may_run :: "string \<Rightarrow> acl_op set \<Rightarrow> redis_cmd \<Rightarrow> bool" where
  "may_run p ops c \<longleftrightarrow> well_kinded c \<and>
     (\<forall>t d u. no_colon t \<longrightarrow> c = SAdd (keyUserPermanent p t u) d \<longrightarrow> (\<exists>vf. OpGrant t d u vf None \<in> ops)) \<and>
     (\<forall>t d u sc. no_colon t \<longrightarrow> c = ZAdd (keyUserExpiring p t u) sc d \<longrightarrow>
        granted_until ops t d u sc) \<and>
     (\<forall>t d ks. no_colon t \<longrightarrow> c = Del ks \<longrightarrow> keyVisibility p t d \<in> set ks \<longrightarrow>
        OpSetVisibility t d VisibilityPublic \<in> ops) \<and>
     (\<forall>k x. c = Set k x \<longrightarrow> x = VisibilityRestricted)"

primrec may_do :: "string \<Rightarrow> acl_op set \<Rightarrow> redis_prog \<Rightarrow> bool" where
  "may_do p ops (Done r) = True"
| "may_do p ops (Cmd c k) = (may_run p ops c \<and> (\<forall>r. may_do p ops (k r)))"

lemma may_do_piped: "\<forall>c\<in>set cs. may_run p ops c \<Longrightarrow> \<forall>rs. may_do p ops (k rs) \<Longrightarrow> may_do p ops (piped cs k)"
  by (induction cs k rule: piped.induct) simp_all

lemma may_do_cleanup:
  assumes "\<forall>c\<in>set (cs @ ds). may_run p ops c"
  shows "may_do p ops (exec_then_cleanup cs ds)"
  using assms by (auto simp: exec_then_cleanup_def split: option.split intro!: may_do_piped)

lemma op_may:
  assumes "op \<in> ops" and "\<forall>i\<in>op_ids op. no_colon i"
  shows "may_do p ops (op_prog p order clk op)"
proof (cases op)
  case (OpSetVisibility t d v)
  have "may_run p ops (Del [keyVisibility p t d])" if "v = VisibilityPublic"
    using assms OpSetVisibility that by (auto simp: may_run_def)
  moreover have "may_run p ops (Set (keyVisibility p t d) VisibilityRestricted)" by (simp add: may_run_def)
  ultimately show ?thesis by (auto simp: OpSetVisibility visibility_prog_def Let_def)
next
  case (OpGrant t d u vf vt)
  have "may_run p ops c" if "c \<in> set (op_cmds p clk [] op)" for c
  proof (cases vt)
    case None
    then show ?thesis using that assms OpGrant by (auto simp: may_run_def)
  next
    case (Some e)
    then have "granted_until ops t d u (unix e)" using assms(1) OpGrant by (auto intro: granted_untilI)
    then show ?thesis using that assms(2) OpGrant Some by (auto simp: may_run_def)
  qed
  then have all: "\<forall>c\<in>set (op_cmds p clk [] op). may_run p ops c" by blast
  show ?thesis
  proof (cases vt)
    case None
    have "may_do p ops (exec_then_cleanup
        [SAdd (keyPermanent p t d) u, SAdd (keyUserPermanent p t u) d, ZRem (keyExpiring p t d) u, ZRem (keyUserExpiring p t u) d]
        [ZRemDelIfEmpty (keyExpiring p t d) u, ZRemDelIfEmpty (keyUserExpiring p t u) d])"
      using all by (intro may_do_cleanup) (simp add: OpGrant None)
    then show ?thesis by (simp add: OpGrant None grant_redis_prog_def Let_def)
  next
    case (Some e)
    have "may_do p ops (exec_then_cleanup
        [ZRemRangeUpTo (keyExpiring p t d) (unix clk), ZRemRangeUpTo (keyUserExpiring p t u) (unix clk),
         ZAdd (keyExpiring p t d) (unix e) u, ZAdd (keyUserExpiring p t u) (unix e) d,
         SRem (keyPermanent p t d) u, SRem (keyUserPermanent p t u) d]
        [SRemDelIfEmpty (keyPermanent p t d) u, SRemDelIfEmpty (keyUserPermanent p t u) d])"
      using all by (intro may_do_cleanup) (simp add: OpGrant Some)
    then show ?thesis by (simp add: OpGrant Some grant_redis_prog_def Let_def)
  qed
next
  case (OpRevoke t d u)
  have "may_run p ops c" if "c \<in> set (op_cmds p clk [] op)" for c
    using that OpRevoke by (auto simp: may_run_def)
  then have "may_do p ops (piped (op_cmds p clk [] op) (\<lambda>rs. Done (store_result (first_err rs))))"
    by (intro may_do_piped) simp_all
  then show ?thesis by (simp add: OpRevoke revoke_redis_prog_def del: piped.simps)
next
  case (OpRevokeAll t u)
  have "may_run p ops c" if "c \<in> set (op_cmds p clk docs op)" for c docs
    using that OpRevokeAll by (auto simp: may_run_def revoke_cmds_def)
  then have writes: "may_do p ops (piped (op_cmds p clk docs op) (\<lambda>rs. Done (store_result (first_err rs))))" for docs
    by (intro may_do_piped) simp_all
  have "may_run p ops (SMembers (keyUserPermanent p t u))" "may_run p ops (ZRangeAll (keyUserExpiring p t u))"
    by (simp_all add: may_run_def)
  with writes show ?thesis
    by (simp add: OpRevokeAll revoke_user_prog_def revoke_cmds_def Let_def split: sum.split del: piped.simps)
qed

text \<open>What \<open>ops\<close> can have changed since the data were \<open>v0\<close>: nothing else.\<close>

definition only_by :: "string \<Rightarrow> acl_op set \<Rightarrow> redis_view \<Rightarrow> redis_view \<Rightarrow> bool" where
  "only_by p ops v0 v \<longleftrightarrow> kinded_view v \<and>
     (\<forall>t d u. no_colon t \<longrightarrow> d \<in> rv_set v (keyUserPermanent p t u) \<longrightarrow>
        d \<in> rv_set v0 (keyUserPermanent p t u) \<or> (\<exists>vf. OpGrant t d u vf None \<in> ops)) \<and>
     (\<forall>t d u sc. no_colon t \<longrightarrow> rv_zset v (keyUserExpiring p t u) d = Some sc \<longrightarrow>
        rv_zset v0 (keyUserExpiring p t u) d = Some sc \<or> granted_until ops t d u sc) \<and>
     (\<forall>t d. no_colon t \<longrightarrow> redis_public p v t d \<longrightarrow>
        redis_public p v0 t d \<or> OpSetVisibility t d VisibilityPublic \<in> ops)"

lemma only_by_start: "kinded_view v \<Longrightarrow> only_by p ops v v"
  by (simp add: only_by_def)

lemma effect_members:
  "m \<in> rv_set (effect c v) k \<Longrightarrow> m \<in> rv_set v k \<or> c = SAdd k m"
  "rv_zset (effect c v) k m = Some sc \<Longrightarrow> rv_zset v k m = Some sc \<or> c = ZAdd k sc m"
  by (cases c; auto simp: script_defs effect.simps(8,9) Let_def split: if_split_asm option.split_asm)+

lemma effect_visibility:
  assumes "may_run p ops c" and "no_colon t" and "redis_public p (effect c v) t d"
  shows "redis_public p v t d \<or> OpSetVisibility t d VisibilityPublic \<in> ops"
proof (cases c)
  case (SRemDelIfEmpty k m)
  then have "keyVisibility p t d \<noteq> k" using assms(1) by (auto simp: may_run_def)
  then show ?thesis using assms(3) SRemDelIfEmpty by (simp add: redis_public_def)
next
  case (ZRemDelIfEmpty k m)
  then have "keyVisibility p t d \<noteq> k" using assms(1) by (auto simp: may_run_def)
  then show ?thesis using assms(3) ZRemDelIfEmpty by (simp add: redis_public_def)
next
  case (Del ks)
  then show ?thesis using assms by (auto simp: may_run_def redis_public_def split: if_split_asm)
qed (use assms in \<open>auto simp: may_run_def redis_public_def split: if_split_asm\<close>)

lemma only_by_effect:
  assumes "only_by p ops v0 v" and "may_run p ops c"
  shows "only_by p ops v0 (effect c v)"
proof -
  have "kinded_view (effect c v)" using assms kinded_view_effect by (auto simp: only_by_def may_run_def)
  moreover have "d \<in> rv_set v0 (keyUserPermanent p t u) \<or> (\<exists>vf. OpGrant t d u vf None \<in> ops)"
    if "no_colon t" "d \<in> rv_set (effect c v) (keyUserPermanent p t u)" for t d u
    using effect_members(1) [OF that(2)] that(1) assms
    by (elim disjE) (simp add: only_by_def, simp add: may_run_def)
  moreover have "rv_zset v0 (keyUserExpiring p t u) d = Some sc \<or> granted_until ops t d u sc"
    if "no_colon t" "rv_zset (effect c v) (keyUserExpiring p t u) d = Some sc" for t d u sc
    using effect_members(2) [OF that(2)] that(1) assms
    by (elim disjE) (simp add: only_by_def, simp add: may_run_def)
  moreover have "redis_public p v0 t d \<or> OpSetVisibility t d VisibilityPublic \<in> ops"
    if "no_colon t" "redis_public p (effect c v) t d" for t d
    using effect_visibility [OF assms(2) that] that(1) assms(1) unfolding only_by_def by blast
  ultimately show ?thesis unfolding only_by_def by (intro conjI allI impI)
qed

lemma redis_step_only_by:
  assumes "redis_laws exec view" and "only_by p ops v0 (view s)" and "\<forall>q\<in>set ps. may_do p ops q"
    and "redis_step exec i (ps, s) = (ps', s')"
  shows "only_by p ops v0 (view s') \<and> (\<forall>q\<in>set ps'. may_do p ops q)"
proof (cases "\<exists>c k. i < length ps \<and> ps ! i = Cmd c k")
  case True
  then obtain c k where i: "i < length ps" "ps ! i = Cmd c k" by blast
  then have may: "may_run p ops c" "\<forall>r. may_do p ops (k r)" using assms(3) nth_mem [of i ps] by (metis may_do.simps(2))+
  obtain r s1 where e: "exec c s = (r, s1)" by fastforce
  have "view s1 = effect c (view s)"
    using exec_effect [OF assms(1) _ _ e] may(1) assms(2)
    by (simp add: may_run_def only_by_def kinded_viewD)
  then show ?thesis using assms(2-4) only_by_effect [OF assms(2) may(1)] may(2) i e
    by (auto simp: redis_step_def dest!: subsetD [OF set_update_subset_insert])
next
  case False
  then have "ps' = ps \<and> s' = s"
    using assms(4) list_update_id [of ps i] by (cases "ps ! i") (auto simp: redis_step_def split: if_split_asm)
  then show ?thesis using assms(2,3) by simp
qed

lemma redis_conc_only_by:
  assumes "redis_laws exec view" and "only_by p ops v0 (view s)" and "\<forall>q\<in>set ps. may_do p ops q"
    and "redis_conc exec sched (ps, s) = (ps', s')"
  shows "only_by p ops v0 (view s')"
  using assms(2-4)
proof (induction sched arbitrary: ps s)
  case (Cons i sched)
  obtain ps1 s1 where st: "redis_step exec i (ps, s) = (ps1, s1)" by fastforce
  from redis_step_only_by [OF assms(1) Cons.prems(1,2) st] show ?case
    using Cons.IH [of s1 ps1] Cons.prems(3) by (simp add: redis_conc_def st)
qed (simp add: redis_conc_def)

section \<open>Two grants that cancel each other\<close>

lemma redis_conc_cleanup:
  assumes "i < length ps" and "ps ! i = exec_then_cleanup cs ds" and "pipeline exec cs s = (rs, s1)" and "first_err rs = None"
  shows "redis_conc exec (replicate (length cs) i) (ps, s) = (ps[i := piped ds (\<lambda>_. Done (Ok ()))], s1)"
  using redis_conc_piped [OF assms(1) assms(2) [unfolded exec_then_cleanup_def], of exec s] assms(3,4) by simp

lemma grants_lost:
  assumes "redis_laws exec view" and "kinded_view (view s0)" and "t \<noteq> []" and "d \<noteq> []" and "u \<noteq> []" and "no_colon t"
  shows "\<exists>sched s. redis_conc exec sched
      ([op_prog p order clk (OpGrant t d u 0 None), op_prog p order clk' (OpGrant t d u 0 (Some e))], s0) =
        ([Done (Ok ()), Done (Ok ())], s) \<and> (\<forall>now. \<not> redis_active p (view s) t d u now)"
proof -
  let ?dp = "keyPermanent p t d" and ?dx = "keyExpiring p t d"
  let ?up = "keyUserPermanent p t u" and ?ux = "keyUserExpiring p t u"
  let ?A1 = "[SAdd ?dp u, SAdd ?up d, ZRem ?dx u, ZRem ?ux d]" and ?C1 = "[ZRemDelIfEmpty ?dx u, ZRemDelIfEmpty ?ux d]"
  let ?A2 = "[ZRemRangeUpTo ?dx (unix clk'), ZRemRangeUpTo ?ux (unix clk'), ZAdd ?dx (unix e) u, ZAdd ?ux (unix e) d,
    SRem ?dp u, SRem ?up d]" and ?C2 = "[SRemDelIfEmpty ?dp u, SRemDelIfEmpty ?up d]"
  let ?P1 = "exec_then_cleanup ?A1 ?C1" and ?P2 = "exec_then_cleanup ?A2 ?C2" and ?ok = "\<lambda>_. Done (Ok ())"
  have P: "op_prog p order clk (OpGrant t d u 0 None) = ?P1" "op_prog p order clk' (OpGrant t d u 0 (Some e)) = ?P2"
    using assms(3-5) by (simp_all add: grant_redis_prog_def Let_def)
  obtain r1 s1 where e1: "pipeline exec ?A1 s0 = (r1, s1)" by fastforce
  have k1: "\<forall>c\<in>set ?A1. well_kinded c \<and> \<not> read_only c" by simp
  note w1 = kinded_writes [OF assms(1) k1 assms(2) e1]
  obtain r2 s2 where e2: "pipeline exec ?A2 s1 = (r2, s2)" by fastforce
  have k2: "\<forall>c\<in>set ?A2. well_kinded c \<and> \<not> read_only c" by simp
  note w2 = kinded_writes [OF assms(1) k2 w1 [THEN conjunct2, THEN conjunct1] e2]
  obtain r3 s3 where e3: "pipeline exec ?C2 s2 = (r3, s3)" by fastforce
  have k3: "\<forall>c\<in>set ?C2. well_kinded c \<and> \<not> read_only c" by simp
  note w3 = kinded_writes [OF assms(1) k3 w2 [THEN conjunct2, THEN conjunct1] e3]
  obtain r4 s4 where e4: "pipeline exec ?C1 s3 = (r4, s4)" by fastforce
  have k4: "\<forall>c\<in>set ?C1. well_kinded c \<and> \<not> read_only c" by simp
  note w4 = kinded_writes [OF assms(1) k4 w3 [THEN conjunct2, THEN conjunct1] e4]
  have "redis_conc exec (replicate (length ?A1) 0) ([?P1, ?P2], s0) = ([piped ?C1 ?ok, ?P2], s1)"
    using redis_conc_cleanup [of 0 "[?P1, ?P2]" ?A1 ?C1, OF _ _ e1 w1 [THEN conjunct2, THEN conjunct2]] by simp
  moreover have "redis_conc exec (replicate (length ?A2) 1) ([piped ?C1 ?ok, ?P2], s1) = ([piped ?C1 ?ok, piped ?C2 ?ok], s2)"
    using redis_conc_cleanup [of 1 "[piped ?C1 ?ok, ?P2]" ?A2 ?C2, OF _ _ e2 w2 [THEN conjunct2, THEN conjunct2]]
    by (simp del: piped.simps)
  moreover have "redis_conc exec (replicate (length ?C2) 1) ([piped ?C1 ?ok, piped ?C2 ?ok], s2) = ([piped ?C1 ?ok, Done (Ok ())], s3)"
    using redis_conc_piped [of 1 "[piped ?C1 ?ok, piped ?C2 ?ok]" ?C2 ?ok exec s2] e3 by (simp del: piped.simps)
  moreover have "redis_conc exec (replicate (length ?C1) 0) ([piped ?C1 ?ok, Done (Ok ())], s3) = ([Done (Ok ()), Done (Ok ())], s4)"
    using redis_conc_piped [of 0 "[piped ?C1 ?ok, Done (Ok ())]" ?C1 ?ok exec s3] e4 by (simp del: piped.simps)
  ultimately have "redis_conc exec (replicate (length ?A1) 0 @ replicate (length ?A2) 1 @ replicate (length ?C2) 1 @
      replicate (length ?C1) 0) ([?P1, ?P2], s0) = ([Done (Ok ()), Done (Ok ())], s4)"
    by (simp only: redis_conc_append)
  moreover have "\<not> redis_active p (view s4) t d u now" for now
  proof -
    have "view s4 = fold effect (?A1 @ ?A2 @ ?C2 @ ?C1) (view s0)" using w1 w2 w3 w4 by (simp only: fold_append comp_apply)
    then have "d \<notin> rv_set (view s4) ?up \<and> rv_zset (view s4) ?ux d = None" using assms(2,6)
      by (simp add: kinded_view_def)
    then show ?thesis by (simp add: redis_active_def)
  qed
  ultimately show ?thesis unfolding P by blast
qed

section \<open>Properties\<close>



end
