(* ===== verification/AclStats.thy ===== *)
theory AclStats
  imports AclRedis GoFlag GoStrings "HOL-Library.Sublist"
begin

text \<open>
  \<open>services/acl/biz/handler/stats.go\<close>: the statistics endpoint.  The Redis client is the record
  \<open>stats_client\<close> of the commands used, over a server state of its own (\<open>SCAN\<close> promises little: any
  page of keys and any next cursor); the clock is a function of how often it was read.  \<open>float64\<close> is
  the record \<open>float_ops\<close> of the operations used, since the estimates are reported and nothing else.
\<close>

section \<open>Parsing\<close>

text \<open>\<open>strings.Cut(line, ":")\<close>\<close>

definition Cut :: "char \<Rightarrow> string \<Rightarrow> (string \<times> string) option" where
  "Cut c s = (case dropWhile (\<lambda>x. x \<noteq> c) s of [] \<Rightarrow> None | _ # v \<Rightarrow> Some (takeWhile (\<lambda>x. x \<noteq> c) s, v))"

fun parse_lines :: "string list \<Rightarrow> (string \<rightharpoonup> string) \<Rightarrow> (string \<rightharpoonup> string)" where
  "parse_lines [] m = m"
| "parse_lines (line # rest) m =
     (let line = TrimSpace line in
      if line = [] \<or> prefix ''#'' line then parse_lines rest m
      else
        (case Cut (CHR '':'') line of
           None \<Rightarrow> parse_lines rest m
         | Some (k, v) \<Rightarrow>
             let k = TrimSpace k; v = TrimSpace v in
             parse_lines rest (if k \<noteq> [] then m(k \<mapsto> v) else m)))"

definition parseRedisInfo :: "string \<Rightarrow> (string \<rightharpoonup> string)" where
  "parseRedisInfo info = parse_lines (Split (CHR 0x0A) info) Map.empty"

text \<open>
  \<open>strings.ToLower\<close>, as far as a comparison with a lower-case ASCII word can see it: no other rune
  has an ASCII letter of these words as its lower case.
\<close>

definition ToLower_ascii :: "string \<Rightarrow> string" where
  "ToLower_ascii s = map (\<lambda>c. char_of (lower_code c)) s"

definition queryBool :: "(string \<Rightarrow> string) \<Rightarrow> string \<Rightarrow> bool" where
  "queryBool query key =
     (let v = TrimSpace (query key) in
      if v = [] then False
      else let v = ToLower_ascii v in v = ''1'' \<or> v = ''true'' \<or> v = ''yes'' \<or> v = ''y'')"

definition queryInt64Bounded :: "(string \<Rightarrow> string) \<Rightarrow> string \<Rightarrow> int \<Rightarrow> int \<Rightarrow> int \<Rightarrow> int" where
  "queryInt64Bounded query key dflt lo hi =
     (let v = TrimSpace (query key) in
      if v = [] then dflt
      else
        (case ParseInt10 v of
           Inl _ \<Rightarrow> dflt
         | Inr n \<Rightarrow> if n < lo then lo else if n > hi then hi else n))"

section \<open>Sampling the keys\<close>

fun count_keys :: "string list \<Rightarrow> string \<Rightarrow> int \<Rightarrow> int \<Rightarrow> int \<Rightarrow> int \<times> int \<times> bool" where
  "count_keys [] pre limit scanned matched = (scanned, matched, False)"
| "count_keys (k # ks) pre limit scanned matched =
     (let scanned = scanned + 1;
          matched = (if pre \<noteq> [] \<and> prefix pre k then matched + 1 else matched) in
      if scanned \<ge> limit then (scanned, matched, True)
      else count_keys ks pre limit scanned matched)"

definition countPrefixMatches :: "string list \<Rightarrow> string \<Rightarrow> int \<Rightarrow> int \<times> int \<times> bool" where
  "countPrefixMatches keys pre limit =
     (if limit \<le> 0 then (0, 0, True) else count_keys keys pre limit 0 0)"

record 'r stats_client =
  sc_dbsize :: "'r \<Rightarrow> (go_err + int) \<times> 'r"
  sc_info :: "string \<Rightarrow> 'r \<Rightarrow> string \<times> 'r"
  sc_scan :: "64 word \<Rightarrow> int \<Rightarrow> 'r \<Rightarrow> (go_err + (string list \<times> 64 word)) \<times> 'r"

text \<open>
  The loop of \<open>samplePrefixKeys\<close>; \<open>i\<close> counts the readings of the clock.  It ends when the deadline is
  reached, so with a clock that stands still it might not: the result is an option.
\<close>

partial_function (option) sample_loop ::
  "'r stats_client \<Rightarrow> (nat \<Rightarrow> int) \<Rightarrow> int \<Rightarrow> string \<Rightarrow> int \<Rightarrow> int \<Rightarrow>
   64 word \<Rightarrow> int \<Rightarrow> int \<Rightarrow> nat \<Rightarrow> 'r \<Rightarrow> (int \<times> int \<times> nat \<times> 'r) option" where
  "sample_loop cl clock deadline pre scanCount maxScanned cursor scanned matched i s =
     (if \<not> (clock i < deadline \<and> scanned < maxScanned) then Some (scanned, matched, Suc i, s)
      else
        (case sc_scan cl cursor scanCount s of
           (Inl err, s) \<Rightarrow> Some (scanned, matched, Suc i, s)
         | (Inr (keys, next), s) \<Rightarrow>
             (case countPrefixMatches keys pre (maxScanned - scanned) of
                (incScanned, incMatched, reached) \<Rightarrow>
                  let scanned = scanned + incScanned; matched = matched + incMatched in
                  if reached then Some (scanned, matched, Suc i, s)
                  else if next = 0 then Some (scanned, matched, Suc i, s)
                  else sample_loop cl clock deadline pre scanCount maxScanned next scanned matched (Suc i) s)))"

definition samplePrefixKeys ::
  "'r stats_client \<Rightarrow> (nat \<Rightarrow> int) \<Rightarrow> string \<Rightarrow> int \<Rightarrow> int \<Rightarrow> int \<Rightarrow> nat \<Rightarrow> 'r \<Rightarrow>
   (int \<times> int \<times> int \<times> nat \<times> 'r) option" where
  "samplePrefixKeys cl clock pre budget scanCount maxScanned i s =
     (let start = clock i; deadline = start + budget in
      case sample_loop cl clock deadline pre scanCount maxScanned 0 0 0 (Suc i) s of
        None \<Rightarrow> None
      | Some (scanned, matched, i, s) \<Rightarrow>
          Some (scanned, matched, go_quot (clock i - start) 1000000, Suc i, s))"

section \<open>The estimate\<close>

record 'f float_ops =
  of_int64 :: "int \<Rightarrow> 'f"
  to_int64 :: "'f \<Rightarrow> int"
  fdiv :: "'f \<Rightarrow> 'f \<Rightarrow> 'f"
  fmul :: "'f \<Rightarrow> 'f \<Rightarrow> 'f"
  f1_5 :: 'f

definition estimateFromSample :: "'f float_ops \<Rightarrow> int \<Rightarrow> int \<Rightarrow> int \<Rightarrow> 'f \<times> int \<times> int \<times> int" where
  "estimateFromSample fl dbsize scanned matched =
     (let ratio = (if scanned > 0 then fdiv fl (of_int64 fl matched) (of_int64 fl scanned) else of_int64 fl 0);
          estimated = to_int64 fl (fmul fl (of_int64 fl dbsize) ratio);
          factor = (if scanned < 20000 then of_int64 fl 2 else if scanned < 100000 then f1_5 fl else of_int64 fl 1);
          est_min = to_int64 fl (fdiv fl (of_int64 fl estimated) factor);
          est_max = to_int64 fl (fmul fl (of_int64 fl estimated) factor)
      in if dbsize = 0 then (ratio, estimated, 0, 0) else (ratio, estimated, est_min, est_max))"

record 'f prefixEstimate =
  pe_budget_ms :: int
  pe_scan_count :: int
  pe_elapsed_ms :: int
  pe_scanned_keys :: int
  pe_matched_keys :: int
  pe_matched_ratio :: 'f
  pe_estimated_keys :: int
  pe_estimated_keys_min :: int
  pe_estimated_keys_max :: int

text \<open>\<open>None\<close> outside is a loop that does not end, \<open>None\<close> inside the \<open>nil\<close> result.\<close>

definition maybeEstimatePrefixKeys ::
  "'f float_ops \<Rightarrow> 'r stats_client \<Rightarrow> (nat \<Rightarrow> int) \<Rightarrow> string \<Rightarrow> int \<Rightarrow> (string \<Rightarrow> string) \<Rightarrow> nat \<Rightarrow> 'r \<Rightarrow>
   ('f prefixEstimate option \<times> nat \<times> 'r) option" where
  "maybeEstimatePrefixKeys fl cl clock pre dbsize query i s =
     (if \<not> queryBool query ''estimate_prefix'' then Some (None, i, s)
      else
        let budgetMS = queryInt64Bounded query ''budget_ms'' 50 10 2000;
            scanCount = queryInt64Bounded query ''scan_count'' 1000 10 10000 in
        (case samplePrefixKeys cl clock pre (budgetMS * 1000000) scanCount 200000 i s of
           None \<Rightarrow> None
         | Some (scanned, matched, elapsedMS, i, s) \<Rightarrow>
             (case estimateFromSample fl dbsize scanned matched of
                (ratio, estimated, est_min, est_max) \<Rightarrow>
                  Some (Some \<lparr>pe_budget_ms = budgetMS, pe_scan_count = scanCount, pe_elapsed_ms = elapsedMS,
                    pe_scanned_keys = scanned, pe_matched_keys = matched, pe_matched_ratio = ratio,
                    pe_estimated_keys = estimated, pe_estimated_keys_min = est_min,
                    pe_estimated_keys_max = est_max\<rparr>, i, s))))"

section \<open>The endpoint\<close>

text \<open>The store behind the handlers; a nil client is \<open>None\<close>.\<close>

datatype 'r stats_store =
    RedisBackend "'r stats_client option" string
  | MemBackend mem_store
  | OtherBackend

datatype 'f stats_body =
    StatsError string
  | StatsFailed go_err
  | RedisStats int string int "string \<rightharpoonup> string" "string \<rightharpoonup> string" "string \<rightharpoonup> string" "'f prefixEstimate option"
  | InMemoryStats int mem_stats
  | UnknownStats int

definition ACLStats ::
  "'f float_ops \<Rightarrow> bool \<Rightarrow> 'r stats_store \<Rightarrow> (nat \<Rightarrow> int) \<Rightarrow> (string \<Rightarrow> string) \<Rightarrow> 'r \<Rightarrow>
   (nat \<times> 'f stats_body \<times> 'r) option" where
  "ACLStats fl statsEnabled st clock query s =
     (if \<not> statsEnabled then Some (404, StatsError ''not found'', s)
      else
        let now = clock 0 in
        (case st of
           RedisBackend None pre \<Rightarrow> Some (503, StatsError ''redis client not initialized'', s)
         | RedisBackend (Some cl) pre \<Rightarrow>
             (case sc_dbsize cl s of
                (Inl err, s) \<Rightarrow> Some (503, StatsFailed err, s)
              | (Inr dbsize, s) \<Rightarrow>
                  (case sc_info cl ''memory'' s of (memInfo, s) \<Rightarrow>
                  (case sc_info cl ''keyspace'' s of (keyInfo, s) \<Rightarrow>
                  (case sc_info cl ''stats'' s of (stInfo, s) \<Rightarrow>
                  (case maybeEstimatePrefixKeys fl cl clock pre dbsize query 1 s of
                     None \<Rightarrow> None
                   | Some (est, i, s) \<Rightarrow>
                       Some (200, RedisStats now pre dbsize (parseRedisInfo memInfo) (parseRedisInfo keyInfo)
                         (parseRedisInfo stInfo) est, s))))))
         | MemBackend m \<Rightarrow> Some (200, InMemoryStats now (Stats m), s)
         | OtherBackend \<Rightarrow> Some (200, UnknownStats now, s)))"

section \<open>Bounds of the sample\<close>

lemma count_keys_bounds:
  assumes "count_keys keys pre limit a b = (a', b', reached)" and "a < limit"
  shows "a \<le> a' \<and> a' \<le> limit \<and> b \<le> b' \<and> b' - b \<le> a' - a \<and>
    a' - a \<le> int (length keys) \<and> (reached \<longleftrightarrow> a' = limit)"
  using assms
proof (induction keys arbitrary: a b)
  case (Cons k ks)
  let ?b = "if pre \<noteq> [] \<and> prefix pre k then b + 1 else b"
  show ?case
  proof (cases "limit \<le> a + 1")
    case False
    then have "count_keys ks pre limit (a + 1) ?b = (a', b', reached)" using Cons.prems by (simp add: Let_def)
    from Cons.IH [OF this] False show ?thesis by (auto split: if_splits)
  qed (use Cons.prems in \<open>auto simp: Let_def split: if_splits\<close>)
qed auto

lemma queryInt64Bounded_bounds:
  "lo \<le> dflt \<Longrightarrow> dflt \<le> hi \<Longrightarrow> lo \<le> queryInt64Bounded query key dflt lo hi \<and> queryInt64Bounded query key dflt lo hi \<le> hi"
  by (auto simp: queryInt64Bounded_def Let_def split: sum.splits)

lemma sample_loop_ends:
  assumes "deadline \<le> clock (i + n)" and "0 \<le> b" and "b \<le> a" and "a \<le> maxScanned"
  shows "\<exists>a' b' j s'. sample_loop cl clock deadline pre scanCount maxScanned cursor a b i s = Some (a', b', j, s') \<and>
    0 \<le> b' \<and> b' \<le> a' \<and> a' \<le> maxScanned \<and> i < j \<and> j \<le> Suc (i + n)"
  using assms
proof (induction n arbitrary: i cursor a b s)
  case 0
  then show ?case by (subst sample_loop.simps) auto
next
  case (Suc n)
  show ?case
  proof (cases "clock i < deadline \<and> a < maxScanned")
    case False
    then show ?thesis using Suc.prems by (subst sample_loop.simps) auto
  next
    case True
    obtain r s1 where sc: "sc_scan cl cursor scanCount s = (r, s1)" by fastforce
    show ?thesis
    proof (cases r)
      case (Inl e)
      then show ?thesis using Suc.prems True sc by (subst sample_loop.simps) auto
    next
      case (Inr p)
      obtain keys nxt where p: "p = (keys, nxt)" by (cases p)
      obtain da db re where c: "countPrefixMatches keys pre (maxScanned - a) = (da, db, re)"
        by (metis surj_pair)
      from c True have "count_keys keys pre (maxScanned - a) 0 0 = (da, db, re)"
        by (simp add: countPrefixMatches_def)
      from count_keys_bounds [OF this] True have
        "0 \<le> da" "da \<le> maxScanned - a" "0 \<le> db" "db \<le> da" by auto
      then have b: "0 \<le> b + db" "b + db \<le> a + da" "a + da \<le> maxScanned" using Suc.prems by auto
      have clk: "deadline \<le> clock (Suc i + n)" using Suc.prems(1) by simp
      show ?thesis
      proof (cases "re \<or> nxt = 0")
        case True
        then show ?thesis using \<open>clock i < deadline \<and> a < maxScanned\<close> sc Inr p c b
          by (subst sample_loop.simps) (auto simp: Let_def)
      next
        case False
        then have "sample_loop cl clock deadline pre scanCount maxScanned cursor a b i s =
            sample_loop cl clock deadline pre scanCount maxScanned nxt (a + da) (b + db) (Suc i) s1"
          using True sc Inr p c by (subst sample_loop.simps) (simp add: Let_def)
        moreover from Suc.IH [OF clk b, of nxt s1] obtain a' b' j s' where
          "sample_loop cl clock deadline pre scanCount maxScanned nxt (a + da) (b + db) (Suc i) s1 =
             Some (a', b', j, s')"
          "0 \<le> b'" "b' \<le> a'" "a' \<le> maxScanned" "Suc i < j" "j \<le> Suc (Suc i + n)" by blast
        ultimately show ?thesis by auto
      qed
    qed
  qed
qed

section \<open>Properties\<close>

text \<open>
  C39: the statistics request ends when its budget is used up: the budget is \<open>budget_ms\<close> of the request (50
  without one, and within 10 and 2000), and once the clock has reached it, within \<open>n\<close> further readings,
  sampling has stopped, whatever \<open>SCAN\<close> returns (empty pages and cursors that never come back to zero
  included), after at most \<open>n\<close> pages, with at most 200000 keys counted and no more matches than keys.
  The result reports that budget and a page size within its documented bounds.
\<close>

theorem sampling_ends:
  assumes "budget = queryInt64Bounded query ''budget_ms'' 50 10 2000"
    and "clock i + budget * 1000000 \<le> clock (Suc i + n)" and "queryBool query ''estimate_prefix''"
  shows "\<exists>e j s'. maybeEstimatePrefixKeys fl cl clock pre dbsize query i s = Some (Some e, j, s') \<and>
    0 \<le> pe_matched_keys e \<and> pe_matched_keys e \<le> pe_scanned_keys e \<and> pe_scanned_keys e \<le> 200000 \<and>
    pe_budget_ms e = budget \<and> 10 \<le> budget \<and> budget \<le> 2000 \<and> 10 \<le> pe_scan_count e \<and> pe_scan_count e \<le> 10000 \<and>
    j \<le> i + n + 3"
proof -
  let ?b = "queryInt64Bounded query ''budget_ms'' 50 10 2000"
  let ?c = "queryInt64Bounded query ''scan_count'' 1000 10 10000"
  have b: "10 \<le> ?b" "?b \<le> 2000" "10 \<le> ?c" "?c \<le> 10000"
    using queryInt64Bounded_bounds [of 10 50 2000 query] queryInt64Bounded_bounds [of 10 1000 10000 query] by auto
  have "clock i + ?b * 1000000 \<le> clock (Suc i + n)" using assms(1,2) by simp
  from sample_loop_ends [of "clock i + ?b * 1000000" clock "Suc i" n 0 0 200000 cl pre ?c 0 s, OF this] obtain sc m j s' where
    l: "sample_loop cl clock (clock i + ?b * 1000000) pre ?c 200000 0 0 0 (Suc i) s = Some (sc, m, j, s')"
    "0 \<le> m" "m \<le> sc" "sc \<le> 200000" "j \<le> Suc (Suc i + n)" by auto
  obtain ra es mi ma where e: "estimateFromSample fl dbsize sc m = (ra, es, mi, ma)" by (metis surj_pair)
  show ?thesis using l b e assms(1,3)
    by (simp add: maybeEstimatePrefixKeys_def samplePrefixKeys_def Let_def)
qed

definition endless_scan :: "unit stats_client" where
  "endless_scan = \<lparr>sc_dbsize = (\<lambda>s. (Inr 5, s)), sc_info = (\<lambda>_ s. ([], s)),
     sc_scan = (\<lambda>cursor count s. (Inr ([''acl:t:1''], cursor + 1), s))\<rparr>"

theorem sampling_ends_witness:
  "\<exists>e j s'. maybeEstimatePrefixKeys \<lparr>of_int64 = id, to_int64 = id, fdiv = (div), fmul = (*), f1_5 = 1\<rparr>
      endless_scan (\<lambda>n. int n * 20000000) ''acl:'' 5
      (\<lambda>k. if k = ''estimate_prefix'' then '' Yes '' else []) 0 () = Some (Some e, j, s') \<and>
    pe_scanned_keys e \<le> 200000 \<and> pe_budget_ms e = 50 \<and> j \<le> 5"
proof -
  let ?q = "\<lambda>k. if k = ''estimate_prefix'' then '' Yes '' else []"
  have q: "queryBool ?q ''estimate_prefix''"
    by (simp add: queryBool_def TrimSpace_eval ToLower_ascii_def lower_code_def code_of_def char_of_def bit_0)
  have b: "50 = queryInt64Bounded ?q ''budget_ms'' 50 10 2000"
    by (simp add: queryInt64Bounded_def TrimSpace_eval)
  show ?thesis
    using sampling_ends [OF b _ q, of "\<lambda>n. int n * 20000000" 0 2, of
      "\<lparr>of_int64 = id, to_int64 = id, fdiv = (div), fmul = (*), f1_5 = 1\<rparr>" endless_scan "''acl:''" 5 "()"]
    by auto
qed

end
