(* ===== verification/AclHttp.thy ===== *)
theory AclHttp
  imports AclService AclStats
begin

text \<open>
  The routes of the ACL service: \<open>services/acl/router_gen.go\<close>, \<open>router.go\<close>, \<open>biz/router/register.go\<close> and
  \<open>biz/handler/ping.go\<close>, and a request on the in-memory store from its route to its answer.  A router
  of hertz is the list of its routes; a request carries what hertz binds of it for each handler.
\<close>

datatype acl_route = PingRoute | CheckBatchRoute | ListGrantsRoute | GrantRoute | RevokeRoute | RevokeAllRoute | StatsRoute

type_synonym hertz_router = "((string \<times> string) \<times> acl_route) list"

definition GeneratedRegister :: "hertz_router \<Rightarrow> hertz_router" where
  "GeneratedRegister r = r"

definition customizedRegister :: "hertz_router \<Rightarrow> hertz_router" where
  "customizedRegister r = r @
     [((''GET'', ''/ping''), PingRoute),
      ((''POST'', ''/v1/acl/check-batch''), CheckBatchRoute),
      ((''GET'', ''/v1/acl/grants''), ListGrantsRoute),
      ((''POST'', ''/v1/acl/grant''), GrantRoute),
      ((''POST'', ''/v1/acl/revoke''), RevokeRoute),
      ((''POST'', ''/v1/acl/revoke-all''), RevokeAllRoute),
      ((''GET'', ''/v1/acl/stats''), StatsRoute)]"

definition register :: "hertz_router \<Rightarrow> hertz_router" where
  "register r = customizedRegister (GeneratedRegister r)"

record acl_http_request =
  ah_method :: string
  ah_path :: string
  ah_check :: "checkBatchRequest option"
  ah_list :: listGrantsQuery
  ah_grant :: "grantRequest option"
  ah_revoke :: "revokeRequest option"
  ah_revoke_all :: "revokeAllUserRequest option"
  ah_query :: "string \<Rightarrow> string"

datatype 'f acl_http_reply =
    MessageReply nat string
  | AclReply "(unit, acl_response) outcome"
  | StatsReply "(nat \<times> 'f stats_body) option"
  | NoRoute

definition Ping :: "'f acl_http_reply" where "Ping = MessageReply 200 ''pong''"

text \<open>\<open>clock 0\<close> is what a handler reads first, \<open>clock 1\<close> what the store it calls reads.\<close>

definition acl_http ::
  "acl_env \<Rightarrow> 'f float_ops \<Rightarrow> bool \<Rightarrow> (string fset \<Rightarrow> string list) \<Rightarrow> (nat \<Rightarrow> int) \<Rightarrow> acl_http_request \<Rightarrow>
   mem_store \<Rightarrow> 'f acl_http_reply \<times> mem_store" where
  "acl_http env fl statsEnabled order clock req s =
     (let serve = (\<lambda>r. case acl_serve env (mem_acl_store order) (clock 0) (clock 1) r s of (a, s) \<Rightarrow> (AclReply a, s)) in
      case map_of (register []) (ah_method req, ah_path req) of
        None \<Rightarrow> (NoRoute, s)
      | Some PingRoute \<Rightarrow> (Ping, s)
      | Some CheckBatchRoute \<Rightarrow> serve (CheckBatch (ah_check req))
      | Some ListGrantsRoute \<Rightarrow> serve (Grants (ah_list req))
      | Some GrantRoute \<Rightarrow> serve (Grant (ah_grant req))
      | Some RevokeRoute \<Rightarrow> serve (Revoke (ah_revoke req))
      | Some RevokeAllRoute \<Rightarrow> serve (RevokeAll (ah_revoke_all req))
      | Some StatsRoute \<Rightarrow>
          (StatsReply (map_option (\<lambda>(status, body, _). (status, body))
             (ACLStats fl statsEnabled (MemBackend s :: unit stats_store) clock (ah_query req) ())), s))"

text \<open>No two routes compete for a request, and only POST can change the store.\<close>

lemma routes_distinct: "distinct (map fst (register []))"
  by (simp add: register_def customizedRegister_def GeneratedRegister_def)

lemma other_methods_keep_grants:
  assumes "uuids_ok env (\<lambda>_. True)" and "lists_sets order" and "mem_inv s" and "ah_method req \<noteq> ''POST''"
  shows "snd (acl_http env fl statsEnabled order clock req s) = s"
proof -
  have route: "map_of (register []) (ah_method req, ah_path req) \<in>
      {None, Some PingRoute, Some ListGrantsRoute, Some StatsRoute}"
    using assms(4) by (simp add: register_def customizedRegister_def GeneratedRegister_def)
  have "snd (acl_serve env (mem_acl_store order) c c' (Grants q) s) = s" for c c' q
    using acl_listing.serve_run [OF mem_listing [OF assms(2)] assms(1,3), of c c' "Grants q"] by auto
  then show ?thesis using route by (auto simp: acl_http_def Let_def case_prod_beta)
qed

end
