(* ===== verification/AdminIndex.thy ===== *)
theory AdminIndex
  imports AdminServer
begin

text \<open>
  The search index beside Redis: after any session of requests the users and documents in Milvus are
  those in Redis, each once, as long as every request's row fits the collections' schema and the deleted
  ids have no quote, backslash or line break.  The second part is what a search for documents then finds.
\<close>

section \<open>What Milvus documents of the calls\<close>

text \<open>
  \<open>idx m c\<close> are the ids of the rows of collection \<open>c\<close>.  A row is taken when its two texts fit the
  schema of \<open>createHotCollection\<close>, also when its id is taken already; a search finds stored rows only,
  and changes nothing.
\<close>

definition collections :: "string set" where
  "collections = {usersHotCollectionName, docsHotCollectionName, docsColdCollectionName}"

definition row_fits :: "'e milvus_row \<Rightarrow> bool" where
  "row_fits row \<longleftrightarrow> length (row_id row) \<le> 100 \<and> length (row_text row) \<le> 1000"

text \<open>
  The ids that \<open>fmt.Sprintf("id == '%s'")\<close> turns into a string literal of Milvus for themselves: no quote,
  no backslash, no line break.
\<close>

definition plain_id :: "string \<Rightarrow> bool" where
  "plain_id i \<longleftrightarrow> set i \<inter> {CHR 0x27, CHR 0x5C, CHR 0x0A, CHR 0x0D} = {}"

definition milvus_laws :: "('e, 'm) milvus \<Rightarrow> ('m \<Rightarrow> string \<Rightarrow> string list) \<Rightarrow> bool" where
  "milvus_laws cl idx \<longleftrightarrow>
     (\<forall>c row m. c \<in> collections \<and> row_fits row \<longrightarrow>
        idx (snd (insert_row cl c row m)) = (idx m)(c := idx m c @ [row_id row])) \<and>
     (\<forall>c i m. c \<in> collections \<and> plain_id i \<longrightarrow>
        idx (snd (delete_rows cl c (id_expr i) m)) = (idx m)(c := filter (\<lambda>j. j \<noteq> i) (idx m c))) \<and>
     (\<forall>c e k p m. idx (snd (search_rows cl c e k p m)) = idx m) \<and>
     (\<forall>c e k p m ids rest. fst (search_rows cl c e k p m) = Inr (ids # rest) \<longrightarrow> set ids \<subseteq> set (idx m c))"

section \<open>The index in step\<close>

definition in_step :: "(string \<Rightarrow> string list) \<Rightarrow> (string \<Rightarrow> string option) \<Rightarrow> bool" where
  "in_step ix m \<longleftrightarrow>
     distinct (ix usersHotCollectionName) \<and>
     set (ix usersHotCollectionName) = {i. m (''user:'' @ i) \<noteq> None} \<and>
     distinct (ix docsHotCollectionName @ ix docsColdCollectionName) \<and>
     set (ix docsHotCollectionName @ ix docsColdCollectionName) = {i. m (''doc:'' @ i) \<noteq> None}"

text \<open>The requests whose rows fit and whose ids can be written into a delete expression.\<close>

definition user_fits :: "CreateUserReq \<Rightarrow> bool" where
  "user_fits req \<longleftrightarrow> length (cu_id req) \<le> 100 \<and>
     length (cu_id req) + length (cu_name req) + length (cu_email req) + 2 \<le> 1000"

definition doc_fits :: "CreateDocReq \<Rightarrow> bool" where
  "doc_fits req \<longleftrightarrow> length (cd_id req) \<le> 100 \<and>
     length (cd_id req) + length (cd_title req) + length (cd_category req) + 2 \<le> 1000"

definition index_safe :: "admin_decoders \<Rightarrow> admin_request \<Rightarrow> bool" where
  "index_safe dec r \<longleftrightarrow>
     (\<forall>req. rq_path r = ''/api/users'' \<and> rq_method r = ''POST'' \<and> dec_user dec (rq_body r) = Inr req \<longrightarrow> user_fits req) \<and>
     (\<forall>req. rq_path r = ''/api/documents'' \<and> rq_method r = ''POST'' \<and> dec_doc dec (rq_body r) = Inr req \<longrightarrow> doc_fits req) \<and>
     (\<forall>i. rq_method r = ''DELETE'' \<and> dec_id dec (rq_body r) = Inr i \<longrightarrow> plain_id i)"

lemma run_milvus [simp]: "st_milvus (snd (run_cmd svc c s)) = st_milvus s"
  by (simp add: run_cmd_def case_prod_beta)

lemma audit_milvus [simp]: "st_milvus (snd (addAuditLog env svc a tg msg s)) = st_milvus s"
  by (simp add: addAuditLog_def Let_def case_prod_beta split: sum.split)

lemma delete_keys_milvus [simp]: "st_milvus (delete_keys svc ks s) = st_milvus s"
  by (induction ks arbitrary: s) simp_all

lemma permission_milvus [simp]:
  "st_milvus (snd (GrantPermission env svc b s)) = st_milvus s"
  "st_milvus (snd (RevokePermission env svc b s)) = st_milvus s"
  by (simp_all add: GrantPermission_def RevokePermission_def Let_def case_prod_beta split: sum.split option.split)

text \<open>What an insertion and a deletion do to an index in step.\<close>

lemma collection_names [simp]:
  "usersHotCollectionName \<in> collections" "docsHotCollectionName \<in> collections" "docsColdCollectionName \<in> collections"
  by (simp_all add: collections_def)

lemmas collections_differ_sym [simp] =
  not_sym [OF collections_differ(1)] not_sym [OF collections_differ(2)] not_sym [OF collections_differ(3)]

lemma key_updates:
  "(m(''user:'' @ i := y)) (''user:'' @ j) = (if j = i then y else m (''user:'' @ j))"
  "(m(''user:'' @ i := y)) (''doc:'' @ j) = m (''doc:'' @ j)"
  "(m(''doc:'' @ i := y)) (''doc:'' @ j) = (if j = i then y else m (''doc:'' @ j))"
  "(m(''doc:'' @ i := y)) (''user:'' @ j) = m (''user:'' @ j)"
  by simp_all

lemma in_step_user:
  assumes "in_step ix m"
  shows "m (''user:'' @ i) = None \<Longrightarrow>
      in_step (ix(usersHotCollectionName := ix usersHotCollectionName @ [i])) (m(''user:'' @ i \<mapsto> x))"
    and "in_step (ix(usersHotCollectionName := filter (\<lambda>j. j \<noteq> i) (ix usersHotCollectionName))) (m(''user:'' @ i := None))"
  using assms unfolding in_step_def key_updates
  by (auto simp del: append.simps append_Cons)

lemma in_step_doc:
  assumes "in_step ix m"
  shows "m (''doc:'' @ i) = None \<Longrightarrow> in_step (ix(docsHotCollectionName := ix docsHotCollectionName @ [i])) (m(''doc:'' @ i \<mapsto> x))"
    and "m (''doc:'' @ i) = None \<Longrightarrow> in_step (ix(docsColdCollectionName := ix docsColdCollectionName @ [i])) (m(''doc:'' @ i \<mapsto> x))"
    and "in_step (ix(docsHotCollectionName := filter (\<lambda>j. j \<noteq> i) (ix docsHotCollectionName),
      docsColdCollectionName := filter (\<lambda>j. j \<noteq> i) (ix docsColdCollectionName))) (m(''doc:'' @ i := None))"
proof -
  have new: "i \<notin> set (ix docsHotCollectionName)" "i \<notin> set (ix docsColdCollectionName)" if "m (''doc:'' @ i) = None"
  proof -
    have eq: "set (ix docsHotCollectionName) \<union> set (ix docsColdCollectionName) = {i. m (''doc:'' @ i) \<noteq> None}"
      using assms unfolding in_step_def set_append by blast
    have "i \<notin> set (ix docsHotCollectionName) \<union> set (ix docsColdCollectionName)"
      unfolding eq mem_Collect_eq that by simp
    then show "i \<notin> set (ix docsHotCollectionName)" "i \<notin> set (ix docsColdCollectionName)" by blast+
  qed
  show "in_step (ix(docsHotCollectionName := ix docsHotCollectionName @ [i])) (m(''doc:'' @ i \<mapsto> x))"
    "in_step (ix(docsColdCollectionName := ix docsColdCollectionName @ [i])) (m(''doc:'' @ i \<mapsto> x))"
    if "m (''doc:'' @ i) = None"
    using assms new [OF that] unfolding in_step_def key_updates by (auto simp del: append.simps append_Cons)
  show "in_step (ix(docsHotCollectionName := filter (\<lambda>j. j \<noteq> i) (ix docsHotCollectionName),
      docsColdCollectionName := filter (\<lambda>j. j \<noteq> i) (ix docsColdCollectionName))) (m(''doc:'' @ i := None))"
    using assms unfolding in_step_def key_updates by (auto simp del: append.simps append_Cons)
qed

text \<open>A service with a search over such a client.\<close>

locale admin_index = admin_redis svc view
  for svc :: "('e, 'm, 'r) admin_service" and view :: "'r \<Rightarrow> redis_view" +
  fixes senv :: "'e search_env" and cl :: "('e, 'm) milvus" and idx :: "'m \<Rightarrow> string \<Rightarrow> string list"
  assumes search: "adm_search svc = Some (senv, cl)" and milvus: "milvus_laws cl idx"
begin

lemma idx_insert:
  "c \<in> collections \<Longrightarrow> row_fits row \<Longrightarrow> idx (snd (insert_row cl c row m)) = (idx m)(c := idx m c @ [row_id row])"
  using milvus by (simp add: milvus_laws_def)

lemma idx_delete:
  "c \<in> collections \<Longrightarrow> plain_id i \<Longrightarrow>
    idx (snd (delete_rows cl c (id_expr i) m)) = (idx m)(c := filter (\<lambda>j. j \<noteq> i) (idx m c))"
  using milvus by (simp add: milvus_laws_def)

lemma idx_search: "idx (snd (search_rows cl c e k p m)) = idx m"
  using milvus by (simp add: milvus_laws_def)

lemma idx_found: "fst (search_rows cl c e k p m) = Inr (ids # rest) \<Longrightarrow> set ids \<subseteq> set (idx m c)"
  using milvus unfolding milvus_laws_def by blast

lemma idx_search_users: "idx (snd (SearchUsers senv cl kw k m)) = idx m"
  using idx_search by (simp add: SearchUsers_def case_prod_beta split: sum.split)

lemma idx_search_in: "idx (snd (searchDocumentsInCollection cl c e k p it m)) = idx m"
  using idx_search by (simp add: searchDocumentsInCollection_def Let_def case_prod_beta split: sum.split)

lemma idx_search_documents: "idx (snd (SearchDocuments senv cl kw k m)) = idx m"
  using idx_search_in by (simp add: SearchDocuments_def Let_def case_prod_beta)

lemma idx_lists:
  "idx (st_milvus (snd (ListUsers env svc q s))) = idx (st_milvus s)"
  "idx (st_milvus (snd (ListDocuments env svc q s))) = idx (st_milvus s)"
proof -
  obtain page ps where pp: "parsePagination q = (page, ps)" by fastforce
  obtain r m where u: "SearchUsers senv cl (q ''keyword'') 100 (st_milvus s) = (r, m)" by fastforce
  have m: "idx m = idx (st_milvus s)" using idx_search_users [of "q ''keyword''" 100 "st_milvus s"] u by simp
  show "idx (st_milvus (snd (ListUsers env svc q s))) = idx (st_milvus s)"
    using m u by (cases "q ''keyword''"; cases r; cases "projr r")
      (simp_all add: ListUsers_def search pp Let_def case_prod_beta snd_case_outcome del: fetch.simps)
  obtain r m where d: "SearchDocuments senv cl (q ''keyword'') 100 (st_milvus s) = (r, m)" by fastforce
  have m: "idx m = idx (st_milvus s)" using idx_search_documents [of "q ''keyword''" 100 "st_milvus s"] d by simp
  show "idx (st_milvus (snd (ListDocuments env svc q s))) = idx (st_milvus s)"
  proof (cases "q ''keyword''")
    case (Cons x xs)
    show ?thesis
    proof (cases r)
      case (Ok ds)
      then show ?thesis using m d Cons
        by (cases ds) (simp_all add: ListDocuments_def search pp Let_def case_prod_beta and_then_state del: fetch.simps)
    qed (use m d Cons in \<open>simp_all add: ListDocuments_def search pp Let_def case_prod_beta and_then_state\<close>)
  qed (simp add: ListDocuments_def search pp Let_def case_prod_beta and_then_state)
qed

text \<open>What the handlers that write do to the index.\<close>

lemma create_user_index:
  assumes "entries view s = stored m"
  shows "st_milvus (snd (CreateUser env svc (Inr req) s)) =
    (if m (''user:'' @ cu_id req) = None \<and> (\<exists>data. marshal_user env (new_user env req) = Inr data)
     then snd (IndexUser senv cl (new_user env req) (st_milvus s)) else st_milvus s)"
proof -
  let ?k = "''user:'' @ cu_id req"
  define s1 where "s1 = snd (run_cmd svc (AExists ?k) s)"
  have ex: "run_cmd svc (AExists ?k) s = (RInt (if m ?k = None then 0 else 1), s1)"
    using run_exists [OF assms, of ?k] by (simp add: s1_def prod_eq_iff)
  have s1: "entries view s1 = stored m" "st_milvus s1 = st_milvus s" by (simp_all add: s1_def assms)
  note set = run_set [OF s1(1), of ?k]
  show ?thesis
  proof (cases "marshal_user env (new_user env req)")
    case (Inl err)
    then show ?thesis using s1 ex by (simp add: CreateUser_def new_user_def Let_def)
  next
    case (Inr data)
    then show ?thesis using s1 set [of data] ex
      by (simp add: CreateUser_def new_user_def Let_def case_prod_beta search)
  qed
qed

lemma create_doc_index:
  assumes "entries view s = stored m"
  shows "st_milvus (snd (CreateDocument env svc (Inr req) s)) =
    (if m (''doc:'' @ cd_id req) = None \<and> (\<exists>data. marshal_doc env (new_doc env req) = Inr data)
     then snd (IndexDocument senv (now_ns env) cl (new_doc env req) (st_milvus s)) else st_milvus s)"
proof -
  let ?k = "''doc:'' @ cd_id req"
  define s1 where "s1 = snd (run_cmd svc (AExists ?k) s)"
  have ex: "run_cmd svc (AExists ?k) s = (RInt (if m ?k = None then 0 else 1), s1)"
    using run_exists [OF assms, of ?k] by (simp add: s1_def prod_eq_iff)
  have s1: "entries view s1 = stored m" "st_milvus s1 = st_milvus s" by (simp_all add: s1_def assms)
  note set = run_set [OF s1(1), of ?k]
  show ?thesis
  proof (cases "marshal_doc env (new_doc env req)")
    case (Inl err)
    then show ?thesis using s1 ex by (simp add: CreateDocument_def new_doc_def Let_def)
  next
    case (Inr data)
    then show ?thesis using s1 set [of data] ex
      by (simp add: CreateDocument_def new_doc_def Let_def case_prod_beta search)
  qed
qed

lemma delete_index:
  assumes "entries view s = stored m"
  shows "st_milvus (snd (DeleteUser env svc (Inr i) s)) = snd (search_DeleteUser cl i (st_milvus s))"
    and "st_milvus (snd (DeleteDocument env svc (Inr i) s)) = snd (search_DeleteDocument cl i (st_milvus s))"
proof -
  have "reply_err (fst (run_cmd svc (ADel (''user:'' @ i)) s)) = None"
    "reply_err (fst (run_cmd svc (ADel (''doc:'' @ i)) s)) = None"
    using run_del_key [OF assms, of "''user:'' @ i"] run_del_key [OF assms, of "''doc:'' @ i"] by simp_all
  then show "st_milvus (snd (DeleteUser env svc (Inr i) s)) = snd (search_DeleteUser cl i (st_milvus s))"
    "st_milvus (snd (DeleteDocument env svc (Inr i) s)) = snd (search_DeleteDocument cl i (st_milvus s))"
    by (simp_all add: DeleteUser_def DeleteDocument_def Let_def case_prod_beta search split: sum.split)
qed

text \<open>What the search service's own operations do to the index.\<close>

lemma idx_users:
  "user_fits req \<Longrightarrow> idx (snd (IndexUser senv cl (new_user env req) m)) =
    (idx m)(usersHotCollectionName := idx m usersHotCollectionName @ [cu_id req])"
  "plain_id i \<Longrightarrow> idx (snd (search_DeleteUser cl i m)) =
    (idx m)(usersHotCollectionName := filter (\<lambda>j. j \<noteq> i) (idx m usersHotCollectionName))"
proof -
  show "idx (snd (IndexUser senv cl (new_user env req) m)) =
      (idx m)(usersHotCollectionName := idx m usersHotCollectionName @ [cu_id req])" if "user_fits req"
    using that unfolding IndexUser_def Let_def
    by (subst idx_insert) (simp_all add: row_fits_def user_fits_def new_user_def)
qed (simp add: search_DeleteUser_def idx_delete)

lemma idx_docs:
  "doc_fits req \<Longrightarrow> idx (snd (IndexDocument senv now cl (new_doc env req) m)) =
    (let c = if isHotData senv now (now_rfc3339 env) then docsHotCollectionName else docsColdCollectionName
     in (idx m)(c := idx m c @ [cd_id req]))"
  "plain_id i \<Longrightarrow> idx (snd (search_DeleteDocument cl i m)) =
    (idx m)(docsHotCollectionName := filter (\<lambda>j. j \<noteq> i) (idx m docsHotCollectionName),
      docsColdCollectionName := filter (\<lambda>j. j \<noteq> i) (idx m docsColdCollectionName))"
proof -
  have row: "row_id (document_row senv (new_doc env req)) = cd_id req"
    by (simp add: document_row_def new_doc_def Let_def)
  show "idx (snd (IndexDocument senv now cl (new_doc env req) m)) =
      (let c = if isHotData senv now (now_rfc3339 env) then docsHotCollectionName else docsColdCollectionName
       in (idx m)(c := idx m c @ [cd_id req]))" if "doc_fits req"
  proof -
    have "row_fits (document_row senv (new_doc env req))"
      using that by (simp add: row_fits_def doc_fits_def document_row_def new_doc_def Let_def)
    then show ?thesis by (simp add: IndexDocument_def Let_def idx_insert row) (simp add: new_doc_def)
  qed
  show "idx (snd (search_DeleteDocument cl i m)) = (idx m)(docsHotCollectionName := filter (\<lambda>j. j \<noteq> i) (idx m docsHotCollectionName),
      docsColdCollectionName := filter (\<lambda>j. j \<noteq> i) (idx m docsColdCollectionName))" if "plain_id i"
    using that by (simp add: search_DeleteDocument_def idx_delete case_prod_beta)
qed

text \<open>One request, and a session.\<close>

definition stepping :: "(string \<Rightarrow> string option) \<Rightarrow> ('m, 'r) admin_state \<Rightarrow> bool" where
  "stepping m s \<longleftrightarrow> entries view s = stored m \<and> in_step (idx (st_milvus s)) m"

lemma step_user:
  assumes "stepping m s"
  shows "user_fits req \<Longrightarrow> in_step (idx (st_milvus (snd (CreateUser env svc (Inr req) s))))
      (spec_create (''user:'' @ cu_id req) (marshal_user env (new_user env req)) m)"
    and "plain_id i \<Longrightarrow> in_step (idx (st_milvus (snd (DeleteUser env svc (Inr i) s)))) (m(''user:'' @ i := None))"
proof -
  have e: "entries view s = stored m" and i: "in_step (idx (st_milvus s)) m"
    using assms by (simp_all add: stepping_def)
  show "in_step (idx (st_milvus (snd (DeleteUser env svc (Inr i) s)))) (m(''user:'' @ i := None))" if "plain_id i"
    unfolding delete_index(1) [OF e] idx_users(2) [OF that] by (rule in_step_user(2) [OF i])
  show "in_step (idx (st_milvus (snd (CreateUser env svc (Inr req) s))))
      (spec_create (''user:'' @ cu_id req) (marshal_user env (new_user env req)) m)" if fits: "user_fits req"
  proof (cases "m (''user:'' @ cu_id req) = None \<and> (\<exists>data. marshal_user env (new_user env req) = Inr data)")
    case True
    then obtain data where "m (''user:'' @ cu_id req) = None" "marshal_user env (new_user env req) = Inr data" by blast
    then show ?thesis using in_step_user(1) [OF i, of "cu_id req" data]
      by (simp add: create_user_index [OF e] spec_create_def idx_users(1) [OF fits] del: append.simps append_Cons)
  next
    case False
    then have "st_milvus (snd (CreateUser env svc (Inr req) s)) = st_milvus s" unfolding create_user_index [OF e] by (rule if_not_P)
    moreover have "spec_create (''user:'' @ cu_id req) (marshal_user env (new_user env req)) m = m"
      using False by (cases "marshal_user env (new_user env req)") (simp_all add: spec_create_def)
    ultimately show ?thesis using i by simp
  qed
qed

lemma step_doc:
  assumes "stepping m s"
  shows "doc_fits req \<Longrightarrow> in_step (idx (st_milvus (snd (CreateDocument env svc (Inr req) s))))
      (spec_create (''doc:'' @ cd_id req) (marshal_doc env (new_doc env req)) m)"
    and "plain_id i \<Longrightarrow> in_step (idx (st_milvus (snd (DeleteDocument env svc (Inr i) s)))) (m(''doc:'' @ i := None))"
proof -
  have e: "entries view s = stored m" and i: "in_step (idx (st_milvus s)) m"
    using assms by (simp_all add: stepping_def)
  show "in_step (idx (st_milvus (snd (DeleteDocument env svc (Inr i) s)))) (m(''doc:'' @ i := None))" if "plain_id i"
    unfolding delete_index(2) [OF e] idx_docs(2) [OF that] by (rule in_step_doc(3) [OF i])
  show "in_step (idx (st_milvus (snd (CreateDocument env svc (Inr req) s))))
      (spec_create (''doc:'' @ cd_id req) (marshal_doc env (new_doc env req)) m)" if fits: "doc_fits req"
  proof (cases "m (''doc:'' @ cd_id req) = None \<and> (\<exists>data. marshal_doc env (new_doc env req) = Inr data)")
    case True
    then obtain data where "m (''doc:'' @ cd_id req) = None" "marshal_doc env (new_doc env req) = Inr data" by blast
    then show ?thesis using in_step_doc(1,2) [OF i, of "cd_id req" data]
      by (simp add: create_doc_index [OF e] spec_create_def idx_docs(1) [OF fits] Let_def del: append.simps append_Cons)
  next
    case False
    then have "st_milvus (snd (CreateDocument env svc (Inr req) s)) = st_milvus s" unfolding create_doc_index [OF e] by (rule if_not_P)
    moreover have "spec_create (''doc:'' @ cd_id req) (marshal_doc env (new_doc env req)) m = m"
      using False by (cases "marshal_doc env (new_doc env req)") (simp_all add: spec_create_def)
    ultimately show ?thesis using i by simp
  qed
qed

lemma step_stepping:
  assumes "stepping m s" and "index_safe dec r"
  shows "stepping (spec_step dec (env, r) m) (snd (registerRoutes env dec err_text svc r s))"
proof -
  have i: "in_step (idx (st_milvus s)) m" using assms(1) by (simp add: stepping_def)
  have "in_step (idx (st_milvus (snd (registerRoutes env dec err_text svc r s)))) (spec_step dec (env, r) m)"
  proof (cases "rq_path r = ''/api/users''")
    case True
    then show ?thesis using assms(2) i step_user [OF assms(1)]
      by (cases "dec_user dec (rq_body r)"; cases "dec_id dec (rq_body r)")
        (simp_all add: registerRoutes_def by_method_def spec_step_def index_safe_def idx_lists CreateUser_def [of _ _ "Inl e" for e]
          DeleteUser_def [of _ _ "Inl e" for e] del: append.simps append_Cons)
  next
    case False
    then show ?thesis using assms(2) i step_doc [OF assms(1)]
      by (cases "dec_doc dec (rq_body r)"; cases "dec_id dec (rq_body r)")
        (simp_all add: registerRoutes_def by_method_def spec_step_def index_safe_def idx_lists CreateDocument_def [of _ _ "Inl e" for e]
          DeleteDocument_def [of _ _ "Inl e" for e] del: append.simps append_Cons)
  qed
  then show ?thesis using step_entries [of s m] assms(1) by (simp add: stepping_def)
qed

lemma session_stepping:
  assumes "stepping m s" and "\<forall>(env, r)\<in>set reqs. index_safe dec r"
  shows "stepping (fold (spec_step dec) reqs m) (admin_session dec err_text svc reqs s)"
  using assms
proof (induction reqs arbitrary: s m)
  case (Cons x reqs)
  then show ?case using step_stepping [of m s dec] by (cases x) simp
qed simp

text \<open>
  New documents are hot: the cold collection stays empty as long as the clock's formatted reading is
  parsed back to a time less than seven days ago.
\<close>

lemma step_cold:
  assumes "stepping m s" and "index_safe dec r" and "isHotData senv (now_ns env) (now_rfc3339 env)"
    and cold: "idx (st_milvus s) docsColdCollectionName = []"
  shows "idx (st_milvus (snd (registerRoutes env dec err_text svc r s))) docsColdCollectionName = []"
proof -
  have e: "entries view s = stored m" using assms(1) by (simp add: stepping_def)
  have u: "user_fits req \<Longrightarrow> idx (st_milvus (snd (CreateUser env svc (Inr req) s))) docsColdCollectionName = []"
    and ud: "plain_id i \<Longrightarrow> idx (st_milvus (snd (DeleteUser env svc (Inr i) s))) docsColdCollectionName = []"
    and d: "doc_fits dreq \<Longrightarrow> idx (st_milvus (snd (CreateDocument env svc (Inr dreq) s))) docsColdCollectionName = []"
    and dd: "plain_id i \<Longrightarrow> idx (st_milvus (snd (DeleteDocument env svc (Inr i) s))) docsColdCollectionName = []"
    for req dreq i
    using cold assms(3)
    by (simp_all add: create_user_index [OF e] create_doc_index [OF e] delete_index [OF e] idx_users idx_docs)
  show ?thesis
  proof (cases "rq_path r = ''/api/users''")
    case True
    then show ?thesis using assms(2) u ud cold
      by (cases "dec_user dec (rq_body r)"; cases "dec_id dec (rq_body r)")
        (simp_all add: registerRoutes_def by_method_def index_safe_def idx_lists CreateUser_def [of _ _ "Inl e" for e]
          DeleteUser_def [of _ _ "Inl e" for e])
  next
    case False
    then show ?thesis using assms(2) d dd cold
      by (cases "dec_doc dec (rq_body r)"; cases "dec_id dec (rq_body r)")
        (simp_all add: registerRoutes_def by_method_def index_safe_def idx_lists CreateDocument_def [of _ _ "Inl e" for e]
          DeleteDocument_def [of _ _ "Inl e" for e])
  qed
qed

lemma session_cold:
  assumes "stepping m s" and "\<forall>(env, r)\<in>set reqs. index_safe dec r \<and> isHotData senv (now_ns env) (now_rfc3339 env)"
    and "idx (st_milvus s) docsColdCollectionName = []"
  shows "idx (st_milvus (admin_session dec err_text svc reqs s)) docsColdCollectionName = []"
  using assms
proof (induction reqs arbitrary: s m)
  case (Cons x reqs)
  obtain env r where x: "x = (env, r)" by (cases x)
  have "index_safe dec r" "isHotData senv (now_ns env) (now_rfc3339 env)" using Cons.prems(2) x by auto
  then show ?case
    using Cons.IH [OF step_stepping [OF Cons.prems(1)]] step_cold [OF Cons.prems(1) _ _ Cons.prems(3)] Cons.prems(2) x
    by simp
qed simp

text \<open>What a search for documents then finds: the ids of users.\<close>

lemma search_finds_users:
  assumes "idx m docsColdCollectionName = []" and "kw \<noteq> []"
    and "fst (search_rows cl usersHotCollectionName (embed senv kw) 100 (HNSWParam (calculateHNSWParam kw)) m) = Inr (ids # rest)"
  shows "fst (SearchDocuments senv cl kw 100 m) = Ok (take 100 ids)"
proof -
  let ?u = "search_rows cl usersHotCollectionName (embed senv kw) 100 (HNSWParam (calculateHNSWParam kw)) m"
  have hot: "searchDocumentsInCollection cl usersHotCollectionName (embed senv kw) 100 (calculateHNSWParam kw) ''HNSW'' m =
      (Inr ids, snd ?u)"
    using assms(3) by (simp add: searchDocumentsInCollection_def case_prod_beta first_ids_def)
  let ?c = "search_rows cl docsColdCollectionName (embed senv kw) 100 (IvfSQ8Param (calculateNProbe kw)) (snd ?u)"
  have empty: "first_ids result = []" if "fst ?c = Inr result" for result
    using that assms(1) idx_found [of docsColdCollectionName _ _ _ "snd ?u"] idx_search
    by (cases result) (fastforce simp: first_ids_def)+
  have cold: "(case fst (searchDocumentsInCollection cl docsColdCollectionName (embed senv kw) 100 (calculateNProbe kw) ''IVF_SQ8'' (snd ?u))
      of Inl _ \<Rightarrow> [] | Inr ids \<Rightarrow> ids) = []"
    using empty by (simp add: searchDocumentsInCollection_def case_prod_beta split: sum.split)
  show ?thesis using assms(2) cold by (simp add: SearchDocuments_def Let_def hot case_prod_beta)
qed

lemma lists_no_documents:
  assumes "stepping m s" and "idx (st_milvus s) docsColdCollectionName = []" and "q ''keyword'' \<noteq> []"
    and "fst (search_rows cl usersHotCollectionName (embed senv (q ''keyword'')) 100
      (HNSWParam (calculateHNSWParam (q ''keyword''))) (st_milvus s)) = Inr (ids # rest)"
    and "ids \<noteq> []" and "\<And>i. m (''user:'' @ i) \<noteq> None \<Longrightarrow> m (''doc:'' @ i) = None"
    and "parsePagination q = (page, ps)"
  shows "fst (ListDocuments env svc q s) = page_reply DocPage page ps []"
proof -
  have e: "entries view s = stored m" and i: "in_step (idx (st_milvus s)) m"
    using assms(1) by (simp_all add: stepping_def)
  obtain d ds where ids: "take 100 ids = d # ds" using assms(5) by (cases ids) auto
  obtain m' where f: "SearchDocuments senv cl (q ''keyword'') 100 (st_milvus s) = (Ok (d # ds), m')"
    using search_finds_users [OF assms(2,3,4)] ids by (metis prod.collapse)
  have "set (d # ds) \<subseteq> set (idx (st_milvus s) usersHotCollectionName)"
    using idx_found [OF assms(4)] ids by (metis dual_order.trans set_take_subset)
  then have "\<forall>j\<in>set (d # ds). m (''user:'' @ j) \<noteq> None" using i unfolding in_step_def by blast
  then have none: "\<forall>j\<in>set (d # ds). m (''doc:'' @ j) = None" using assms(6) by blast
  have dec: "decoded f m (map (\<lambda>i. ''doc:'' @ i) js) = []" if "\<forall>j\<in>set js. m (''doc:'' @ j) = None" for f js
    using that by (induction js) (simp_all add: decoded_def)
  have "fst (fetch svc (unmarshal_doc env) (\<lambda>_. True) (map (\<lambda>i. ''doc:'' @ i) (d # ds)) (s\<lparr>st_milvus := m'\<rparr>)) =
      decoded (unmarshal_doc env) m (map (\<lambda>i. ''doc:'' @ i) (d # ds))"
    by (rule fetch_decoded) (auto simp: e)
  also have "\<dots> = []" by (rule dec [OF none])
  finally have "fst (fetch svc (unmarshal_doc env) (\<lambda>_. True) (map (\<lambda>i. ''doc:'' @ i) (d # ds)) (s\<lparr>st_milvus := m'\<rparr>)) = []" .
  then obtain s' where fe: "fetch svc (unmarshal_doc env) (\<lambda>_. True) (map (\<lambda>i. ''doc:'' @ i) (d # ds)) (s\<lparr>st_milvus := m'\<rparr>) = ([], s')"
    by (metis prod.collapse)
  obtain c cs where kw: "q ''keyword'' = c # cs" using assms(3) by (cases "q ''keyword''") auto
  show ?thesis using f fe unfolding kw
    by (simp add: ListDocuments_def search kw assms(7) page_reply_def del: fetch.simps list.map append.simps append_Cons
        split: outcome.split)
qed

end

section \<open>A concrete service\<close>

definition kv_milvus :: "(string, string \<Rightarrow> string list) milvus" where
  "kv_milvus = demo_milvus\<lparr>delete_rows := (\<lambda>c e m. (None, m(c := filter (\<lambda>j. id_expr j \<noteq> e) (m c))))\<rparr>"

lemma id_expr_inject [simp]: "id_expr i = id_expr j \<longleftrightarrow> i = j"
  by (simp add: id_expr_def)

lemma kv_milvus_laws: "milvus_laws kv_milvus id"
  by (auto simp: milvus_laws_def kv_milvus_def demo_milvus_def)

definition indexed_service :: "(string, string \<Rightarrow> string list, (string \<times> string) list) admin_service" where
  "indexed_service = \<lparr>adm_redis = kv_server, adm_search = Some (demo_search_env, kv_milvus)\<rparr>"

interpretation ki: admin_index indexed_service kv_view demo_search_env kv_milvus id
  by unfold_locales (simp_all add: indexed_service_def kv_store_laws kv_milvus_laws)

section \<open>Properties\<close>

lemma stepping_empty:
  assumes "admin_index svc view senv cl idx" and "entries view s = stored Map.empty"
    and "\<forall>c\<in>collections. idx (st_milvus s) c = []"
  shows "admin_index.stepping view idx Map.empty s"
  using assms(2,3) by (simp add: admin_index.stepping_def [OF assms(1)] in_step_def collections_def)

text \<open>
  C15: the search index follows Redis.  On an empty Redis server and empty collections, after any
  sequence of HTTP requests whose rows fit the schema and whose deleted ids have no quote, backslash or
  line break, the users collection holds exactly the ids of the users stored in Redis, each once, and the two document
  collections together exactly the ids of the documents stored, each once.
\<close>

theorem index_follows_redis:
  assumes "admin_store_laws (adm_redis svc) view" and "adm_search svc = Some (senv, cl)" and "milvus_laws cl idx"
    and "entries view s = stored Map.empty" and "\<forall>c\<in>collections. idx (st_milvus s) c = []"
    and "\<forall>(env, r)\<in>set reqs. index_safe dec r"
  shows "let s' = admin_session dec err_text svc reqs s; m = fold (spec_step dec) reqs Map.empty; ix = idx (st_milvus s') in
    entries view s' = stored m \<and>
    distinct (ix usersHotCollectionName) \<and>
    set (ix usersHotCollectionName) = {i. m (''user:'' @ i) \<noteq> None} \<and>
    distinct (ix docsHotCollectionName @ ix docsColdCollectionName) \<and>
    set (ix docsHotCollectionName @ ix docsColdCollectionName) = {i. m (''doc:'' @ i) \<noteq> None}"
proof -
  have I: "admin_index svc view senv cl idx"
    using assms(1-3) by (simp add: admin_index_def admin_redis_def admin_index_axioms_def)
  from admin_index.session_stepping [OF I stepping_empty [OF I assms(4,5)] assms(6)]
  show ?thesis unfolding admin_index.stepping_def [OF I] in_step_def Let_def by blast
qed

text \<open>
  C16: documents are not found.  When moreover the clock's readings are recent, no document shares its
  id with a user, and the search of the users' collection answers with at least one row (a search for
  nearest vectors does as soon as there is a user), then GET /api/documents with a keyword shows an empty
  list with a total of 0, whatever documents are stored and whatever the keyword is.
\<close>

theorem document_search_empty:
  assumes "admin_store_laws (adm_redis svc) view" and "adm_search svc = Some (senv, cl)" and "milvus_laws cl idx"
    and "entries view s = stored Map.empty" and "\<forall>c\<in>collections. idx (st_milvus s) c = []"
    and "\<forall>(env, r)\<in>set reqs. index_safe dec r \<and> isHotData senv (now_ns env) (now_rfc3339 env)"
    and "s' = admin_session dec err_text svc reqs s" and "m = fold (spec_step dec) reqs Map.empty"
    and "\<And>i. m (''user:'' @ i) \<noteq> None \<Longrightarrow> m (''doc:'' @ i) = None"
    and "rq_path r = ''/api/documents''" and "rq_method r = ''GET''" and "rq_query r ''keyword'' = kw" and "kw \<noteq> []"
    and "fst (search_rows cl usersHotCollectionName (embed senv kw) 100 (HNSWParam (calculateHNSWParam kw)) (st_milvus s')) =
      Inr (ids # rest)" and "ids \<noteq> []"
    and "parsePagination (rq_query r) = (page, ps)" and "0 \<le> wrap64 ((page - 1) * ps)"
  shows "fst (registerRoutes env dec err_text svc r s') =
    Ok (JSONReply 200 (Response 200 ''success'' (DocPage [] page ps 0 0)))"
proof -
  have I: "admin_index svc view senv cl idx"
    using assms(1-3) by (simp add: admin_index_def admin_redis_def admin_index_axioms_def)
  have safe: "\<forall>(env, r)\<in>set reqs. index_safe dec r" using assms(6) by blast
  note empty = stepping_empty [OF I assms(4,5)]
  have st: "admin_index.stepping view idx m s'"
    unfolding assms(7,8) by (rule admin_index.session_stepping [OF I empty safe])
  have cold: "idx (st_milvus s') docsColdCollectionName = []"
    unfolding assms(7) by (rule admin_index.session_cold [OF I empty assms(6)]) (simp add: assms(5))
  have "fst (ListDocuments env svc (rq_query r) s') = page_reply DocPage page ps []"
    by (rule admin_index.lists_no_documents [OF I st cold _ _ assms(15) assms(9) assms(16), where rest = rest])
      (use assms(12-14) in simp_all)
  moreover note range = parsePagination_range [OF assms(16)]
  have "(paginate page ps [] :: (go_err, Document list) outcome) = Ok []"
    using paginate_start [of page ps "[] :: Document list"] range assms(17) by simp
  moreover have "total_page 0 ps = 0" using total_page_div [of ps 0] range by simp
  ultimately have "fst (ListDocuments env svc (rq_query r) s') = Ok (Response 200 ''success'' (DocPage [] page ps 0 0))"
    by (simp add: page_reply_def)
  then show ?thesis using assms(10,11) by (simp add: registerRoutes_def by_method_def withJSON_result)
qed

definition demo_doc_decoders :: admin_decoders where
  "demo_doc_decoders = demo_decoders\<lparr>dec_doc := (\<lambda>b. Inr \<lparr>cd_id = take 1 b, cd_title = b, cd_category = [], cd_owner_id = []\<rparr>)\<rparr>"

definition demo_doc_env :: admin_env where
  "demo_doc_env = demo_users\<lparr>marshal_doc := (\<lambda>d. Inr (d_title d))\<rparr>"

definition doc_request :: "string \<Rightarrow> string \<Rightarrow> (string \<Rightarrow> string) \<Rightarrow> admin_request" where
  "doc_request meth body q = \<lparr>rq_method = meth, rq_path = ''/api/documents'', rq_query = q, rq_body = body\<rparr>"

definition demo_index_session :: "(admin_env \<times> admin_request) list" where
  "demo_index_session =
     [(demo_doc_env, user_request ''POST'' ''adam''), (demo_doc_env, doc_request ''POST'' ''plan'' (\<lambda>_. [])),
      (demo_doc_env, user_request ''POST'' ''bob''), (demo_doc_env, user_request ''DELETE'' ''b'')]"

abbreviation demo_index_start where
  "demo_index_start \<equiv> \<lparr>st_redis = [] :: (string \<times> string) list, st_milvus = (\<lambda>_ :: string. [] :: string list)\<rparr>"

abbreviation demo_index_end where
  "demo_index_end \<equiv> admin_session demo_doc_decoders (\<lambda>_. []) indexed_service demo_index_session demo_index_start"

abbreviation demo_index_map where
  "demo_index_map \<equiv> [''user:a'' \<mapsto> ''adam'', ''doc:p'' \<mapsto> ''plan'']"

lemmas demo_index_defs = demo_index_session_def demo_doc_env_def demo_doc_decoders_def doc_request_def demo_admin_defs new_doc_def

lemma demo_index_empty:
  "entries kv_view demo_index_start = stored Map.empty" "\<forall>c\<in>collections. id (st_milvus demo_index_start) c = []"
  by (simp_all add: entries_def stored_def kv_value fun_eq_iff)

lemma demo_index_spec: "fold (spec_step demo_doc_decoders) demo_index_session Map.empty = demo_index_map"
  by (simp add: demo_index_defs fun_eq_iff)

lemma demo_index_safe:
  "\<forall>(env, r)\<in>set demo_index_session. index_safe demo_doc_decoders r \<and> isHotData demo_search_env (now_ns env) (now_rfc3339 env)"
  "\<forall>(env, r)\<in>set demo_index_session. index_safe demo_doc_decoders r"
  by (simp_all add: demo_index_defs index_safe_def user_fits_def doc_fits_def plain_id_def isHotData_def)

lemma demo_index_ids:
  "{i. demo_index_map (''user:'' @ i) \<noteq> None} = {''a''}" "{i. demo_index_map (''doc:'' @ i) \<noteq> None} = {''p''}"
  by auto

lemma demo_index_users: "st_milvus demo_index_end usersHotCollectionName = [''a'']"
proof -
  have "ki.stepping demo_index_map demo_index_end"
    using ki.session_stepping [OF stepping_empty [OF ki.admin_index_axioms, OF demo_index_empty] demo_index_safe(2)]
    by (simp only: demo_index_spec)
  then have "distinct (st_milvus demo_index_end usersHotCollectionName)"
    "set (st_milvus demo_index_end usersHotCollectionName) = {''a''}"
    unfolding ki.stepping_def in_step_def demo_index_ids id_apply by blast+
  then show ?thesis by (rule distinct_singleton)
qed

lemma indexed_service_laws:
  "admin_store_laws (adm_redis indexed_service) kv_view" "adm_search indexed_service = Some (demo_search_env, kv_milvus)"
  by (simp_all add: indexed_service_def kv_store_laws)

theorem index_follows_redis_witness:
  "distinct (st_milvus demo_index_end usersHotCollectionName) \<and>
   set (st_milvus demo_index_end usersHotCollectionName) = {''a''} \<and>
   set (st_milvus demo_index_end docsHotCollectionName @ st_milvus demo_index_end docsColdCollectionName) = {''p''}"
  using index_follows_redis [OF indexed_service_laws kv_milvus_laws, OF demo_index_empty demo_index_safe(2), of "\<lambda>_. []"]
  unfolding demo_index_spec demo_index_ids Let_def id_apply by blast

theorem document_search_empty_witness:
  "fold (spec_step demo_doc_decoders) demo_index_session Map.empty ''doc:p'' = Some ''plan'' \<and>
   fst (registerRoutes demo_doc_env demo_doc_decoders (\<lambda>_. []) indexed_service
      (doc_request ''GET'' [] (\<lambda>k. if k = ''keyword'' then ''plan'' else [])) demo_index_end) =
    Ok (JSONReply 200 (Response 200 ''success'' (DocPage [] 1 50 0 0)))"
proof -
  let ?r = "doc_request ''GET'' [] (\<lambda>k. if k = ''keyword'' then ''plan'' else [])"
  have disjoint: "demo_index_map (''doc:'' @ i) = None" if "demo_index_map (''user:'' @ i) \<noteq> None" for i
    using that by (auto split: if_splits)
  have r: "rq_path ?r = ''/api/documents''" "rq_method ?r = ''GET''" "rq_query ?r ''keyword'' = ''plan''"
    "parsePagination (rq_query ?r) = (1, 50)"
    by (simp_all add: doc_request_def parsePagination_def ParseInt10_def)
  have found: "fst (search_rows kv_milvus usersHotCollectionName e k p (st_milvus demo_index_end)) = Inr ([''a''] # [])" for e k p
    by (simp add: kv_milvus_def demo_milvus_def demo_index_users)
  have "fst (registerRoutes demo_doc_env demo_doc_decoders (\<lambda>_. []) indexed_service ?r demo_index_end) =
      Ok (JSONReply 200 (Response 200 ''success'' (DocPage [] 1 50 0 0)))"
    by (rule document_search_empty [OF indexed_service_laws kv_milvus_laws, OF demo_index_empty demo_index_safe(1) refl
          demo_index_spec [symmetric] disjoint r(1-3) _ found _ r(4)]) (simp_all add: wrap64_def)
  then show ?thesis by (simp add: demo_index_spec)
qed

end
