(* ===== verification/AdminAudit.thy ===== *)
theory AdminAudit
  imports AdminServer
begin

text \<open>
  The audit log of \<open>internal/admin/service.go\<close>, a Redis list with the newest entry first: which requests
  of a session leave an entry, and what GET /api/audit-logs then shows.
\<close>

section \<open>What Redis documents of the list commands\<close>

text \<open>\<open>LRANGE key 0 stop\<close>: a negative stop counts from the end.\<close>

definition lrange0 :: "int \<Rightarrow> 'a list \<Rightarrow> 'a list" where
  "lrange0 stop xs = take (nat (if stop < 0 then int (length xs) + stop + 1 else stop + 1)) xs"

definition log_laws :: "'r admin_exec \<Rightarrow> ('r \<Rightarrow> string list) \<Rightarrow> bool" where
  "log_laws exec logs \<longleftrightarrow>
     (\<forall>c s. auditLogsKey \<notin> writes c \<longrightarrow> logs (snd (exec c s)) = logs s) \<and>
     (\<forall>x s. logs (snd (exec (ALPush auditLogsKey x) s)) = x # logs s) \<and>
     (\<forall>s. fst (exec (ALLen auditLogsKey) s) = RInt (int (length (logs s)))) \<and>
     (\<forall>stop s. fst (exec (ALRange auditLogsKey 0 stop) s) = RList (lrange0 stop (logs s)))"

section \<open>The entries a session should leave\<close>

text \<open>What a request asks to change: the action, target and message of its entry.\<close>

definition change :: "admin_decoders \<Rightarrow> admin_request \<Rightarrow> (string \<times> string \<times> string) option" where
  "change dec r =
     (if rq_path r = ''/api/users'' \<and> rq_method r = ''POST'' then
        (case dec_user dec (rq_body r) of Inl _ \<Rightarrow> None
         | Inr req \<Rightarrow> Some (''user_created'', cu_id req, ''created user: '' @ cu_name req))
      else if rq_path r = ''/api/users'' \<and> rq_method r = ''DELETE'' then
        (case dec_id dec (rq_body r) of Inl _ \<Rightarrow> None | Inr i \<Rightarrow> Some (''user_deleted'', i, ''deleted user: '' @ i))
      else if rq_path r = ''/api/documents'' \<and> rq_method r = ''POST'' then
        (case dec_doc dec (rq_body r) of Inl _ \<Rightarrow> None
         | Inr req \<Rightarrow> Some (''doc_created'', cd_id req, ''created document: '' @ cd_title req))
      else if rq_path r = ''/api/documents'' \<and> rq_method r = ''DELETE'' then
        (case dec_id dec (rq_body r) of Inl _ \<Rightarrow> None | Inr i \<Rightarrow> Some (''doc_deleted'', i, ''deleted document: '' @ i))
      else if rq_path r = ''/api/permissions'' \<and> rq_method r = ''POST'' then
        (case dec_perm dec (rq_body r) of Inl _ \<Rightarrow> None
         | Inr req \<Rightarrow> Some (''permission_granted'', pr_user_id req @ '':'' @ pr_doc_id req,
             ''granted '' @ pr_user_id req @ '' access to '' @ pr_doc_id req))
      else if rq_path r = ''/api/permissions'' \<and> rq_method r = ''DELETE'' then
        (case dec_perm dec (rq_body r) of Inl _ \<Rightarrow> None
         | Inr req \<Rightarrow> Some (''permission_revoked'', pr_user_id req @ '':'' @ pr_doc_id req,
             ''revoked '' @ pr_user_id req @ '' access to '' @ pr_doc_id req))
      else None)"

fun accepted :: "(go_err, admin_response) outcome \<Rightarrow> bool" where
  "accepted (Ok (Response code msg d)) \<longleftrightarrow> code = 200"
| "accepted _ \<longleftrightarrow> False"

fun reply_accepted :: "(unit, http_reply) outcome \<Rightarrow> bool" where
  "reply_accepted (Ok (JSONReply n (Response code msg d))) \<longleftrightarrow> code = 200"
| "reply_accepted _ \<longleftrightarrow> False"

definition log_entry :: "admin_env \<Rightarrow> string \<Rightarrow> string \<Rightarrow> string \<Rightarrow> AuditLog" where
  "log_entry env action target message =
     \<lparr>al_id = 0, al_action = action, al_target = target, al_message = message, al_timestamp = now_rfc3339nano env\<rparr>"

definition new_records ::
  "admin_decoders \<Rightarrow> admin_env \<Rightarrow> admin_request \<Rightarrow> (unit, http_reply) outcome \<Rightarrow> AuditLog list" where
  "new_records dec env r reply =
     (case change dec r of
        Some (a, t, m) \<Rightarrow> if reply_accepted reply then [log_entry env a t m] else []
      | None \<Rightarrow> [])"

text \<open>The records of a session, oldest first.\<close>

fun audit_trail ::
  "admin_decoders \<Rightarrow> (go_err \<Rightarrow> string) \<Rightarrow> ('e, 'm, 'r) admin_service \<Rightarrow>
   (admin_env \<times> admin_request) list \<Rightarrow> ('m, 'r) admin_state \<Rightarrow> AuditLog list" where
  "audit_trail dec err_text svc [] s = []"
| "audit_trail dec err_text svc ((env, r) # reqs) s =
     (case registerRoutes env dec err_text svc r s of
        (reply, s) \<Rightarrow> new_records dec env r reply @ audit_trail dec err_text svc reqs s)"

text \<open>The limit \<open>GetAuditLogs\<close> reads of its query.\<close>

definition audit_limit :: "admin_env \<Rightarrow> (string \<Rightarrow> string) \<Rightarrow> int" where
  "audit_limit env query =
     (let l = query ''limit'' in
      if l \<noteq> [] then (case sscanf_int env l of Some n \<Rightarrow> n | None \<Rightarrow> 50) else 50)"

text \<open>The list after an entry has been pushed, or dropped because it cannot be marshalled.\<close>

definition pushed :: "admin_env \<Rightarrow> AuditLog \<Rightarrow> string list \<Rightarrow> string list" where
  "pushed env e xs = (case marshal_log env e of Inl _ \<Rightarrow> xs | Inr x \<Rightarrow> x # xs)"

abbreviation log_of :: "('r \<Rightarrow> string list) \<Rightarrow> ('m, 'r) admin_state \<Rightarrow> string list" where
  "log_of logs s \<equiv> logs (st_redis s)"

lemma other_keys [simp]:
  "auditLogsKey \<noteq> ''user:'' @ i" "auditLogsKey \<noteq> ''doc:'' @ i" "auditLogsKey \<noteq> permission_key req"
  by (simp_all add: auditLogsKey_def permission_key_def)

lemmas other_keys_cons [simp] = other_keys(1,2) [unfolded append.simps]

locale admin_audit = admin_redis svc view
  for svc :: "('e, 'm, 'r) admin_service" and view :: "'r \<Rightarrow> redis_view" +
  fixes logs :: "'r \<Rightarrow> string list"
  assumes log: "log_laws (adm_redis svc) logs"
begin

lemma run_log: "auditLogsKey \<notin> writes c \<Longrightarrow> log_of logs (snd (run_cmd svc c s)) = log_of logs s"
  using log by (simp add: log_laws_def run_cmd_def case_prod_beta)

end

sublocale admin_audit \<subseteq> logged: redis_observer svc "log_of logs"
  by unfold_locales (simp_all add: run_log)

context admin_audit
begin

lemma run_log_writes [simp]:
  "auditLogsKey \<noteq> k \<Longrightarrow> log_of logs (snd (run_cmd svc (ASet k x) s)) = log_of logs s"
  "auditLogsKey \<noteq> k \<Longrightarrow> log_of logs (snd (run_cmd svc (ADel k) s)) = log_of logs s"
  "auditLogsKey \<noteq> k \<Longrightarrow> log_of logs (snd (run_cmd svc (ASAdd k x) s)) = log_of logs s"
  "auditLogsKey \<noteq> k \<Longrightarrow> log_of logs (snd (run_cmd svc (ASRem k x) s)) = log_of logs s"
  by (simp_all add: run_log)

lemma add_log: "log_of logs (snd (addAuditLog env svc a t m s)) = pushed env (log_entry env a t m) (log_of logs s)"
  using log by (simp add: addAuditLog_def pushed_def log_entry_def log_laws_def run_cmd_def case_prod_beta split: sum.split)

lemma delete_keys_log:
  "\<forall>k\<in>set ks. auditLogsKey \<noteq> k \<Longrightarrow> log_of logs (delete_keys svc ks s) = log_of logs s"
  by (induction ks arbitrary: s) simp_all

text \<open>Each handler that writes: one entry when it answers 200, none otherwise.\<close>

lemma user_logs:
  "log_of logs (snd (CreateUser env svc (Inr req) s)) =
    (if accepted (fst (CreateUser env svc (Inr req) s))
     then pushed env (log_entry env ''user_created'' (cu_id req) (''created user: '' @ cu_name req)) (log_of logs s)
     else log_of logs s)"
  by (simp add: CreateUser_def Let_def case_prod_beta add_log split: sum.split option.split del: append.simps append_Cons)

lemma doc_logs:
  "log_of logs (snd (CreateDocument env svc (Inr req) s)) =
    (if accepted (fst (CreateDocument env svc (Inr req) s))
     then pushed env (log_entry env ''doc_created'' (cd_id req) (''created document: '' @ cd_title req)) (log_of logs s)
     else log_of logs s)"
  by (simp add: CreateDocument_def Let_def case_prod_beta add_log split: sum.split option.split del: append.simps append_Cons)

lemma delete_doc_logs:
  "log_of logs (snd (DeleteDocument env svc (Inr i) s)) =
    (if accepted (fst (DeleteDocument env svc (Inr i) s))
     then pushed env (log_entry env ''doc_deleted'' i (''deleted document: '' @ i)) (log_of logs s)
     else log_of logs s)"
  by (simp add: DeleteDocument_def Let_def case_prod_beta add_log split: sum.split option.split del: append.simps append_Cons)

lemma permission_logs:
  "log_of logs (snd (GrantPermission env svc (Inr req) s)) =
    (if accepted (fst (GrantPermission env svc (Inr req) s))
     then pushed env (log_entry env ''permission_granted'' (pr_user_id req @ '':'' @ pr_doc_id req)
       (''granted '' @ pr_user_id req @ '' access to '' @ pr_doc_id req)) (log_of logs s)
     else log_of logs s)"
  "log_of logs (snd (RevokePermission env svc (Inr req) s)) =
    (if accepted (fst (RevokePermission env svc (Inr req) s))
     then pushed env (log_entry env ''permission_revoked'' (pr_user_id req @ '':'' @ pr_doc_id req)
       (''revoked '' @ pr_user_id req @ '' access to '' @ pr_doc_id req)) (log_of logs s)
     else log_of logs s)"
  by (simp_all add: GrantPermission_def RevokePermission_def Let_def case_prod_beta add_log split: option.split del: append.simps append_Cons)

lemma delete_user_logs:
  "log_of logs (snd (DeleteUser env svc (Inr i) s)) =
    (if accepted (fst (DeleteUser env svc (Inr i) s))
     then pushed env (log_entry env ''user_deleted'' i (''deleted user: '' @ i)) (log_of logs s)
     else log_of logs s)"
proof -
  obtain r0 s0 where d: "run_cmd svc (ADel (''user:'' @ i)) s = (r0, s0)" by fastforce
  have s0: "log_of logs s0 = log_of logs s" by (metis run_log_writes(2) other_keys(1) d snd_conv)
  show ?thesis
  proof (cases "reply_err r0")
    case None
    let ?s1 = "case adm_search svc of None \<Rightarrow> s0
      | Some (senv, cl) \<Rightarrow> s0\<lparr>st_milvus := snd (search_DeleteUser cl i (st_milvus s0))\<rparr>"
    have s1: "log_of logs ?s1 = log_of logs s" by (simp add: s0 split: option.split)
    obtain r2 s2 where k: "run_cmd svc (AKeys (''acl:*:'' @ i)) ?s1 = (r2, s2)" by fastforce
    have s2: "log_of logs s2 = log_of logs s" by (metis logged.reads_observed(3) k snd_conv s1)
    have "literal ''acl:''" by (simp add: literal_def star_pattern_def)
    from run_keys_prefix [OF this, of "''*:'' @ i" ?s1] k obtain ks where
      ks: "r2 = RList ks" "\<forall>k\<in>set ks. prefix ''acl:'' k" by auto
    have "\<forall>k\<in>set ks. auditLogsKey \<noteq> k" using ks(2) by (auto simp: auditLogsKey_def)
    then have "log_of logs (delete_keys svc ks s2) = log_of logs s" using s2 by (simp add: delete_keys_log)
    moreover have "DeleteUser env svc (Inr i) s = (Ok (Response 200 ''user deleted'' NoData),
        snd (addAuditLog env svc ''user_deleted'' i (''deleted user: '' @ i) (delete_keys svc ks s2)))"
      using d k None by (simp add: DeleteUser_def Let_def ks(1))
    ultimately show ?thesis by (simp add: add_log)
  next
    case (Some e)
    then show ?thesis using d s0 by (simp add: DeleteUser_def)
  qed
qed

text \<open>One request, and a session.\<close>

lemma accepted_json:
  "reply_accepted (fst (withJSON err_text h)) = accepted (fst h)"
  by (cases "(err_text, h)" rule: withJSON.cases; cases "fst h" rule: accepted.cases) auto

lemma failed_bodies:
  "CreateUser env svc (Inl e) s = (Fail e, s)" "DeleteUser env svc (Inl e) s = (Fail e, s)"
  "CreateDocument env svc (Inl e) s = (Fail e, s)" "DeleteDocument env svc (Inl e) s = (Fail e, s)"
  "GrantPermission env svc (Inl e) s = (Fail e, s)" "RevokePermission env svc (Inl e) s = (Fail e, s)"
  by (simp_all add: CreateUser_def DeleteUser_def CreateDocument_def DeleteDocument_def GrantPermission_def RevokePermission_def)

lemma step_logs:
  "log_of logs (snd (registerRoutes env dec err_text svc r s)) =
    fold (pushed env) (new_records dec env r (fst (registerRoutes env dec err_text svc r s))) (log_of logs s)"
proof -
  consider "rq_path r = ''/api/users''" | "rq_path r = ''/api/documents''" | "rq_path r = ''/api/permissions''"
    | "rq_path r \<noteq> ''/api/users''" "rq_path r \<noteq> ''/api/documents''" "rq_path r \<noteq> ''/api/permissions''" by blast
  then show ?thesis
  proof cases
    case 1
    then show ?thesis
      by (cases "dec_user dec (rq_body r)"; cases "dec_id dec (rq_body r)")
        (simp_all add: registerRoutes_def by_method_def new_records_def change_def accepted_json failed_bodies
          user_logs delete_user_logs del: append.simps append_Cons)
  next
    case 2
    then show ?thesis
      by (cases "dec_doc dec (rq_body r)"; cases "dec_id dec (rq_body r)")
        (simp_all add: registerRoutes_def by_method_def new_records_def change_def accepted_json failed_bodies
          doc_logs delete_doc_logs del: append.simps append_Cons)
  next
    case 3
    then show ?thesis
      by (cases "dec_perm dec (rq_body r)")
        (simp_all add: registerRoutes_def by_method_def new_records_def change_def accepted_json failed_bodies
          permission_logs del: append.simps append_Cons)
  next
    case 4
    then show ?thesis by (simp add: registerRoutes_def new_records_def change_def)
  qed
qed

lemma session_logs:
  assumes "\<forall>e\<in>set (audit_trail dec err_text svc reqs s). \<forall>(env, r)\<in>set reqs. marshal_log env e = Inr (js e)"
  shows "log_of logs (admin_session dec err_text svc reqs s) =
    rev (map js (audit_trail dec err_text svc reqs s)) @ log_of logs s"
  using assms
proof (induction reqs arbitrary: s)
  case (Cons x reqs)
  obtain env r where x: "x = (env, r)" by (cases x)
  obtain reply s1 where r: "registerRoutes env dec err_text svc r s = (reply, s1)" by fastforce
  have push: "fold (pushed env) es xs = rev (map js es) @ xs" if "\<forall>e\<in>set es. marshal_log env e = Inr (js e)" for es xs
    using that by (induction es arbitrary: xs) (simp_all add: pushed_def)
  have "log_of logs s1 = rev (map js (new_records dec env r reply)) @ log_of logs s"
    using step_logs [of env dec err_text r s] push Cons.prems x r by simp
  moreover have "log_of logs (admin_session dec err_text svc reqs s1) =
      rev (map js (audit_trail dec err_text svc reqs s1)) @ log_of logs s1"
    using Cons.prems x r by (intro Cons.IH) simp
  ultimately show ?case using x r by simp
qed simp

text \<open>What GET /api/audit-logs reads of the query, and shows.\<close>

lemma get_logs:
  "fst (GetAuditLogs env svc query s) = Ok (Response 200 ''success''
    (LogData (int (length (log_of logs s))) (audit_limit env query)
      (decode_logs env 0 (lrange0 (wrap64 (audit_limit env query - 1)) (log_of logs s)))))"
proof -
  have len: "fst (run_cmd svc (ALLen auditLogsKey) s) = RInt (int (length (log_of logs s)))"
    and range: "fst (run_cmd svc (ALRange auditLogsKey 0 stop) u) = RList (lrange0 stop (log_of logs u))" for stop u
    using log by (simp_all add: log_laws_def run_cmd_def case_prod_beta)
  show ?thesis
    by (simp add: GetAuditLogs_def audit_limit_def Let_def len range case_prod_beta)
qed

end

text \<open>The entries of a page, numbered from \<open>k\<close>.\<close>

fun numbered :: "int \<Rightarrow> AuditLog list \<Rightarrow> AuditLog list" where
  "numbered k [] = []"
| "numbered k (e # es) = e\<lparr>al_id := k\<rparr> # numbered (k + 1) es"

lemma decode_numbered:
  "\<forall>e\<in>set es. unmarshal_log env (js e) = Inr e \<Longrightarrow> decode_logs env k (map js es) = numbered (k + 1) es"
  by (induction es arbitrary: k) simp_all

lemma lrange0_limit:
  "0 \<le> n \<Longrightarrow> n < 2 ^ 63 \<Longrightarrow> lrange0 (wrap64 (n - 1)) xs = (if n = 0 then xs else take (nat n) xs)"
  by (simp add: lrange0_def wrap64_id)

section \<open>A concrete server\<close>

definition log_server :: "((string \<times> string) list \<times> string list) admin_exec" where
  "log_server c s =
     (case s of (kv, l) \<Rightarrow>
        (case c of
           ALPush k x \<Rightarrow> (RInt (int (length l) + 1), (kv, if k = auditLogsKey then x # l else l))
         | ALLen k \<Rightarrow> (RInt (int (length l)), s)
         | ALRange k start stop \<Rightarrow> (RList (lrange0 stop l), s)
         | _ \<Rightarrow> (case kv_server c kv of (r, kv) \<Rightarrow> (r, (kv, l)))))"

abbreviation log_view :: "(string \<times> string) list \<times> string list \<Rightarrow> redis_view" where
  "log_view s \<equiv> kv_view (fst s)"

lemma log_server_laws: "log_laws log_server snd"
proof -
  have "snd (snd (log_server c s)) = snd s" if "auditLogsKey \<notin> writes c" for c s
    using that by (cases c; cases s) (simp_all add: log_server_def case_prod_beta)
  then show ?thesis by (simp add: log_laws_def) (simp add: log_server_def case_prod_beta)
qed

lemma log_server_store: "admin_store_laws log_server log_view"
proof -
  have data: "fst (snd (log_server c s)) = snd (kv_server c (fst s))" for c s
    by (cases c; cases s) (simp_all add: log_server_def kv_server_def case_prod_beta)
  have reply: "fst (log_server (AExists k) s) = fst (kv_server (AExists k) (fst s))"
    "fst (log_server (AGet k) s) = fst (kv_server (AGet k) (fst s))"
    "fst (log_server (ASet k x) s) = fst (kv_server (ASet k x) (fst s))"
    "fst (log_server (ADel k) s) = fst (kv_server (ADel k) (fst s))"
    "fst (log_server (AKeys k) s) = fst (kv_server (AKeys k) (fst s))" for k x s
    by (cases s; simp add: log_server_def case_prod_beta)+
  note laws = kv_store_laws [unfolded admin_store_laws_def]
  note other = laws [THEN conjunct1, rule_format] and laws = laws [THEN conjunct2]
  note exists = laws [THEN conjunct1, rule_format] and laws = laws [THEN conjunct2]
  note get = laws [THEN conjunct1, rule_format] and laws = laws [THEN conjunct2]
  note set = laws [THEN conjunct1, rule_format] and laws = laws [THEN conjunct2]
  note del = laws [THEN conjunct1, rule_format] and keys = laws [THEN conjunct2, rule_format]
  show ?thesis unfolding admin_store_laws_def data reply
    by (intro conjI allI impI; (rule set [THEN conjunct1] set [THEN conjunct2] del [THEN conjunct1] del [THEN conjunct2] keys
        | rule other, assumption | rule exists, assumption | rule get, assumption))
qed

abbreviation log_service :: "(unit, unit, (string \<times> string) list \<times> string list) admin_service" where
  "log_service \<equiv> \<lparr>adm_redis = log_server, adm_search = None\<rparr>"

interpretation ka: admin_audit log_service log_view snd
  by unfold_locales (simp_all add: log_server_laws log_server_store)

section \<open>Properties\<close>

text \<open>
  C17: the audit log.  After any session of HTTP requests that starts with an empty log, GET
  /api/audit-logs shows the number of all changes the session was answered 200 for, and of these the
  newest ones, newest first and numbered from 1, up to the limit of the query (50 by default): each
  accepted change has left exactly one entry with its action, target and time, and nothing else has.  A
  limit of 0 shows all of them.
\<close>

theorem audit_log_complete:
  assumes "admin_store_laws (adm_redis svc) view" and "log_laws (adm_redis svc) logs" and "logs (st_redis s) = []"
    and "es = audit_trail dec err_text svc reqs s"
    and "\<forall>e\<in>set es. \<forall>(env', r')\<in>set reqs. marshal_log env' e = Inr (js e)"
    and "\<forall>e\<in>set es. unmarshal_log env (js e) = Inr e"
    and "rq_path r = ''/api/audit-logs''"
    and "audit_limit env (rq_query r) = n"
    and "0 \<le> n" and "n < 2 ^ 63"
  shows "fst (registerRoutes env dec err_text svc r (admin_session dec err_text svc reqs s)) =
    Ok (JSONReply 200 (Response 200 ''success''
      (LogData (int (length es)) n (numbered 1 (if n = 0 then rev es else take (nat n) (rev es))))))"
proof -
  have A: "admin_audit svc view logs"
    using assms(1,2) by (simp add: admin_audit_def admin_redis_def admin_audit_axioms_def)
  let ?s = "admin_session dec err_text svc reqs s"
  have l: "logs (st_redis ?s) = map js (rev es)"
    using admin_audit.session_logs [OF A, of dec err_text reqs s js] assms(3,4,5) by (simp add: rev_map)
  let ?shown = "if n = 0 then rev es else take (nat n) (rev es)"
  have "lrange0 (wrap64 (n - 1)) (map js (rev es)) = map js ?shown"
    by (simp add: lrange0_limit [OF assms(9,10)] take_map)
  moreover have "set ?shown \<subseteq> set es" using set_take_subset [of "nat n" "rev es"] by simp
  then have "decode_logs env 0 (map js ?shown) = numbered (0 + 1) ?shown"
    using assms(6) by (intro decode_numbered) blast
  ultimately have "fst (GetAuditLogs env svc (rq_query r) ?s) =
      Ok (Response 200 ''success'' (LogData (int (length es)) n (numbered 1 ?shown)))"
    using admin_audit.get_logs [OF A, of env "rq_query r" ?s] l assms(8) by simp
  then show ?thesis using assms(7) by (simp add: registerRoutes_def withJSON_result)
qed

definition demo_audit_env :: admin_env where
  "demo_audit_env = demo_users\<lparr>marshal_log := (\<lambda>e. Inr (al_action e)),
     unmarshal_log := (\<lambda>x. Inr (if x = ''user_created''
       then \<lparr>al_id = 0, al_action = x, al_target = ''a'', al_message = ''created user: adam'', al_timestamp = []\<rparr>
       else \<lparr>al_id = 0, al_action = x, al_target = ''b'', al_message = ''deleted user: b'', al_timestamp = []\<rparr>))\<rparr>"

abbreviation demo_audit_session where
  "demo_audit_session \<equiv>
     [(demo_audit_env, user_request ''POST'' ''adam''), (demo_audit_env, user_request ''POST'' ''anna''),
      (demo_audit_env, user_request ''DELETE'' ''b'')]"

abbreviation demo_audit_start where
  "demo_audit_start \<equiv> \<lparr>st_redis = ([] :: (string \<times> string) list, [] :: string list), st_milvus = ()\<rparr>"

lemma demo_audit_trail:
  "audit_trail demo_decoders (\<lambda>_. []) log_service demo_audit_session demo_audit_start =
    [log_entry demo_audit_env ''user_created'' ''a'' ''created user: adam'',
     log_entry demo_audit_env ''user_deleted'' ''b'' ''deleted user: b'']"
  by (simp add: demo_audit_env_def demo_admin_defs registerRoutes_def by_method_def new_records_def change_def
      CreateUser_def DeleteUser_def run_cmd_def log_server_def kv_server_def addAuditLog_def auditLogsKey_def Let_def)

theorem audit_log_complete_witness:
  "fst (registerRoutes demo_audit_env demo_decoders (\<lambda>_. []) log_service
     \<lparr>rq_method = ''GET'', rq_path = ''/api/audit-logs'', rq_query = (\<lambda>_. []), rq_body = []\<rparr>
     (admin_session demo_decoders (\<lambda>_. []) log_service demo_audit_session demo_audit_start)) =
   Ok (JSONReply 200 (Response 200 ''success'' (LogData 2 50
     [\<lparr>al_id = 1, al_action = ''user_deleted'', al_target = ''b'', al_message = ''deleted user: b'', al_timestamp = []\<rparr>,
      \<lparr>al_id = 2, al_action = ''user_created'', al_target = ''a'', al_message = ''created user: adam'', al_timestamp = []\<rparr>])))"
proof -
  have laws: "admin_store_laws (adm_redis log_service) log_view" "log_laws (adm_redis log_service) snd"
    by (simp_all add: log_server_store log_server_laws)
  let ?r = "\<lparr>rq_method = ''GET'', rq_path = ''/api/audit-logs'', rq_query = (\<lambda>_. []), rq_body = []\<rparr>"
  let ?es = "[log_entry demo_audit_env ''user_created'' ''a'' ''created user: adam'',
    log_entry demo_audit_env ''user_deleted'' ''b'' ''deleted user: b'']"
  have m: "\<forall>e\<in>set ?es. \<forall>(env', r')\<in>set demo_audit_session. marshal_log env' e = Inr (al_action e)"
    by (simp add: demo_audit_env_def)
  have u: "\<forall>e\<in>set ?es. unmarshal_log demo_audit_env (al_action e) = Inr e"
    by (simp add: demo_audit_env_def log_entry_def demo_users_def demo_admin_def)
  have q: "snd (st_redis demo_audit_start) = []" "rq_path ?r = ''/api/audit-logs''" "audit_limit demo_audit_env (rq_query ?r) = 50"
    by (simp_all add: audit_limit_def)
  have n: "(0 :: int) \<le> 50" "(50 :: int) < 2 ^ 63" by simp_all
  from audit_log_complete [OF laws q(1) demo_audit_trail [symmetric] m u q(2,3) n]
  show ?thesis by (simp add: log_entry_def demo_audit_env_def demo_users_def demo_admin_def del: admin_session.simps)
qed

end
