(* ===== verification/AdminPermissions.thy ===== *)
theory AdminPermissions
  imports AdminServer
begin

text \<open>
  The permissions of \<open>internal/admin/service.go\<close>, one Redis set per tenant and user: what a session of
  requests leaves in them, and what GET /api/permissions then shows.
\<close>

section \<open>Keys\<close>

lemma Split_Cons:
  "Split c s = p # ps \<Longrightarrow> c \<notin> set p \<and> (case ps of [] \<Rightarrow> s = p | _ \<Rightarrow> \<exists>r. s = p @ c # r \<and> Split c r = ps)"
proof (induction s arbitrary: p)
  case (Cons x s)
  show ?case
  proof (cases "x = c")
    case True
    then show ?thesis using Cons.prems by (cases ps) auto
  next
    case False
    obtain q where q: "Split c s = q # ps" "p = x # q" using Cons.prems False by (cases "Split c s") auto
    from Cons.IH [OF q(1)] show ?thesis using q(2) False by (auto split: list.splits)
  qed
qed auto

lemma Split_parts:
  "c \<notin> set p \<Longrightarrow> Split c p = [p]" "c \<notin> set p \<Longrightarrow> Split c (p @ c # r) = p # Split c r"
  by (induction p) auto

definition perm_key :: "string \<times> string \<Rightarrow> string" where
  "perm_key = (\<lambda>(t, u). ''acl:'' @ t @ '':'' @ u)"

lemma Split_perm_key:
  "Split (CHR '':'') k = [''acl'', t, u] \<longleftrightarrow> k = perm_key (t, u) \<and> no_colon t \<and> no_colon u"
proof
  assume "Split (CHR '':'') k = [''acl'', t, u]"
  from Split_Cons [OF this] obtain r where r: "k = ''acl'' @ CHR '':'' # r" "Split (CHR '':'') r = [t, u]" by auto
  from Split_Cons [OF r(2)] obtain r' where r': "r = t @ CHR '':'' # r'" "Split (CHR '':'') r' = [u]" "no_colon t"
    by (auto simp: no_colon_def)
  from Split_Cons [OF r'(2)] have "r' = u" "no_colon u" by (simp_all add: no_colon_def)
  with r'(3) show "k = perm_key (t, u) \<and> no_colon t \<and> no_colon u" by (simp add: r(1) r'(1) perm_key_def)
next
  assume k: "k = perm_key (t, u) \<and> no_colon t \<and> no_colon u"
  have "Split (CHR '':'') (''acl'' @ CHR '':'' # t @ CHR '':'' # u) = ''acl'' # Split (CHR '':'') (t @ CHR '':'' # u)"
    by (rule Split_parts(2)) simp
  also have "\<dots> = [''acl'', t, u]" using k by (simp add: Split_parts no_colon_def)
  finally show "Split (CHR '':'') k = [''acl'', t, u]" using k by (simp add: perm_key_def)
qed

text \<open>Identifiers like UUIDs: without a colon and without the special letters of a \<open>KEYS\<close> pattern.\<close>

definition plain :: "string \<Rightarrow> bool" where
  "plain x \<longleftrightarrow> no_colon x \<and> literal x"

lemma plainD: "plain x \<Longrightarrow> no_colon x" "plain x \<Longrightarrow> literal x"
  by (simp_all add: plain_def)

lemma glob_exact: "CHR ''*'' \<notin> set l \<Longrightarrow> glob l s \<longleftrightarrow> s = l"
proof (induction l arbitrary: s)
  case (Cons c l)
  then have "c \<noteq> CHR ''*''" by auto
  then show ?case using Cons by (cases s) auto
qed simp

lemma glob_any: "glob (CHR ''*'' # p) s \<longleftrightarrow> (\<exists>x y. s = x @ y \<and> glob p y)"
proof
  show "glob (CHR ''*'' # p) s \<Longrightarrow> \<exists>x y. s = x @ y \<and> glob p y"
  proof (induction s)
    case (Cons a s)
    then have "glob p (a # s) \<or> glob (CHR ''*'' # p) s" by (simp only: glob.simps if_True list.case)
    with Cons.IH show ?case by (metis append_Cons append_Nil)
  qed simp
next
  show "\<exists>x y. s = x @ y \<and> glob p y \<Longrightarrow> glob (CHR ''*'' # p) s" by (blast intro: glob_star)
qed

lemma glob_all: "glob ''*'' x"
  unfolding glob_any by simp

lemma glob_user:
  assumes "no_colon u" and "plain i"
  shows "glob (''acl:*:'' @ i) (perm_key (t, u)) \<longleftrightarrow> u = i"
proof -
  have i: "CHR ''*'' \<notin> set (CHR '':'' # i)" using assms(2) by (auto simp: plain_def literal_def)
  have "glob (''acl:*:'' @ i) (perm_key (t, u)) \<longleftrightarrow> (\<exists>x. t @ CHR '':'' # u = x @ CHR '':'' # i)"
  proof -
    have "CHR ''*'' \<notin> set ''acl:''" by simp
    from glob_literal [OF this, of "CHR ''*'' # CHR '':'' # i" "t @ CHR '':'' # u"] show ?thesis
      unfolding glob_any glob_exact [OF i] by (simp add: perm_key_def del: glob.simps)
  qed
  moreover have "u = i" if "t @ CHR '':'' # u = x @ CHR '':'' # i" for x
  proof -
    have "rev u @ CHR '':'' # rev t = rev i @ CHR '':'' # rev x"
      using arg_cong [OF that, of rev] by simp
    moreover have "no_colon (rev u)" "no_colon (rev i)" using assms by (simp_all add: no_colon_def plain_def)
    ultimately show "u = i" by (simp add: split_colon)
  qed
  ultimately show ?thesis by auto
qed

lemma glob_tenant:
  assumes "no_colon t" and "plain tenant"
  shows "glob (''acl:'' @ tenant @ '':*'') (perm_key (t, u)) \<longleftrightarrow> t = tenant"
proof -
  have l: "CHR ''*'' \<notin> set (''acl:'' @ tenant @ '':'')" using assms(2) by (auto simp: plain_def literal_def)
  have "glob ((''acl:'' @ tenant @ '':'') @ ''*'') k \<longleftrightarrow> prefix (''acl:'' @ tenant @ '':'') k" for k
    using glob_prefix [OF _ l] glob_literal [OF l, of "''*''"] glob_all unfolding prefix_def by metis
  moreover have "prefix (''acl:'' @ tenant @ '':'') (perm_key (t, u)) \<longleftrightarrow> t = tenant"
    using split_colon [OF assms(1) plainD(1) [OF assms(2)]] by (auto simp: perm_key_def prefix_def)
  ultimately show ?thesis by (simp del: glob.simps)
qed

section \<open>What Redis documents of the set commands\<close>

definition perm_laws :: "'r admin_exec \<Rightarrow> ('r \<Rightarrow> redis_view) \<Rightarrow> bool" where
  "perm_laws exec view \<longleftrightarrow>
     (\<forall>k x s A. key_value (view s) k = (None, A, Map.empty) \<longrightarrow>
        (\<exists>n. fst (exec (ASAdd k x) s) = RInt n) \<and>
        key_value (view (snd (exec (ASAdd k x) s))) k = (None, insert x A, Map.empty)) \<and>
     (\<forall>k x s A. key_value (view s) k = (None, A, Map.empty) \<longrightarrow>
        (\<exists>n. fst (exec (ASRem k x) s) = RInt n) \<and>
        key_value (view (snd (exec (ASRem k x) s))) k = (None, A - {x}, Map.empty)) \<and>
     (\<forall>k s A. key_value (view s) k = (None, A, Map.empty) \<longrightarrow>
        (\<exists>xs. fst (exec (ASMembers k) s) = RList xs \<and> distinct xs \<and> set xs = A)) \<and>
     (\<forall>pat s ks. fst (exec (AKeys pat) s) = RList ks \<and> star_pattern pat \<longrightarrow>
        (\<forall>k\<in>set ks. glob pat k \<and> (holds_key (view s) k \<or> k = auditLogsKey)))"

section \<open>What a session grants\<close>

text \<open>The documents of each tenant and user.\<close>

type_synonym permissions = "string \<times> string \<Rightarrow> string set"

definition perm_step :: "admin_decoders \<Rightarrow> admin_request \<Rightarrow> permissions \<Rightarrow> permissions" where
  "perm_step dec r m =
     (if rq_path r = ''/api/permissions'' \<and> rq_method r = ''POST'' then
        (case dec_perm dec (rq_body r) of Inl _ \<Rightarrow> m
         | Inr req \<Rightarrow> let p = (pr_tenant_id req, pr_user_id req) in m(p := insert (pr_doc_id req) (m p)))
      else if rq_path r = ''/api/permissions'' \<and> rq_method r = ''DELETE'' then
        (case dec_perm dec (rq_body r) of Inl _ \<Rightarrow> m
         | Inr req \<Rightarrow> let p = (pr_tenant_id req, pr_user_id req) in m(p := m p - {pr_doc_id req}))
      else if rq_path r = ''/api/users'' \<and> rq_method r = ''DELETE'' then
        (case dec_id dec (rq_body r) of Inl _ \<Rightarrow> m | Inr i \<Rightarrow> (\<lambda>p. if snd p = i then {} else m p))
      else m)"

definition plain_request :: "admin_decoders \<Rightarrow> admin_request \<Rightarrow> bool" where
  "plain_request dec r \<longleftrightarrow>
     (rq_path r = ''/api/permissions'' \<longrightarrow>
        (case dec_perm dec (rq_body r) of Inl _ \<Rightarrow> True
         | Inr req \<Rightarrow> plain (pr_tenant_id req) \<and> plain (pr_user_id req))) \<and>
     (rq_path r = ''/api/users'' \<and> rq_method r = ''DELETE'' \<longrightarrow>
        (case dec_id dec (rq_body r) of Inl _ \<Rightarrow> True | Inr i \<Rightarrow> plain i))"

text \<open>The sets in Redis, and the map as such sets.\<close>

definition grants ::
  "('r \<Rightarrow> redis_view) \<Rightarrow> ('m, 'r) admin_state \<Rightarrow> string \<Rightarrow>
   string option \<times> string set \<times> (string \<Rightarrow> int option)" where
  "grants view s = (\<lambda>k. if prefix ''acl:'' k then key_value (admin_view view s) k else absent)"

definition granted :: "permissions \<Rightarrow> string \<Rightarrow> string option \<times> string set \<times> (string \<Rightarrow> int option)" where
  "granted m = (\<lambda>k.
     case Split (CHR '':'') k of
       [a, t, u] \<Rightarrow> if a = ''acl'' then (None, m (t, u), Map.empty) else absent
     | _ \<Rightarrow> absent)"

lemma granted_key: "no_colon t \<Longrightarrow> no_colon u \<Longrightarrow> granted m (perm_key (t, u)) = (None, m (t, u), Map.empty)"
  using Split_perm_key [of "perm_key (t, u)" t u] by (simp add: granted_def)

lemma granted_other: "(\<And>t u. k = perm_key (t, u) \<Longrightarrow> no_colon t \<Longrightarrow> \<not> no_colon u) \<Longrightarrow> granted m k = absent"
  using Split_perm_key [of k] by (auto simp: granted_def split: list.split)

lemma granted_cases:
  obtains (key) t u where "k = perm_key (t, u)" "no_colon t" "no_colon u" "\<And>m. granted m k = (None, m (t, u), Map.empty)"
    | (other) "\<And>t u. k = perm_key (t, u) \<Longrightarrow> no_colon t \<Longrightarrow> \<not> no_colon u" "\<And>m. granted m k = absent"
  using granted_key granted_other by metis

lemma perm_key_inject:
  "no_colon t \<Longrightarrow> no_colon t' \<Longrightarrow> perm_key (t, u) = perm_key (t', u') \<longleftrightarrow> t = t' \<and> u = u'"
  using split_colon [of t t' u u'] by (simp add: perm_key_def)

lemma granted_update:
  assumes "no_colon t" and "no_colon u"
  shows "granted (m((t, u) := A)) k = (if k = perm_key (t, u) then (None, A, Map.empty) else granted m k)"
  using assms by (cases k rule: granted_cases) (auto simp: granted_key perm_key_inject)

lemma grants_milvus [simp]: "grants view (s\<lparr>st_milvus := m\<rparr>) = grants view s"
  by (simp add: grants_def fun_eq_iff)

lemma acl_keys [simp]:
  "prefix ''acl:'' (perm_key p)" "\<not> prefix ''acl:'' auditLogsKey" "\<not> prefix ''acl:'' (''user:'' @ i)"
  "\<not> prefix ''acl:'' (''doc:'' @ i)"
  by (cases p; simp add: perm_key_def auditLogsKey_def)+

lemmas acl_keys_cons [simp] = acl_keys(3,4) [unfolded append.simps]

lemma permission_key: "permission_key req = perm_key (pr_tenant_id req, pr_user_id req)"
  by (simp add: permission_key_def perm_key_def)

text \<open>An entry of the listing: the documents of one user, each once, with those of them that are stored.\<close>

definition shows_user ::
  "admin_env \<Rightarrow> (string \<Rightarrow> string option) \<Rightarrow> permissions \<Rightarrow> string \<Rightarrow> string \<Rightarrow> Permission \<Rightarrow> bool" where
  "shows_user env docs m t u p \<longleftrightarrow>
     p_tenant_id p = t \<and> p_user_id p = u \<and> distinct (p_doc_ids p) \<and> set (p_doc_ids p) = m (t, u) \<and>
     p_documents p = decoded (unmarshal_doc env) docs (map ((@) ''doc:'') (p_doc_ids p))"

locale admin_permissions = admin_redis svc view
  for svc :: "('e, 'm, 'r) admin_service" and view :: "'r \<Rightarrow> redis_view" +
  assumes perm: "perm_laws (adm_redis svc) view"
begin

lemma run_grants: "\<forall>k\<in>writes c. \<not> prefix ''acl:'' k \<Longrightarrow> grants view (snd (run_cmd svc c s)) = grants view s"
  using run_other_key [of _ c s] by (auto simp: grants_def fun_eq_iff)

end

sublocale admin_permissions \<subseteq> permitted: redis_observer svc "grants view"
  by unfold_locales (simp_all add: run_grants)

context admin_permissions
begin

lemma run_grants_writes [simp]:
  "\<not> prefix ''acl:'' k \<Longrightarrow> grants view (snd (run_cmd svc (ASet k x) s)) = grants view s"
  "\<not> prefix ''acl:'' k \<Longrightarrow> grants view (snd (run_cmd svc (ADel k) s)) = grants view s"
  "\<not> prefix ''acl:'' k \<Longrightarrow> grants view (snd (run_cmd svc (ALPush k x) s)) = grants view s"
  by (simp_all add: run_grants)

lemma audit_grants [simp]: "grants view (snd (addAuditLog env svc a tg msg s)) = grants view s"
  by (simp add: addAuditLog_def Let_def case_prod_beta split: sum.split)

lemma data_grants [simp]:
  "grants view (snd (CreateUser env svc bu s)) = grants view s"
  "grants view (snd (CreateDocument env svc bd s)) = grants view s"
  "grants view (snd (DeleteDocument env svc bi s)) = grants view s"
  by (simp_all add: CreateUser_def CreateDocument_def DeleteDocument_def Let_def case_prod_beta
      split: sum.split option.split)

text \<open>A change of one set.\<close>

lemma grants_key:
  assumes "grants view s = granted m" and "no_colon t" and "no_colon u"
  shows "key_value (admin_view view s) (perm_key (t, u)) = (None, m (t, u), Map.empty)"
  using fun_cong [OF assms(1), of "perm_key (t, u)"] by (simp add: grants_def granted_key [OF assms(2,3)])

lemma grants_update:
  assumes "grants view s = granted m" and "no_colon t" and "no_colon u" and "writes c = {perm_key (t, u)}"
    and "key_value (view (snd (adm_redis svc c (st_redis s)))) (perm_key (t, u)) = (None, A, Map.empty)"
  shows "grants view (snd (run_cmd svc c s)) = granted (m((t, u) := A))"
proof
  fix k
  show "grants view (snd (run_cmd svc c s)) k = granted (m((t, u) := A)) k"
  proof (cases "k = perm_key (t, u)")
    case True
    then show ?thesis using assms(2,3,5) by (simp add: grants_def granted_update run_cmd_def case_prod_beta)
  next
    case False
    then have "grants view (snd (run_cmd svc c s)) k = grants view s k"
      using run_other_key [of k c s] assms(4) by (simp add: grants_def)
    then show ?thesis using fun_cong [OF assms(1), of k] False assms(2,3) by (simp add: granted_update)
  qed
qed

lemma permission_grants:
  assumes "grants view s = granted m" and "plain (pr_tenant_id req)" and "plain (pr_user_id req)"
  shows "grants view (snd (GrantPermission env svc (Inr req) s)) =
      granted (m((pr_tenant_id req, pr_user_id req) := insert (pr_doc_id req) (m (pr_tenant_id req, pr_user_id req))))"
    and "grants view (snd (RevokePermission env svc (Inr req) s)) =
      granted (m((pr_tenant_id req, pr_user_id req) := m (pr_tenant_id req, pr_user_id req) - {pr_doc_id req}))"
proof -
  let ?p = "(pr_tenant_id req, pr_user_id req)"
  note c = plainD(1) [OF assms(2)] plainD(1) [OF assms(3)]
  note k = grants_key [OF assms(1) c]
  have "\<exists>n. fst (run_cmd svc (ASAdd (perm_key ?p) (pr_doc_id req)) s) = RInt n"
    "\<exists>n. fst (run_cmd svc (ASRem (perm_key ?p) (pr_doc_id req)) s) = RInt n"
    using perm k by (simp_all add: perm_laws_def run_cmd_def case_prod_beta)
  then have ok: "reply_err (fst (run_cmd svc (ASAdd (perm_key ?p) (pr_doc_id req)) s)) = None"
    "reply_err (fst (run_cmd svc (ASRem (perm_key ?p) (pr_doc_id req)) s)) = None" by auto
  have "grants view (snd (run_cmd svc (ASAdd (perm_key ?p) (pr_doc_id req)) s)) = granted (m(?p := insert (pr_doc_id req) (m ?p)))"
    using perm k by (intro grants_update [OF assms(1) c]) (simp_all add: perm_laws_def)
  then show "grants view (snd (GrantPermission env svc (Inr req) s)) = granted (m(?p := insert (pr_doc_id req) (m ?p)))"
    using ok(1) by (simp add: GrantPermission_def permission_key case_prod_beta)
  have "grants view (snd (run_cmd svc (ASRem (perm_key ?p) (pr_doc_id req)) s)) = granted (m(?p := m ?p - {pr_doc_id req}))"
    using perm k by (intro grants_update [OF assms(1) c]) (simp_all add: perm_laws_def)
  then show "grants view (snd (RevokePermission env svc (Inr req) s)) = granted (m(?p := m ?p - {pr_doc_id req}))"
    using ok(2) by (simp add: RevokePermission_def permission_key case_prod_beta)
qed

text \<open>Deleting a user.\<close>

lemma delete_keys_grants:
  "grants view (delete_keys svc ks s) = (\<lambda>k. if k \<in> set ks then absent else grants view s k)"
proof (induction ks arbitrary: s)
  case (Cons k ks)
  have "grants view (snd (run_cmd svc (ADel k) s)) j = (if j = k then absent else grants view s j)" for j
    using run_other_key [of j "ADel k" s] laws
    by (cases "j = k") (simp_all add: grants_def admin_store_laws_def run_cmd_def case_prod_beta)
  with Cons show ?case by (auto simp: fun_eq_iff)
qed simp

lemma keys_exact:
  assumes "grants view s = granted m" and "run_cmd svc (AKeys pat) s = (r, s')" and "star_pattern pat"
    and "\<And>k. glob pat k \<Longrightarrow> prefix ''acl:'' k"
  shows "\<exists>ks. r = RList ks \<and> distinct ks \<and> (\<forall>k. k \<in> set ks \<longleftrightarrow> glob pat k \<and> granted m k \<noteq> absent)"
proof -
  have r: "r = fst (adm_redis svc (AKeys pat) (st_redis s))" using assms(2) by (simp add: run_cmd_def case_prod_beta)
  obtain ks where ks: "r = RList ks" "distinct ks"
    "\<forall>k. holds_key (admin_view view s) k \<and> glob pat k \<longrightarrow> k \<in> set ks"
    using laws assms(3) unfolding admin_store_laws_def r by meson
  have all: "\<forall>k\<in>set ks. glob pat k \<and> (holds_key (admin_view view s) k \<or> k = auditLogsKey)"
    using perm assms(3) ks(1) unfolding perm_laws_def r by blast
  have "holds_key (admin_view view s) k \<longleftrightarrow> granted m k \<noteq> absent" if "glob pat k" for k
    using assms(4) [OF that] fun_cong [OF assms(1), of k] by (auto simp: grants_def holds_key_def key_value_def)
  moreover have "k \<noteq> auditLogsKey" if "glob pat k" for k using assms(4) [OF that] by auto
  ultimately show ?thesis using ks all by blast
qed

lemma delete_user_grants:
  assumes "grants view s = granted m" and "plain i"
  shows "grants view (snd (DeleteUser env svc (Inr i) s)) = granted (\<lambda>p. if snd p = i then {} else m p)"
proof -
  obtain r0 s0 where d: "run_cmd svc (ADel (''user:'' @ i)) s = (r0, s0)" by fastforce
  have del: "reply_err r0 = None" "grants view s0 = granted m"
  proof -
    have "\<exists>n. fst (adm_redis svc (ADel (''user:'' @ i)) (st_redis s)) = RInt n"
      using laws by (simp add: admin_store_laws_def)
    then show "reply_err r0 = None" using d by (auto simp: run_cmd_def case_prod_beta)
    show "grants view s0 = granted m" by (metis run_grants_writes(2) acl_keys(3) d snd_conv assms(1))
  qed
  let ?s1 = "case adm_search svc of None \<Rightarrow> s0
    | Some (senv, cl) \<Rightarrow> s0\<lparr>st_milvus := snd (search_DeleteUser cl i (st_milvus s0))\<rparr>"
  have s1: "grants view ?s1 = granted m" by (simp add: del(2) split: option.split)
  obtain r2 s2 where k: "run_cmd svc (AKeys (''acl:*:'' @ i)) ?s1 = (r2, s2)" by fastforce
  have s2: "grants view s2 = granted m" by (metis permitted.reads_observed(3) k snd_conv s1)
  have "star_pattern (''acl:*:'' @ i)" using plainD(2) [OF assms(2)] by (simp add: literal_def star_pattern_def)
  moreover have "prefix ''acl:'' k" if "glob (''acl:*:'' @ i) k" for k
    using that glob_prefix [of "''acl:''" "''*:'' @ i" k] by simp
  ultimately obtain ks where ks: "r2 = RList ks" "\<forall>k. k \<in> set ks \<longleftrightarrow> glob (''acl:*:'' @ i) k \<and> granted m k \<noteq> absent"
    using keys_exact [OF s1 k] by blast
  have "(if k \<in> set ks then absent else granted m k) = granted (\<lambda>p. if snd p = i then {} else m p) k" for k
  proof (cases k rule: granted_cases)
    case (key t u)
    then show ?thesis using ks(2) glob_user [OF key(3) assms(2), of t] by (auto simp del: glob.simps)
  qed (use ks(2) in simp)
  then have "grants view (delete_keys svc ks s2) = granted (\<lambda>p. if snd p = i then {} else m p)"
    unfolding delete_keys_grants s2 by (rule ext)
  then show ?thesis using d k del(1) by (simp add: DeleteUser_def Let_def ks(1))
qed

text \<open>One request, and a session.\<close>

lemma step_grants:
  assumes "grants view s = granted m" and "plain_request dec r"
  shows "grants view (snd (registerRoutes env dec err_text svc r s)) = granted (perm_step dec r m)"
proof -
  have fail: "GrantPermission env svc (Inl e) s = (Fail e, s)" "RevokePermission env svc (Inl e) s = (Fail e, s)"
    "DeleteUser env svc (Inl e) s = (Fail e, s)" for e
    by (simp_all add: GrantPermission_def RevokePermission_def DeleteUser_def)
  consider "rq_path r = ''/api/users''" | "rq_path r = ''/api/documents''" | "rq_path r = ''/api/permissions''"
    | "rq_path r \<noteq> ''/api/users''" "rq_path r \<noteq> ''/api/documents''" "rq_path r \<noteq> ''/api/permissions''" by blast
  then show ?thesis
  proof cases
    case 1
    then show ?thesis using assms delete_user_grants [OF assms(1)] fail(3)
      by (cases "dec_id dec (rq_body r)")
        (simp_all add: registerRoutes_def by_method_def perm_step_def plain_request_def)
  next
    case 2
    then show ?thesis using assms by (simp add: registerRoutes_def by_method_def perm_step_def)
  next
    case 3
    then show ?thesis using assms permission_grants [OF assms(1)] fail(1,2)
      by (cases "dec_perm dec (rq_body r)")
        (simp_all add: registerRoutes_def by_method_def perm_step_def plain_request_def Let_def)
  next
    case 4
    then show ?thesis using assms(1) by (simp add: registerRoutes_def perm_step_def)
  qed
qed

lemma session_grants:
  assumes "grants view s = granted m" and "\<forall>(env, r)\<in>set reqs. plain_request dec r"
  shows "grants view (admin_session dec err_text svc reqs s) = granted (fold (\<lambda>(env, r). perm_step dec r) reqs m)"
  using assms
proof (induction reqs arbitrary: s m)
  case (Cons x reqs)
  then show ?case using step_grants [OF Cons.prems(1)] by (cases x) simp
qed simp

text \<open>What the listing shows.\<close>

lemma list_perms_users:
  assumes "grants view s = granted m" and "entries view s = stored docs" and "no_colon t" and "\<forall>u\<in>set us. no_colon u"
  shows "list_all2 (shows_user env docs m t) us (fst (list_perms env svc (map (\<lambda>u. perm_key (t, u)) us) s))"
  using assms(1,2,4)
proof (induction us arbitrary: s)
  case (Cons u us)
  let ?k = "perm_key (t, u)"
  obtain r s1 where r: "run_cmd svc (ASMembers ?k) s = (r, s1)" by fastforce
  have s1: "grants view s1 = granted m" "entries view s1 = stored docs"
    by (metis permitted.reads_observed(4) r snd_conv Cons.prems(1)) (metis stored.reads_observed(4) r snd_conv Cons.prems(2))
  have "\<exists>ds. r = RList ds \<and> distinct ds \<and> set ds = m (t, u)"
    using perm grants_key [OF Cons.prems(1) assms(3), of u] Cons.prems(3) r
    by (auto simp: perm_laws_def run_cmd_def case_prod_beta)
  then obtain ds where ds: "r = RList ds" "distinct ds" "set ds = m (t, u)" by blast
  obtain xs s2 where f: "fetch svc (unmarshal_doc env) (\<lambda>_. True) (map ((@) ''doc:'') ds) s1 = (xs, s2)" by fastforce
  have xs: "xs = decoded (unmarshal_doc env) docs (map ((@) ''doc:'') ds)"
    using fetch_decoded [OF s1(2), of "map ((@) ''doc:'') ds" "unmarshal_doc env"] f by simp
  have s2: "grants view s2 = granted m" "entries view s2 = stored docs"
    by (metis permitted.fetch_observed f snd_conv s1(1)) (metis stored.fetch_observed f snd_conv s1(2))
  obtain ps s3 where ps: "list_perms env svc (map (\<lambda>u. perm_key (t, u)) us) s2 = (ps, s3)" by fastforce
  have "Split (CHR '':'') ?k = [''acl'', t, u]" using Split_perm_key [of ?k t u] assms(3) Cons.prems(3) by simp
  then have eq: "fst (list_perms env svc (map (\<lambda>u. perm_key (t, u)) (u # us)) s) =
      \<lparr>p_tenant_id = t, p_user_id = u, p_doc_ids = ds, p_documents = xs\<rparr> # ps"
    using r ds(1) f ps by (simp add: Let_def del: append.simps)
  have "list_all2 (shows_user env docs m t) us ps" using Cons.IH [OF s2] Cons.prems(3) ps by simp
  moreover have "shows_user env docs m t u \<lparr>p_tenant_id = t, p_user_id = u, p_doc_ids = ds, p_documents = xs\<rparr>"
    using ds(2,3) xs by (simp add: shows_user_def)
  ultimately show ?case unfolding eq by simp
qed simp

lemma list_permissions:
  assumes "grants view s = granted m" and "entries view s = stored docs"
    and "t = (if q ''tenant_id'' = [] then ''tenant-001'' else q ''tenant_id'')" and "plain t"
    and "\<forall>u. m (t, u) \<noteq> {} \<longrightarrow> no_colon u"
  shows "\<exists>us perms. distinct us \<and> set us = {u. m (t, u) \<noteq> {}} \<and> list_all2 (shows_user env docs m t) us perms \<and>
    fst (ListPermissions env svc q s) = Ok (Response 200 ''success'' (PermData perms))"
proof -
  let ?pat = "''acl:'' @ t @ '':*''"
  note t = plainD [OF assms(4)]
  obtain r s1 where k: "run_cmd svc (AKeys ?pat) s = (r, s1)" by fastforce
  have "star_pattern ?pat" using t(2) by (simp add: literal_def star_pattern_def)
  moreover have "prefix ''acl:'' k" if "glob ?pat k" for k
    using that glob_prefix [of "''acl:''" "t @ '':*''" k] by simp
  ultimately obtain ks where ks: "r = RList ks" "distinct ks" "\<forall>k. k \<in> set ks \<longleftrightarrow> glob ?pat k \<and> granted m k \<noteq> absent"
    using keys_exact [OF assms(1) k] by blast
  have keys: "k \<in> set ks \<longleftrightarrow> (\<exists>u. k = perm_key (t, u) \<and> m (t, u) \<noteq> {})" for k
  proof (cases k rule: granted_cases)
    case (key t' u)
    have "k \<in> set ks \<longleftrightarrow> t' = t \<and> m (t', u) \<noteq> {}"
      using ks(3) glob_tenant [OF key(2) assms(4), of u] by (auto simp: key(1,4) granted_key key(2,3) simp del: glob.simps)
    then show ?thesis using perm_key_inject [OF key(2) t(1)] key(1) by auto
  next
    case other
    have "k \<notin> set ks" using ks(3) other(2) by (simp del: glob.simps)
    moreover have "\<not> (\<exists>u. k = perm_key (t, u) \<and> m (t, u) \<noteq> {})" using other(1) assms(5) t(1) by blast
    ultimately show ?thesis by blast
  qed
  define us where "us = map (\<lambda>k. SOME u. k = perm_key (t, u)) ks"
  have "\<exists>u. k = perm_key (t, u)" if "k \<in> set ks" for k using keys that by blast
  then have "map (\<lambda>u. perm_key (t, u)) us = ks"
    unfolding us_def map_map by (intro map_idI) (metis (mono_tags, lifting) comp_apply someI_ex)
  then have us: "ks = map (\<lambda>u. perm_key (t, u)) us" ..
  then have d: "distinct us" using ks(2) by (simp add: distinct_map)
  have "u \<in> set us \<longleftrightarrow> perm_key (t, u) \<in> set ks" for u
    using perm_key_inject [OF t(1) t(1)] by (auto simp: us)
  then have set: "set us = {u. m (t, u) \<noteq> {}}" using keys perm_key_inject [OF t(1) t(1)] by auto
  have s1: "grants view s1 = granted m" "entries view s1 = stored docs"
    by (metis permitted.reads_observed(3) k snd_conv assms(1)) (metis stored.reads_observed(3) k snd_conv assms(2))
  have "fst (ListPermissions env svc q s) = Ok (Response 200 ''success'' (PermData (fst (list_perms env svc ks s1))))"
    using k ks(1) assms(3) by (simp add: ListPermissions_def Let_def case_prod_beta)
  then show ?thesis using d set list_perms_users [OF s1 t(1), of us env] assms(5) by (auto simp: us)
qed

end

text \<open>Only plain users are granted anything.\<close>

lemma session_users:
  assumes "\<forall>(env, r)\<in>set reqs. plain_request dec r" and "\<And>t u. m (t, u) \<noteq> {} \<Longrightarrow> no_colon u"
    and "fold (\<lambda>(env, r). perm_step dec r) reqs m (t, u) \<noteq> {}"
  shows "no_colon u"
  using assms
proof (induction reqs arbitrary: m)
  case (Cons x reqs)
  obtain env r where x: "x = (env, r)" by (cases x)
  have "no_colon u'" if "perm_step dec r m (t', u') \<noteq> {}" for t' u'
    using that Cons.prems(1,2) x
    by (auto simp: perm_step_def plain_request_def Let_def plain_def split: if_split_asm sum.split_asm)
  then show ?case using Cons.IH [of "perm_step dec r m"] Cons.prems(1,3) x by simp
qed simp

section \<open>A server with strings and sets\<close>

type_synonym set_db = "(string \<times> string) list \<times> (string \<times> string) list"

definition set_view :: "set_db \<Rightarrow> redis_view" where
  "set_view = (\<lambda>(kv, sets). (kv_view kv)\<lparr>rv_set := \<lambda>k. {x. (k, x) \<in> set sets}\<rparr>)"

definition set_server :: "set_db admin_exec" where
  "set_server c = (\<lambda>(kv, sets).
     (case c of
        ADel k \<Rightarrow> (RInt 1, [x \<leftarrow> kv. fst x \<noteq> k], [x \<leftarrow> sets. fst x \<noteq> k])
      | AKeys pat \<Rightarrow> (RList [k \<leftarrow> remdups (map fst kv @ map fst sets). glob pat k], kv, sets)
      | AGet k \<Rightarrow> (case map_of kv k of None \<Rightarrow> RNil | Some x \<Rightarrow> RStr x, kv, sets)
      | ASet k x \<Rightarrow> (ROk, (k, x) # kv, [x \<leftarrow> sets. fst x \<noteq> k])
      | AExists k \<Rightarrow> (RInt (if map_of kv k = None \<and> k \<notin> fst ` set sets then 0 else 1), kv, sets)
      | ASAdd k x \<Rightarrow> (RInt 1, kv, (k, x) # sets)
      | ASRem k x \<Rightarrow> (RInt 1, kv, [y \<leftarrow> sets. y \<noteq> (k, x)])
      | ASMembers k \<Rightarrow> (RList (remdups [x. (j, x) \<leftarrow> sets, j = k]), kv, sets)
      | _ \<Rightarrow> (RInt 1, kv, sets)))"

lemma set_value: "key_value (set_view (kv, sets)) k = (map_of kv k, {x. (k, x) \<in> set sets}, Map.empty)"
  by (simp add: key_value_def set_view_def kv_view_def)

lemma set_holds: "holds_key (set_view (kv, sets)) k \<longleftrightarrow> k \<in> fst ` set kv \<or> k \<in> fst ` set sets"
  using map_of_eq_None_iff [of kv k] by (force simp: holds_key_def set_view_def kv_view_def)

lemma map_of_without: "map_of [x \<leftarrow> kv. fst x \<noteq> k] j = (if j = k then None else map_of kv j)"
  by (induction kv) auto

lemma set_store_laws: "admin_store_laws set_server set_view"
proof -
  have W: "key_value (set_view (snd (set_server c s))) k = key_value (set_view s) k" if "k \<notin> writes c" for c k s
    using that by (cases s; cases c) (auto simp: set_server_def set_value map_of_without)
  have E: "fst (set_server (AExists k) s) = RInt (if key_value (set_view s) k = absent then 0 else 1)" for k s
    by (cases s) (force simp: set_server_def set_value)
  have G: "(fst (set_server (AGet k) s) = RStr x) = (rv_str (set_view s) k = Some x)" for k x s
    by (cases s) (simp add: set_server_def set_view_def kv_view_def split: option.split)
  have S: "fst (set_server (ASet k x) s) = ROk"
    "key_value (set_view (snd (set_server (ASet k x) s))) k = (Some x, {}, Map.empty)" for k x s
    by (cases s; simp add: set_server_def set_value)+
  have D: "\<exists>n. fst (set_server (ADel k) s) = RInt n" "key_value (set_view (snd (set_server (ADel k) s))) k = absent" for k s
    by (cases s; simp add: set_server_def set_value map_of_without)+
  have K: "\<exists>ks. fst (set_server (AKeys pat) s) = RList ks \<and> distinct ks \<and>
      (star_pattern pat \<longrightarrow> (\<forall>k. holds_key (set_view s) k \<and> glob pat k \<longrightarrow> k \<in> set ks)) \<and>
      (\<forall>l p. pat = l @ p \<and> literal l \<longrightarrow> (\<forall>k\<in>set ks. prefix l k))" for pat s
    by (cases s) (auto simp: set_server_def set_holds literal_def dest: glob_prefix)
  show ?thesis unfolding admin_store_laws_def
    by (intro conjI allI impI; (rule E G S D K | rule W, assumption))
qed

lemma set_perm_laws: "perm_laws set_server set_view"
  unfolding perm_laws_def
proof (intro conjI allI impI)
  show "\<exists>xs. fst (set_server (ASMembers k) s) = RList xs \<and> distinct xs \<and> set xs = A"
    if "key_value (set_view s) k = (None, A, Map.empty)" for k s A
    using that by (cases s) (auto simp: set_server_def set_value)
  show "\<forall>k\<in>set ks. glob pat k \<and> (holds_key (set_view s) k \<or> k = auditLogsKey)"
    if "fst (set_server (AKeys pat) s) = RList ks \<and> star_pattern pat" for pat s ks
    using that by (cases s) (auto simp: set_server_def set_holds)
qed (auto simp: set_server_def set_value)

abbreviation set_service :: "(unit, unit, set_db) admin_service" where
  "set_service \<equiv> \<lparr>adm_redis = set_server, adm_search = None\<rparr>"

interpretation sets: admin_permissions set_service set_view
  by unfold_locales (simp_all add: set_store_laws set_perm_laws)

interpretation sets_permitted: redis_observer set_service "grants set_view"
  by (rule sets.permitted.redis_observer_axioms)

section \<open>Properties\<close>

text \<open>
  C18: the permissions the admin service shows.  Starting from a Redis without users, documents and keys of
  permissions, and with ids free of colons and pattern letters, after any session of requests GET
  /api/permissions answers with one entry for each user of the asked tenant who has a document left (the
  grants less what was revoked since, nothing for a user deleted since, in any tenant), and the entry
  holds exactly those documents, each once, with the stored ones among them decoded.  A request without
  a tenant asks for \<open>tenant-001\<close>.  Grants and revocations are the POST and DELETE requests of the code's
  route /api/permissions; a POST to /api/permissions/grant or /api/permissions/revoke, which
  docs/admin-guide.md documents, is a request to an unknown path and grants and revokes nothing
  (\<open>AdminServer.documented_paths\<close>).
\<close>

theorem permissions_listed:
  assumes "admin_store_laws (adm_redis svc) view" and "perm_laws (adm_redis svc) view"
    and "entries view s = stored Map.empty" and "grants view s = granted (\<lambda>_. {})"
    and "\<forall>(env, r)\<in>set reqs. plain_request dec r"
    and "rq_path r = ''/api/permissions''" and "rq_method r = ''GET''"
    and "t = (if rq_query r ''tenant_id'' = [] then ''tenant-001'' else rq_query r ''tenant_id'')" and "plain t"
  shows "\<exists>us perms. distinct us \<and>
    set us = {u. fold (\<lambda>(env, r). perm_step dec r) reqs (\<lambda>_. {}) (t, u) \<noteq> {}} \<and>
    list_all2 (shows_user env (fold (spec_step dec) reqs Map.empty)
      (fold (\<lambda>(env, r). perm_step dec r) reqs (\<lambda>_. {})) t) us perms \<and>
    fst (registerRoutes env dec err_text svc r (admin_session dec err_text svc reqs s)) =
      Ok (JSONReply 200 (Response 200 ''success'' (PermData perms)))"
proof -
  let ?m = "fold (\<lambda>(env, r). perm_step dec r) reqs (\<lambda>_. {})" and ?s = "admin_session dec err_text svc reqs s"
  have P: "admin_permissions svc view"
    using assms(1,2) by (simp add: admin_permissions_def admin_redis_def admin_permissions_axioms_def)
  have R: "admin_redis svc view" by (rule admin_redis.intro [OF assms(1)])
  have nc: "\<forall>u. ?m (t, u) \<noteq> {} \<longrightarrow> no_colon u" using session_users [OF assms(5), of "\<lambda>_. {}" t] by simp
  note g = admin_permissions.session_grants [OF P assms(4,5), of err_text]
  note e = admin_redis.session_entries [OF R assms(3), of dec err_text reqs]
  from admin_permissions.list_permissions [where q = "rq_query r", OF P g e assms(8,9) nc, of env]
  obtain us perms where u: "distinct us" "set us = {u. ?m (t, u) \<noteq> {}}"
    "list_all2 (shows_user env (fold (spec_step dec) reqs Map.empty) ?m t) us perms"
    "fst (ListPermissions env svc (rq_query r) ?s) = Ok (Response 200 ''success'' (PermData perms))" by blast
  have "fst (registerRoutes env dec err_text svc r ?s) = Ok (JSONReply 200 (Response 200 ''success'' (PermData perms)))"
    using u(4) assms(6,7) by (simp add: registerRoutes_def by_method_def withJSON_result)
  with u(1-3) show ?thesis by blast
qed

definition demo_permissions :: admin_decoders where
  "demo_permissions = demo_decoders\<lparr>dec_perm := (\<lambda>b. case b of
     [t, u, d] \<Rightarrow> Inr \<lparr>pr_tenant_id = [t], pr_user_id = [u], pr_doc_id = [d]\<rparr> | _ \<Rightarrow> Inl EOF)\<rparr>"

definition demo_request :: "string \<Rightarrow> string \<Rightarrow> string \<Rightarrow> admin_request" where
  "demo_request path meth body = \<lparr>rq_method = meth, rq_path = path, rq_query = (\<lambda>_. ''t''), rq_body = body\<rparr>"

theorem permissions_listed_witness:
  "fst (registerRoutes demo_users demo_permissions (\<lambda>_. []) set_service (demo_request ''/api/permissions'' ''GET'' [])
     (admin_session demo_permissions (\<lambda>_. []) set_service
        [(demo_users, demo_request ''/api/permissions'' ''POST'' ''tux''),
         (demo_users, demo_request ''/api/permissions'' ''POST'' ''tuy''),
         (demo_users, demo_request ''/api/permissions'' ''POST'' ''twx''),
         (demo_users, demo_request ''/api/permissions'' ''DELETE'' ''tuy''),
         (demo_users, demo_request ''/api/users'' ''DELETE'' ''w'')] \<lparr>st_redis = ([], []), st_milvus = ()\<rparr>)) =
   Ok (JSONReply 200 (Response 200 ''success''
     (PermData [\<lparr>p_tenant_id = ''t'', p_user_id = ''u'', p_doc_ids = [''x''], p_documents = []\<rparr>])))"
proof -
  let ?reqs = "[(demo_users, demo_request ''/api/permissions'' ''POST'' ''tux''),
    (demo_users, demo_request ''/api/permissions'' ''POST'' ''tuy''),
    (demo_users, demo_request ''/api/permissions'' ''POST'' ''twx''),
    (demo_users, demo_request ''/api/permissions'' ''DELETE'' ''tuy''),
    (demo_users, demo_request ''/api/users'' ''DELETE'' ''w'')]"
  let ?r = "demo_request ''/api/permissions'' ''GET'' []"
  let ?s = "\<lparr>st_redis = ([], []) :: set_db, st_milvus = ()\<rparr>"
  have l: "admin_store_laws (adm_redis set_service) set_view" "perm_laws (adm_redis set_service) set_view"
    by (simp_all add: set_store_laws set_perm_laws)
  have e: "entries set_view ?s = stored Map.empty" by (simp add: entries_def stored_def set_value fun_eq_iff)
  have g: "grants set_view ?s = granted (\<lambda>_. {})"
    by (auto simp: grants_def granted_def set_value fun_eq_iff split: list.split)
  have pl: "\<forall>(env, r)\<in>set ?reqs. plain_request demo_permissions r"
    by (simp add: plain_request_def demo_request_def demo_permissions_def demo_decoders_def plain_def no_colon_def
        literal_def star_pattern_def)
  have r: "rq_path ?r = ''/api/permissions''" "rq_method ?r = ''GET''"
    "''t'' = (if rq_query ?r ''tenant_id'' = [] then ''tenant-001'' else rq_query ?r ''tenant_id'')" "plain ''t''"
    by (simp_all add: demo_request_def plain_def no_colon_def literal_def star_pattern_def)
  have m: "fold (\<lambda>(env, r). perm_step demo_permissions r) ?reqs (\<lambda>_. {}) (''t'', u) = (if u = ''u'' then {''x''} else {})" for u
    by (simp add: perm_step_def demo_request_def demo_permissions_def demo_decoders_def)
  have docs: "fold (spec_step demo_permissions) ?reqs Map.empty (''doc:'' @ d) = None" for d
    by (simp add: spec_step_def demo_request_def demo_permissions_def demo_decoders_def)
  obtain us perms where u: "distinct us" "set us = {u. u = ''u''}"
    "list_all2 (shows_user demo_users (fold (spec_step demo_permissions) ?reqs Map.empty)
      (fold (\<lambda>(env, r). perm_step demo_permissions r) ?reqs (\<lambda>_. {})) ''t'') us perms"
    "fst (registerRoutes demo_users demo_permissions (\<lambda>_. []) set_service ?r
       (admin_session demo_permissions (\<lambda>_. []) set_service ?reqs ?s)) =
     Ok (JSONReply 200 (Response 200 ''success'' (PermData perms)))"
    using permissions_listed [OF l e g pl r, of demo_users "\<lambda>_. []"] unfolding m by auto
  have us: "us = [''u'']" using distinct_singleton [OF u(1)] u(2) by simp
  with u(3) obtain p where p: "perms = [p]"
    "shows_user demo_users (fold (spec_step demo_permissions) ?reqs Map.empty)
      (fold (\<lambda>(env, r). perm_step demo_permissions r) ?reqs (\<lambda>_. {})) ''t'' ''u'' p"
    by (auto simp: list_all2_Cons1)
  from p(2) have "p = \<lparr>p_tenant_id = ''t'', p_user_id = ''u'', p_doc_ids = [''x''], p_documents = []\<rparr>"
    using distinct_singleton [of "p_doc_ids p" "''x''"] docs [of "''x''"]
    unfolding shows_user_def m by (cases p) (simp add: decoded_def del: fold_simps)
  then show ?thesis unfolding u(4) p(1) by simp
qed

end
