(* ===== verification/Embedding.thy ===== *)
theory Embedding
  imports AdminSearch
begin

text \<open>
  \<open>generateSimpleEmbedding\<close> of \<open>internal/admin/search.go\<close>, the function behind the field \<open>embed\<close> of
  \<open>search_env\<close>.  It ranges over the runes of a string, which Go decodes as UTF-8; the arithmetic of
  \<open>float32\<close> is the parameter \<open>float32\<close>.
\<close>

section \<open>Ranging over a string\<close>

definition continuation :: "nat \<Rightarrow> bool" where
  "continuation b \<longleftrightarrow> 0x80 \<le> b \<and> b \<le> 0xBF"

text \<open>
  The first rune of a byte string and its width: shortest forms only, no surrogates, at most
  \<open>U+10FFFF\<close>; any other byte is \<open>U+FFFD\<close> of width 1.
\<close>

definition rune2 :: "nat \<Rightarrow> nat list \<Rightarrow> (nat \<times> nat) option" where
  "rune2 b0 bs =
     (case bs of
        b1 # _ \<Rightarrow> if continuation b1 then Some (b0 mod 32 * 64 + b1 mod 64, 2) else None
      | _ \<Rightarrow> None)"

definition rune3 :: "nat \<Rightarrow> nat list \<Rightarrow> (nat \<times> nat) option" where
  "rune3 b0 bs =
     (case bs of
        b1 # b2 # _ \<Rightarrow>
          if continuation b1 \<and> continuation b2 \<and> (b0 = 0xE0 \<longrightarrow> 0xA0 \<le> b1) \<and> (b0 = 0xED \<longrightarrow> b1 \<le> 0x9F)
          then Some ((b0 mod 16 * 64 + b1 mod 64) * 64 + b2 mod 64, 3) else None
      | _ \<Rightarrow> None)"

definition rune4 :: "nat \<Rightarrow> nat list \<Rightarrow> (nat \<times> nat) option" where
  "rune4 b0 bs =
     (case bs of
        b1 # b2 # b3 # _ \<Rightarrow>
          if continuation b1 \<and> continuation b2 \<and> continuation b3 \<and> (b0 = 0xF0 \<longrightarrow> 0x90 \<le> b1) \<and> (b0 = 0xF4 \<longrightarrow> b1 \<le> 0x8F)
          then Some (((b0 mod 8 * 64 + b1 mod 64) * 64 + b2 mod 64) * 64 + b3 mod 64, 4) else None
      | _ \<Rightarrow> None)"

definition decode_rune :: "nat \<Rightarrow> nat list \<Rightarrow> nat \<times> nat" where
  "decode_rune b0 bs =
     (if b0 < 0x80 then (b0, 1)
      else
        (case (if 0xC2 \<le> b0 \<and> b0 \<le> 0xDF then rune2 b0 bs
               else if 0xE0 \<le> b0 \<and> b0 \<le> 0xEF then rune3 b0 bs
               else if 0xF0 \<le> b0 \<and> b0 \<le> 0xF4 then rune4 b0 bs
               else None) of
           Some r \<Rightarrow> r
         | None \<Rightarrow> (0xFFFD, 1)))"

lemma decode_rune_width: "1 \<le> snd (decode_rune b0 bs)" "snd (decode_rune b0 bs) \<le> Suc (length bs)"
  by (auto simp: decode_rune_def rune2_def rune3_def rune4_def split: option.splits if_splits list.splits)

text \<open>\<open>for i, c := range text\<close>: the byte offsets and runes, from offset \<open>k\<close>.\<close>

function runes :: "nat \<Rightarrow> nat list \<Rightarrow> (nat \<times> nat) list" where
  "runes k [] = []"
| "runes k (b # bs) = (case decode_rune b bs of (c, w) \<Rightarrow> (k, c) # runes (k + w) (drop w (b # bs)))"
  by pat_completeness auto
termination
proof (relation "measure (\<lambda>(k, bs). length bs)")
  fix k b bs and c w :: nat
  assume "(c, w) = decode_rune b bs"
  then have "1 \<le> w" using decode_rune_width(1) [of b bs] by (metis snd_conv)
  then show "((k + w, drop w (b # bs)), (k, b # bs)) \<in> measure (\<lambda>(k, bs). length bs)" by simp
qed simp

lemma runes_offsets: "(i, c) \<in> set (runes k bs) \<Longrightarrow> k \<le> i \<and> i < k + length bs"
proof (induction k bs rule: runes.induct)
  case (2 k b bs)
  obtain c' w where d: "decode_rune b bs = (c', w)" by fastforce
  then show ?case using 2 decode_rune_width [of b bs] by (fastforce split: prod.splits)
qed simp

lemma runes_ascii: "\<forall>b\<in>set bs. b < 0x80 \<Longrightarrow> runes k bs = zip [k..<k + length bs] bs"
proof (induction bs arbitrary: k)
  case (Cons b bs)
  then show ?case by (simp add: decode_rune_def upt_conv_Cons del: upt_Suc)
qed simp

section \<open>The embedding\<close>

record 'f float32 =
  f_of_int :: "int \<Rightarrow> 'f"
  f_add :: "'f \<Rightarrow> 'f \<Rightarrow> 'f"
  f_mul :: "'f \<Rightarrow> 'f \<Rightarrow> 'f"
  f_div :: "'f \<Rightarrow> 'f \<Rightarrow> 'f"
  f_less :: "'f \<Rightarrow> 'f \<Rightarrow> bool"

definition vectorDim :: nat where "vectorDim = 384"

definition generateSimpleEmbedding :: "'f float32 \<Rightarrow> string \<Rightarrow> 'f list" where
  "generateSimpleEmbedding fl text =
     (let embedding = replicate vectorDim (f_of_int fl 0);
          embedding = fold (\<lambda>(i, c) embedding.
            let idx = i mod vectorDim in
            embedding[idx := f_add fl (embedding ! idx) (f_div fl (f_of_int fl (int c)) (f_of_int fl 1000))])
            (runes 0 (map of_char text)) embedding;
          sum = fold (\<lambda>v sum. f_add fl sum (f_mul fl v v)) embedding (f_of_int fl 0) in
      if f_less fl (f_of_int fl 0) sum then
        let norm = f_div fl (f_of_int fl 1) (f_of_int fl (int (length text))) in
        map (\<lambda>v. f_mul fl v norm) embedding
      else embedding)"

text \<open>The search environment of the program.\<close>

definition go_search_env :: "'f float32 \<Rightarrow> (string \<Rightarrow> string \<Rightarrow> go_err + int) \<Rightarrow> 'f list search_env" where
  "go_search_env fl parse = \<lparr>embed = generateSimpleEmbedding fl, time_parse = parse\<rparr>"

text \<open>Every embedding has the dimension of the collections' schema; the index is always in range.\<close>

lemma fold_length:
  "(\<And>x e. length (f x e) = length e) \<Longrightarrow> length (fold f xs e) = length e"
  by (induction xs arbitrary: e) simp_all

lemma embedding_length: "length (generateSimpleEmbedding fl text) = vectorDim"
proof -
  have "length (fold (\<lambda>(i, c) e. let idx = i mod vectorDim in
      e[idx := f_add fl (e ! idx) (f_div fl (f_of_int fl (int c)) (f_of_int fl 1000))]) xs e) = length e" for xs e
    by (rule fold_length) (simp add: case_prod_beta Let_def)
  then show ?thesis by (simp add: generateSimpleEmbedding_def Let_def)
qed

lemma rows_match_schema:
  "length (row_embedding (document_row (go_search_env fl parse) doc)) = 384"
  "(''dim'', ''384'') \<in> set (fl_params (last (sch_fields (collection_schema c t i))))"
  by (simp_all add: document_row_def go_search_env_def embedding_length Let_def collection_schema_def vectorDim_def)

end
