(* ===== verification/GoRegexp.thy ===== *)
theory GoRegexp
  imports Prelude
begin

text \<open>
  The part of Go's \<open>regexp\<close> package the command validator uses: \<open>FindAllStringSubmatchIndex\<close> for
  expressions that are sequences of literals, classes, greedy runs of a class, optional parts, the
  assertions \<open>^\<close> and \<open>$\<close> (both with the flag \<open>m\<close>) and \<open>\b\<close>, and groups.  Of the matches at one place the
  package promises the one a backtracking search finds first, and \<open>match_at\<close> is that search;
  \<open>accepts\<close> says declaratively what a match is, and \<open>match_at_accepts\<close> relates the two.

  Characters are bytes.  The package reads runes, but the classes in use are ASCII or the complement
  of one ASCII character, and what follows a complement is again ASCII, so a match never ends inside
  a rune.
\<close>

section \<open>Expressions\<close>

datatype regex_item =
    Lit char
  | Cls "char \<Rightarrow> bool"
  | Many "char \<Rightarrow> bool"
  | Maybe "regex_item list"
  | BeginLine
  | EndLine
  | WordBoundary
  | Mark

type_synonym regex = "regex_item list"

definition lit :: "string \<Rightarrow> regex" where "lit w = map Lit w"

definition many1 :: "(char \<Rightarrow> bool) \<Rightarrow> regex" where "many1 c = [Cls c, Many c]"

definition grouped :: "regex \<Rightarrow> regex" where "grouped r = Mark # r @ [Mark]"

text \<open>\<open>\s\<close>, \<open>\d\<close>, \<open>[0-9a-fA-F]\<close>, \<open>[0-9A-Za-z_]\<close> (which is also \<open>\w\<close>), and the dot\<close>

definition space_class :: "char \<Rightarrow> bool" where
  "space_class c \<longleftrightarrow> c = CHR '' '' \<or> c = CHR 0x09 \<or> c = CHR 0x0A \<or> c = CHR 0x0C \<or> c = CHR 0x0D"

definition digit_class :: "char \<Rightarrow> bool" where
  "digit_class c \<longleftrightarrow> (of_char c :: nat) \<in> {48..57}"

definition hex_class :: "char \<Rightarrow> bool" where
  "hex_class c \<longleftrightarrow> (of_char c :: nat) \<in> {48..57} \<union> {65..70} \<union> {97..102}"

definition word_class :: "char \<Rightarrow> bool" where
  "word_class c \<longleftrightarrow> (of_char c :: nat) \<in> {48..57} \<union> {65..90} \<union> {97..122} \<or> c = CHR ''_''"

definition dot_class :: "char \<Rightarrow> bool" where "dot_class c \<longleftrightarrow> c \<noteq> CHR 0x0A"

section \<open>The search\<close>

text \<open>The byte before a place, the bytes from it on, its offset; the result is the offsets of the
  marks that were passed, and of the end.\<close>

definition word_at :: "char option \<Rightarrow> bool" where
  "word_at x = (case x of None \<Rightarrow> False | Some c \<Rightarrow> word_class c)"

definition next_byte :: "string \<Rightarrow> char option" where
  "next_byte s = (case s of [] \<Rightarrow> None | c # _ \<Rightarrow> Some c)"

function match_at :: "regex \<Rightarrow> char option \<Rightarrow> string \<Rightarrow> nat \<Rightarrow> nat list option" where
  "match_at [] p s i = Some [i]"
| "match_at (Lit c # r) p s i =
     (case s of [] \<Rightarrow> None | x # s \<Rightarrow> if x = c then match_at r (Some x) s (i + 1) else None)"
| "match_at (Cls c # r) p s i =
     (case s of [] \<Rightarrow> None | x # s \<Rightarrow> if c x then match_at r (Some x) s (i + 1) else None)"
| "match_at (Many c # r) p s i =
     (case s of
        [] \<Rightarrow> match_at r p [] i
      | x # s' \<Rightarrow>
          if c x then
            (case match_at (Many c # r) (Some x) s' (i + 1) of
               Some ms \<Rightarrow> Some ms
             | None \<Rightarrow> match_at r p s i)
          else match_at r p s i)"
| "match_at (Maybe q # r) p s i =
     (case match_at (q @ r) p s i of Some ms \<Rightarrow> Some ms | None \<Rightarrow> match_at r p s i)"
| "match_at (BeginLine # r) p s i =
     (if p = None \<or> p = Some (CHR 0x0A) then match_at r p s i else None)"
| "match_at (EndLine # r) p s i =
     (if next_byte s = None \<or> next_byte s = Some (CHR 0x0A) then match_at r p s i else None)"
| "match_at (WordBoundary # r) p s i =
     (if word_at p \<noteq> word_at (next_byte s) then match_at r p s i else None)"
| "match_at (Mark # r) p s i = map_option ((#) i) (match_at r p s i)"
  by pat_completeness auto
termination
  by (relation "measures [\<lambda>(r, p, s, i). size_list size r, \<lambda>(r, p, s, i). length s]") auto

lemma match_at_Many [simp]:
  "match_at (Many c # r) p [] i = match_at r p [] i"
  "match_at (Many c # r) p (x # s) i =
     (if c x then
        (case match_at (Many c # r) (Some x) s (i + 1) of
           Some ms \<Rightarrow> Some ms
         | None \<Rightarrow> match_at r p (x # s) i)
      else match_at r p (x # s) i)"
  by simp_all

declare match_at.simps(4) [simp del]

text \<open>The submatches as Go lays them out: the bounds of the match, then those of each group.\<close>

definition submatch_index :: "nat \<Rightarrow> nat list \<Rightarrow> nat list" where
  "submatch_index i ms = i # last ms # butlast ms"

text \<open>The matches from a place on, the next \<open>k\<close> bytes belonging to the previous match.\<close>

fun find_all :: "regex \<Rightarrow> nat \<Rightarrow> char option \<Rightarrow> string \<Rightarrow> nat \<Rightarrow> nat list list" where
  "find_all r k p [] i =
     (if k > 0 then [] else case match_at r p [] i of None \<Rightarrow> [] | Some ms \<Rightarrow> [submatch_index i ms])"
| "find_all r k p (x # s) i =
     (if k > 0 then find_all r (k - 1) (Some x) s (i + 1)
      else
        (case match_at r p (x # s) i of
           None \<Rightarrow> find_all r 0 (Some x) s (i + 1)
         | Some ms \<Rightarrow> submatch_index i ms # find_all r (last ms - i - 1) (Some x) s (i + 1)))"

definition FindAllStringSubmatchIndex :: "regex \<Rightarrow> string \<Rightarrow> nat list list" where
  "FindAllStringSubmatchIndex re s = find_all re 0 None s 0"

section \<open>What a match is\<close>

definition last_byte :: "char option \<Rightarrow> string \<Rightarrow> char option" where
  "last_byte p u = (if u = [] then p else Some (last u))"

lemma last_byte_simps [simp]:
  "last_byte p [] = p" "last_byte p (x # u) = last_byte (Some x) u"
  "last_byte (last_byte p u) v = last_byte p (u @ v)"
  by (auto simp: last_byte_def)

function accepts :: "regex \<Rightarrow> char option \<Rightarrow> string \<Rightarrow> nat \<Rightarrow> nat list \<Rightarrow> bool" where
  "accepts [] p s i ms \<longleftrightarrow> ms = [i]"
| "accepts (Lit c # r) p s i ms \<longleftrightarrow> (\<exists>v. s = c # v \<and> accepts r (Some c) v (i + 1) ms)"
| "accepts (Cls c # r) p s i ms \<longleftrightarrow> (\<exists>x v. s = x # v \<and> c x \<and> accepts r (Some x) v (i + 1) ms)"
| "accepts (Many c # r) p s i ms \<longleftrightarrow>
     (\<exists>u v. s = u @ v \<and> list_all c u \<and> accepts r (last_byte p u) v (i + length u) ms)"
| "accepts (Maybe q # r) p s i ms \<longleftrightarrow> accepts (q @ r) p s i ms \<or> accepts r p s i ms"
| "accepts (BeginLine # r) p s i ms \<longleftrightarrow> (p = None \<or> p = Some (CHR 0x0A)) \<and> accepts r p s i ms"
| "accepts (EndLine # r) p s i ms \<longleftrightarrow>
     (next_byte s = None \<or> next_byte s = Some (CHR 0x0A)) \<and> accepts r p s i ms"
| "accepts (WordBoundary # r) p s i ms \<longleftrightarrow> word_at p \<noteq> word_at (next_byte s) \<and> accepts r p s i ms"
| "accepts (Mark # r) p s i ms \<longleftrightarrow> (\<exists>ms'. ms = i # ms' \<and> accepts r p s i ms')"
  by pat_completeness auto
termination
  by (relation "measure (\<lambda>(r, p, s, i, ms). size_list size r)") auto

lemma accepts_Many_step:
  "accepts (Many c # r) p s i ms \<longleftrightarrow>
    accepts r p s i ms \<or> (\<exists>x v. s = x # v \<and> c x \<and> accepts (Many c # r) (Some x) v (i + 1) ms)"
proof
  assume "accepts (Many c # r) p s i ms"
  then obtain u v where u: "s = u @ v" "list_all c u" "accepts r (last_byte p u) v (i + length u) ms" by auto
  show "accepts r p s i ms \<or> (\<exists>x v. s = x # v \<and> c x \<and> accepts (Many c # r) (Some x) v (i + 1) ms)"
  proof (cases u)
    case (Cons x u')
    with u have "accepts (Many c # r) (Some x) (u' @ v) (i + 1) ms"
      by simp blast
    with u Cons show ?thesis by auto
  qed (use u in simp)
next
  assume "accepts r p s i ms \<or> (\<exists>x v. s = x # v \<and> c x \<and> accepts (Many c # r) (Some x) v (i + 1) ms)"
  then show "accepts (Many c # r) p s i ms"
  proof (elim disjE exE conjE)
    assume "accepts r p s i ms"
    then have "s = [] @ s \<and> list_all c [] \<and> accepts r (last_byte p []) s (i + length ([] :: string)) ms"
      by simp
    then show ?thesis unfolding accepts.simps by blast
  next
    fix x w assume s: "s = x # w" "c x" and "accepts (Many c # r) (Some x) w (i + 1) ms"
    then obtain u v where "w = u @ v" "list_all c u" "accepts r (last_byte (Some x) u) v (i + 1 + length u) ms"
      by auto
    with s have "s = (x # u) @ v \<and> list_all c (x # u) \<and>
        accepts r (last_byte p (x # u)) v (i + length (x # u)) ms"
      by simp
    then show ?thesis unfolding accepts.simps by blast
  qed
qed

declare accepts.simps(4) [simp del]

text \<open>The search returns a match exactly when there is one.\<close>

lemma match_at_accepts:
  "(match_at r p s i = None \<longrightarrow> (\<forall>ms. \<not> accepts r p s i ms)) \<and>
    (\<forall>ms. match_at r p s i = Some ms \<longrightarrow> accepts r p s i ms)"
proof (induction r p s i rule: match_at.induct)
  case (2 c r p s i)
  then show ?case by (cases s) auto
next
  case (3 c r p s i)
  then show ?case by (cases s) auto
next
  case (4 c r p s i)
  show ?case
  proof (cases s)
    case Nil
    with "4.IH"(1) show ?thesis by (simp add: accepts_Many_step [of c r p])
  next
    case (Cons x v)
    with "4.IH"(2-4) [OF Cons] show ?thesis
      by (cases "match_at (Many c # r) (Some x) v (Suc i)") (auto simp: accepts_Many_step [of c r p])
  qed
next
  case (5 q r p s i)
  then show ?case by (cases "match_at (q @ r) p s i") auto
qed auto

lemma match_at_Some: "match_at r p s i = Some ms \<Longrightarrow> accepts r p s i ms"
  using match_at_accepts by blast

lemma match_at_None: "match_at r p s i = None \<Longrightarrow> \<not> accepts r p s i ms"
  using match_at_accepts by blast

lemma accepts_lit [simp]:
  "accepts (lit w @ r) p s i ms \<longleftrightarrow> (\<exists>v. s = w @ v \<and> accepts r (last_byte p w) v (i + length w) ms)"
  by (induction w arbitrary: p s i) (auto simp: lit_def)

lemma accepts_many1 [simp]:
  "accepts (many1 c @ r) p s i ms \<longleftrightarrow>
    (\<exists>u v. s = u @ v \<and> u \<noteq> [] \<and> list_all c u \<and> accepts r (last_byte p u) v (i + length u) ms)"
proof -
  have "accepts (many1 c @ r) p s i ms \<longleftrightarrow>
      (\<exists>x u v. s = (x # u) @ v \<and> list_all c (x # u) \<and>
        accepts r (last_byte p (x # u)) v (i + length (x # u)) ms)"
    by (auto simp: many1_def accepts.simps(4))
  then show ?thesis by (metis list.distinct(1) list.exhaust)
qed

lemma accepts_grouped:
  "accepts (grouped (lit k @ many1 c) @ r) p s i ms \<longleftrightarrow>
    (\<exists>w v ms'. s = k @ w @ v \<and> w \<noteq> [] \<and> list_all c w \<and> accepts r (last_byte p (k @ w)) v (i + length (k @ w)) ms' \<and>
      ms = i # (i + length (k @ w)) # ms')"
  by (auto simp: grouped_def add.assoc) blast

section \<open>What is found\<close>

text \<open>Every submatch comes from a match in the text.\<close>

definition found :: "regex \<Rightarrow> char option \<Rightarrow> string \<Rightarrow> nat \<Rightarrow> nat list \<Rightarrow> bool" where
  "found r p s i m \<longleftrightarrow>
     (\<exists>u v ms. s = u @ v \<and> accepts r (last_byte p u) v (i + length u) ms \<and> m = submatch_index (i + length u) ms)"

lemma found_here: "accepts r p s i ms \<Longrightarrow> found r p s i (submatch_index i ms)"
  unfolding found_def by (rule exI [of _ "[]"]) auto

lemma found_later: "found r (Some x) s (Suc i) m \<Longrightarrow> found r p (x # s) i m"
  unfolding found_def by (elim exE, rule_tac x = "x # u" in exI) auto

lemma find_all_sound: "m \<in> set (find_all r k p s i) \<Longrightarrow> found r p s i m"
proof (induction r k p s i rule: find_all.induct)
  case (1 r k p i)
  then show ?case by (cases "match_at r p [] i") (auto dest: match_at_Some intro: found_here split: if_splits)
next
  case (2 r k p x s i)
  then show ?case
    by (cases "match_at r p (x # s) i")
       (auto dest: match_at_Some intro: found_here found_later split: if_splits)
qed

text \<open>No match begins inside another; then every match is found.\<close>

definition separate :: "regex \<Rightarrow> bool" where
  "separate r \<longleftrightarrow> (\<forall>p x u v i ms ms'. accepts r p (x # u @ v) i ms \<and> i + length u + 1 < last ms \<longrightarrow>
     \<not> accepts r (last_byte (Some x) u) v (i + length u + 1) ms')"

lemma separateD:
  "separate r \<Longrightarrow> accepts r p (x # u @ v) i ms \<Longrightarrow>
    accepts r (last_byte (Some x) u) v (i + length u + 1) ms' \<Longrightarrow> last ms \<le> i + length u + 1"
  unfolding separate_def by (meson not_le)

lemma find_all_complete:
  assumes "separate r" and "accepts r (last_byte p u) v (i + length u) ms" and "k \<le> length u"
  shows "\<exists>ms. accepts r (last_byte p u) v (i + length u) ms \<and>
    submatch_index (i + length u) ms \<in> set (find_all r k p (u @ v) i)"
  using assms(2,3)
proof (induction u arbitrary: k p i)
  case Nil
  then obtain ms' where "match_at r p v i = Some ms'" by (cases "match_at r p v i") (auto dest: match_at_None)
  moreover from this have "accepts r p v i ms'" by (rule match_at_Some)
  ultimately show ?case using Nil.prems by (cases v) auto
next
  case (Cons x u)
  note IH = Cons.IH [of "Some x" "i + 1", simplified]
  show ?case
  proof (cases "k > 0")
    case True
    with IH [of "k - 1"] Cons.prems show ?thesis by auto
  next
    case False
    show ?thesis
    proof (cases "match_at r p (x # u @ v) i")
      case None
      with False IH [of 0] Cons.prems show ?thesis by auto
    next
      case (Some ms0)
      have "last ms0 \<le> i + length u + 1"
        by (rule separateD [OF assms(1) match_at_Some [OF Some]]) (use Cons.prems(1) in simp)
      then have "last ms0 - i - 1 \<le> length u" by simp
      with False Some IH [of "last ms0 - i - 1"] Cons.prems show ?thesis by auto
    qed
  qed
qed

text \<open>If there is a match, one is found.\<close>

lemma find_all_first:
  assumes "accepts r (last_byte p u) v (i + length u) ms"
  shows "find_all r 0 p (u @ v) i \<noteq> []"
  using assms
proof (induction u arbitrary: p i)
  case Nil
  then show ?case by (cases v; cases "match_at r p v i") (auto dest: match_at_None)
next
  case (Cons x u)
  from Cons.IH [of "Some x" "i + 1"] Cons.prems show ?case by (auto split: option.splits)
qed

end
