(* ===== verification/ValidateCommands.thy ===== *)
theory ValidateCommands
  imports AclMemory GoNumbers GoRegexp
begin

text \<open>
  \<open>cmd/validate-commands/main.go\<close>: the tool that checks that the commands defined, mapped, bridged and
  handled in three source files agree.  Its regular expressions (\<open>defaultPatterns\<close>) are those of the
  code, run by the search of \<open>GoRegexp\<close>; the file system is \<open>read_file\<close>, and Go's random iteration over
  a map is \<open>order\<close> (and \<open>vorder\<close> over values).  An issue is a constructor with the values its message
  is printed from; the messages are sorted for printing only.
\<close>

record loc =
  l_file :: string
  l_line :: nat

datatype issue =
    ReadIssue string go_err
  | ParseIssue loc string string parse_error
  | DecimalIssue loc string string
  | NoDefinitions string
  | DuplicateValue "16 word" "(string \<times> loc) list"
  | NoRegistrations string
  | NoBridges string
  | NoHandlers string
  | RegistersUnknown loc string
  | BridgesUnknown loc string
  | HandlesUnknown loc string
  | BridgedNotHandled loc string
  | HandledNotBridged loc string
  | MappedNotBridged loc string
  | DefinedNotBridged loc string
  | DefinedNotHandled loc string

record patterns =
  cmdDefRe :: regex
  cmdDefDecimalRe :: regex
  registerMethodRe :: regex
  bridgeCallRe :: regex
  routerRegisterRe :: regex
  dispatcherRegisterRe :: regex

type_synonym refs = "(string, loc) fmap"

record scanResult =
  cmdVals :: "(string, 16 word) fmap"
  cmdLoc :: refs
  invalidDefs :: refs
  registered :: refs
  bridged :: refs
  handled :: refs
  scanned :: nat
  byVal :: "(16 word, (string \<times> loc) list) fmap"

section \<open>The regular expressions\<close>

text \<open>\<open>(Cmd[0-9A-Za-z_]+)\<close>, the two definitions, and a call with a command as its first argument\<close>

definition cmd_group :: regex where
  "cmd_group = grouped (lit ''Cmd'' @ many1 word_class)"

definition def_re :: "regex \<Rightarrow> regex" where
  "def_re value =
     [BeginLine, Many space_class] @ cmd_group @ many1 space_class @ lit ''uint16'' @
     [Many space_class, Lit CHR ''='', Many space_class] @ grouped value @
     [Many space_class, Maybe (lit ''//'' @ [Many dot_class]), EndLine]"

definition call_re :: "string \<Rightarrow> char \<Rightarrow> regex" where
  "call_re fn close =
     lit fn @ [Many space_class] @ lit ''protocol.'' @ cmd_group @ [Many space_class, Lit close]"

definition not_quote :: "char \<Rightarrow> bool" where "not_quote c \<longleftrightarrow> c \<noteq> CHR 0x22"

definition register_re :: regex where
  "register_re =
     lit ''protocol.RegisterFullMethodCommand('' @ [Many space_class, Lit CHR 0x22] @ many1 not_quote @
     [Lit CHR 0x22] @ [Many space_class] @ call_re '','' CHR '')''"

definition defaultPatterns :: patterns where
  "defaultPatterns =
     \<lparr>cmdDefRe = def_re (lit ''0x'' @ many1 hex_class),
      cmdDefDecimalRe = def_re (many1 digit_class),
      registerMethodRe = register_re,
      bridgeCallRe = WordBoundary # call_re ''bridge('' CHR '')'',
      routerRegisterRe = WordBoundary # call_re ''r.Register('' CHR '','',
      dispatcherRegisterRe = call_re ''dispatcher.Register('' CHR '',''\<rparr>"

section \<open>Scanning\<close>

definition lineNumber :: "string \<Rightarrow> nat \<Rightarrow> nat" where
  "lineNumber s idx = (if idx \<le> 0 then 1 else 1 + count_list (take idx s) (CHR 0x0A))"

text \<open>\<open>s[i:j]\<close>, for the offsets of a match\<close>

definition group_text :: "string \<Rightarrow> nat list \<Rightarrow> nat \<Rightarrow> string" where
  "group_text s mi n = slice (mi ! n) (mi ! (n + 1)) s"

fun cmd_defs :: "string \<Rightarrow> string \<Rightarrow> nat list list \<Rightarrow> scanResult \<Rightarrow> issue list \<times> scanResult" where
  "cmd_defs path s [] out = ([], out)"
| "cmd_defs path s (mi # ms) out =
     (let name = group_text s mi 2;
          raw = group_text s mi 4;
          whr = \<lparr>l_file = path, l_line = lineNumber s (mi ! 0)\<rparr> in
      case ParseUint0 16 raw of
        Inl perr \<Rightarrow>
          (case cmd_defs path s ms out of (issues, out) \<Rightarrow> (ParseIssue whr name raw perr # issues, out))
      | Inr u \<Rightarrow>
          let val = of_nat u :: 16 word;
              out = out\<lparr>cmdVals := fmupd name val (cmdVals out), cmdLoc := fmupd name whr (cmdLoc out),
                        byVal := fmupd val ((case fmlookup (byVal out) val of None \<Rightarrow> [] | Some xs \<Rightarrow> xs) @
                          [(name, whr)]) (byVal out)\<rparr>
          in cmd_defs path s ms out)"

definition scanCmdDefs :: "string \<Rightarrow> string \<Rightarrow> regex \<Rightarrow> scanResult \<Rightarrow> issue list \<times> scanResult" where
  "scanCmdDefs path s re out = cmd_defs path s (FindAllStringSubmatchIndex re s) out"

fun decimal_defs :: "string \<Rightarrow> string \<Rightarrow> nat list list \<Rightarrow> scanResult \<Rightarrow> issue list \<times> scanResult" where
  "decimal_defs path s [] out = ([], out)"
| "decimal_defs path s (mi # ms) out =
     (let name = group_text s mi 2;
          raw = group_text s mi 4;
          whr = \<lparr>l_file = path, l_line = lineNumber s (mi ! 0)\<rparr>;
          out = out\<lparr>invalidDefs := fmupd name whr (invalidDefs out)\<rparr> in
      case decimal_defs path s ms out of (issues, out) \<Rightarrow> (DecimalIssue whr name raw # issues, out))"

definition scanDecimalCmdDefs :: "string \<Rightarrow> string \<Rightarrow> regex \<Rightarrow> scanResult \<Rightarrow> issue list \<times> scanResult" where
  "scanDecimalCmdDefs path s re out = decimal_defs path s (FindAllStringSubmatchIndex re s) out"

fun ref_locs :: "string \<Rightarrow> string \<Rightarrow> nat list list \<Rightarrow> refs \<Rightarrow> refs" where
  "ref_locs path s [] out = out"
| "ref_locs path s (mi # ms) out =
     (let name = group_text s mi 2 in
      if fmlookup out name \<noteq> None then ref_locs path s ms out
      else ref_locs path s ms (fmupd name \<lparr>l_file = path, l_line = lineNumber s (mi ! 0)\<rparr> out))"

definition scanRefs :: "string \<Rightarrow> string \<Rightarrow> regex \<Rightarrow> refs \<Rightarrow> refs" where
  "scanRefs path s re out = ref_locs path s (FindAllStringSubmatchIndex re s) out"

definition scanFixedFile ::
  "(string \<Rightarrow> go_err + string) \<Rightarrow> patterns \<Rightarrow> string \<Rightarrow> bool \<Rightarrow> scanResult \<Rightarrow> issue list \<times> scanResult" where
  "scanFixedFile read_file pat path checkDecimal out =
     (case read_file path of
        Inl err \<Rightarrow> ([ReadIssue path err], out)
      | Inr s \<Rightarrow>
          let out = out\<lparr>scanned := scanned out + 1\<rparr>;
              (issues, out) = scanCmdDefs path s (cmdDefRe pat) out;
              (more_issues, out) =
                (if checkDecimal then scanDecimalCmdDefs path s (cmdDefDecimalRe pat) out else ([], out));
              out = out\<lparr>registered := scanRefs path s (registerMethodRe pat) (registered out)\<rparr>;
              out = out\<lparr>bridged := scanRefs path s (bridgeCallRe pat) (bridged out)\<rparr>;
              out = out\<lparr>bridged := scanRefs path s (routerRegisterRe pat) (bridged out)\<rparr>;
              out = out\<lparr>handled := scanRefs path s (dispatcherRegisterRe pat) (handled out)\<rparr>
          in (issues @ more_issues, out))"

section \<open>Validation\<close>

text \<open>The loop over a map of references, an issue for each that fails a test.\<close>

definition ref_issues ::
  "(string fset \<Rightarrow> string list) \<Rightarrow> refs \<Rightarrow> (string \<Rightarrow> bool) \<Rightarrow> (loc \<Rightarrow> string \<Rightarrow> issue) \<Rightarrow> issue list" where
  "ref_issues order refs bad mk =
     map (\<lambda>name. mk (the (fmlookup refs name)) name) [name \<leftarrow> order (fmdom refs). bad name]"

definition validateReferencesExist :: "(string fset \<Rightarrow> string list) \<Rightarrow> scanResult \<Rightarrow> issue list" where
  "validateReferencesExist order scan =
     (let unknown = (\<lambda>name. fmlookup (invalidDefs scan) name = None \<and> fmlookup (cmdVals scan) name = None)
      in ref_issues order (registered scan) unknown RegistersUnknown @
         ref_issues order (bridged scan) unknown BridgesUnknown @
         ref_issues order (handled scan) unknown HandlesUnknown)"

definition validateBridgedHaveHandlers :: "(string fset \<Rightarrow> string list) \<Rightarrow> scanResult \<Rightarrow> issue list" where
  "validateBridgedHaveHandlers order scan =
     ref_issues order (bridged scan) (\<lambda>name. fmlookup (handled scan) name = None) BridgedNotHandled"

definition validateHandlersAreBridged :: "(string fset \<Rightarrow> string list) \<Rightarrow> scanResult \<Rightarrow> issue list" where
  "validateHandlersAreBridged order scan =
     ref_issues order (handled scan) (\<lambda>name. fmlookup (bridged scan) name = None) HandledNotBridged"

definition validateMappingsAreBridged :: "(string fset \<Rightarrow> string list) \<Rightarrow> scanResult \<Rightarrow> issue list" where
  "validateMappingsAreBridged order scan =
     ref_issues order (registered scan) (\<lambda>name. fmlookup (bridged scan) name = None) MappedNotBridged"

definition zero_loc :: loc where "zero_loc = \<lparr>l_file = [], l_line = 0\<rparr>"

definition validateAllDefinedAreWired :: "(string fset \<Rightarrow> string list) \<Rightarrow> scanResult \<Rightarrow> issue list" where
  "validateAllDefinedAreWired order scan =
     concat (map (\<lambda>name.
       let defLoc = (case fmlookup (cmdLoc scan) name of None \<Rightarrow> zero_loc | Some l \<Rightarrow> l) in
       (if fmlookup (bridged scan) name = None then [DefinedNotBridged defLoc name] else []) @
       (if fmlookup (handled scan) name = None then [DefinedNotHandled defLoc name] else []))
       (order (fmdom (cmdVals scan))))"

definition validateConsistency :: "(string fset \<Rightarrow> string list) \<Rightarrow> scanResult \<Rightarrow> bool \<Rightarrow> issue list" where
  "validateConsistency order scan requireAll =
     validateReferencesExist order scan @ validateBridgedHaveHandlers order scan @
     validateHandlersAreBridged order scan @ validateMappingsAreBridged order scan @
     (if requireAll then validateAllDefinedAreWired order scan else [])"

definition duplicateValueIssues ::
  "(16 word fset \<Rightarrow> 16 word list) \<Rightarrow> (16 word, (string \<times> loc) list) fmap \<Rightarrow> issue list" where
  "duplicateValueIssues vorder vals =
     map (\<lambda>v. DuplicateValue v (the (fmlookup vals v)))
       [v \<leftarrow> vorder (fmdom vals). length (the (fmlookup vals v)) > 1]"

definition validateFixedExpectations ::
  "(16 word fset \<Rightarrow> 16 word list) \<Rightarrow> scanResult \<Rightarrow> string \<Rightarrow> string \<Rightarrow> string \<Rightarrow> issue list" where
  "validateFixedExpectations vorder out commandsPath serverPath registryPath =
     (if cmdVals out = fmempty \<and> invalidDefs out = fmempty then [NoDefinitions commandsPath] else []) @
     duplicateValueIssues vorder (byVal out) @
     (if registered out = fmempty then [NoRegistrations serverPath] else []) @
     (if bridged out = fmempty then [NoBridges serverPath] else []) @
     (if handled out = fmempty then [NoHandlers registryPath] else [])"

section \<open>The tool\<close>

definition empty_scan :: scanResult where
  "empty_scan = \<lparr>cmdVals = fmempty, cmdLoc = fmempty, invalidDefs = fmempty, registered = fmempty,
     bridged = fmempty, handled = fmempty, scanned = 0, byVal = fmempty\<rparr>"

text \<open>The three scans of \<open>parseFixed\<close>.\<close>

definition scan_files ::
  "(string \<Rightarrow> go_err + string) \<Rightarrow> string \<Rightarrow> string \<Rightarrow> string \<Rightarrow> issue list \<times> scanResult" where
  "scan_files read_file commandsPath serverPath registryPath =
     (let pat = defaultPatterns;
          (i1, out) = scanFixedFile read_file defaultPatterns commandsPath True empty_scan;
          (i2, out) = scanFixedFile read_file pat serverPath False out;
          (i3, out) = scanFixedFile read_file pat registryPath False out
      in (i1 @ i2 @ i3, out))"

definition parseFixed ::
  "(16 word fset \<Rightarrow> 16 word list) \<Rightarrow> (string \<Rightarrow> go_err + string) \<Rightarrow>
   string \<Rightarrow> string \<Rightarrow> string \<Rightarrow> scanResult \<times> issue list" where
  "parseFixed vorder read_file commandsPath serverPath registryPath =
     (let (issues, out) = scan_files read_file commandsPath serverPath registryPath
      in (out, issues @ validateFixedExpectations vorder out commandsPath serverPath registryPath))"

definition validate_run ::
  "(string fset \<Rightarrow> string list) \<Rightarrow> (16 word fset \<Rightarrow> 16 word list) \<Rightarrow> (string \<Rightarrow> go_err + string) \<Rightarrow>
   bool \<Rightarrow> string \<Rightarrow> string \<Rightarrow> string \<Rightarrow> int \<times> issue list" where
  "validate_run order vorder read_file strictAllDefs commandsPath serverPath registryPath =
     (let (scan, scanIssues) = parseFixed vorder read_file commandsPath serverPath registryPath;
          issues = scanIssues @ validateConsistency order scan strictAllDefs
      in if issues = [] then (0, []) else (1, issues))"

section \<open>What is scanned\<close>

definition val_inv :: "scanResult \<Rightarrow> bool" where
  "val_inv out \<longleftrightarrow> (\<forall>n v. fmlookup (cmdVals out) n = Some v \<longrightarrow>
     (\<exists>xs. fmlookup (byVal out) v = Some xs \<and> n \<in> fst ` set xs))"

lemma val_invD:
  "val_inv out \<Longrightarrow> fmlookup (cmdVals out) n = Some v \<Longrightarrow>
    \<exists>xs. fmlookup (byVal out) v = Some xs \<and> n \<in> fst ` set xs"
  by (simp add: val_inv_def)

lemma cmd_defs_inv:
  assumes "cmd_defs path s ms out = (issues, out')" and "val_inv out"
  shows "val_inv out' \<and> invalidDefs out' = invalidDefs out"
  using assms
proof (induction path s ms out arbitrary: issues rule: cmd_defs.induct)
  case (2 path s mi ms out)
  show ?case
  proof (cases "ParseUint0 16 (group_text s mi 4)")
    case (Inl e)
    then show ?thesis using "2.IH"(1) [OF refl refl refl Inl] "2.prems"
      by (auto simp: Let_def split: prod.splits)
  next
    case (Inr u)
    let ?name = "group_text s mi 2" and ?val = "of_nat u :: 16 word"
    let ?loc = "\<lparr>l_file = path, l_line = lineNumber s (mi ! 0)\<rparr>"
    let ?out = "out\<lparr>cmdVals := fmupd ?name ?val (cmdVals out), cmdLoc := fmupd ?name ?loc (cmdLoc out),
      byVal := fmupd ?val ((case fmlookup (byVal out) ?val of None \<Rightarrow> [] | Some xs \<Rightarrow> xs) @ [(?name, ?loc)])
        (byVal out)\<rparr>"
    have "val_inv ?out"
      unfolding val_inv_def
    proof (intro allI impI)
      fix n v
      assume l: "fmlookup (cmdVals ?out) n = Some v"
      show "\<exists>xs. fmlookup (byVal ?out) v = Some xs \<and> n \<in> fst ` set xs"
      proof (cases "n = ?name")
        case True
        with l have "v = ?val" by simp
        with True show ?thesis by simp
      next
        case False
        with l "2.prems"(2) obtain xs where "fmlookup (byVal out) v = Some xs" "n \<in> fst ` set xs"
          unfolding val_inv_def by fastforce
        then show ?thesis by (cases "v = ?val") auto
      qed
    qed
    then show ?thesis using "2.IH"(2) [OF refl refl refl Inr refl refl, of issues] "2.prems"(1)
      by (simp add: Inr Let_def)
  qed
qed simp

lemma decimal_defs_inv:
  assumes "decimal_defs path s ms out = (issues, out')"
  shows "cmdVals out' = cmdVals out \<and> byVal out' = byVal out \<and> (issues = [] \<longrightarrow> out' = out)"
  using assms
  by (induction path s ms out arbitrary: issues rule: decimal_defs.induct)
     (auto simp: Let_def split: prod.splits)

lemma scanFixedFile_inv:
  assumes "scanFixedFile read_file pat path dec out = (issues, out')" and "val_inv out"
  shows "val_inv out' \<and> (issues = [] \<longrightarrow> invalidDefs out' = invalidDefs out)"
proof (cases "read_file path")
  case (Inl e)
  with assms show ?thesis by (simp add: scanFixedFile_def)
next
  case (Inr s)
  let ?o0 = "out\<lparr>scanned := scanned out + 1\<rparr>"
  obtain i1 o1 where 1: "scanCmdDefs path s (cmdDefRe pat) ?o0 = (i1, o1)" by fastforce
  obtain i2 o2 where 2: "(if dec then scanDecimalCmdDefs path s (cmdDefDecimalRe pat) o1 else ([], o1)) = (i2, o2)"
    by fastforce
  have v0: "val_inv ?o0" using assms(2) by (simp add: val_inv_def)
  have o2: "cmdVals o2 = cmdVals o1" "byVal o2 = byVal o1" "i2 = [] \<Longrightarrow> o2 = o1"
    using 2 decimal_defs_inv [of path s _ o1 i2 o2]
    by (auto simp: scanDecimalCmdDefs_def split: if_splits)
  have "issues = i1 @ i2" "cmdVals out' = cmdVals o2" "byVal out' = byVal o2" "invalidDefs out' = invalidDefs o2"
    using assms(1) 1 2 by (auto simp: scanFixedFile_def Inr Let_def)
  with cmd_defs_inv [OF 1 [unfolded scanCmdDefs_def] v0] o2 show ?thesis by (auto simp: val_inv_def)
qed

lemma scan_files_inv:
  assumes "scan_files read_file a b c = (errs, scan)"
  shows "val_inv scan \<and> (errs = [] \<longrightarrow> invalidDefs scan = fmempty)"
proof -
  obtain i1 o1 where 1: "scanFixedFile read_file defaultPatterns a True empty_scan = (i1, o1)" by fastforce
  obtain i2 o2 where 2: "scanFixedFile read_file defaultPatterns b False o1 = (i2, o2)" by fastforce
  obtain i3 o3 where 3: "scanFixedFile read_file defaultPatterns c False o2 = (i3, o3)" by fastforce
  have "val_inv empty_scan" "invalidDefs empty_scan = fmempty" by (simp_all add: val_inv_def empty_scan_def)
  moreover note scanFixedFile_inv [OF 1] scanFixedFile_inv [OF 2] scanFixedFile_inv [OF 3]
  moreover have "errs = i1 @ i2 @ i3" "scan = o3" using assms 1 2 3 by (auto simp: scan_files_def Let_def)
  ultimately show ?thesis by simp
qed

section \<open>What a reference is\<close>

text \<open>The names that are the first argument of a call in a text; \<open>whole\<close> asks that the name of the
  function does not continue to the left.\<close>

definition cmd_name :: "string \<Rightarrow> bool" where
  "cmd_name n \<longleftrightarrow> (\<exists>w. n = ''Cmd'' @ w \<and> w \<noteq> [] \<and> list_all word_class w)"

definition spaces :: "string \<Rightarrow> bool" where "spaces w \<longleftrightarrow> list_all space_class w"

definition calls :: "bool \<Rightarrow> string \<Rightarrow> char \<Rightarrow> string \<Rightarrow> string set" where
  "calls whole fn close t =
     {n. cmd_name n \<and> (\<exists>u w1 w2 v. t = u @ fn @ w1 @ ''protocol.'' @ n @ w2 @ close # v \<and> spaces w1 \<and>
       spaces w2 \<and> (whole \<longrightarrow> \<not> word_at (last_byte None u)))}"

lemma ex_cmd_name: "(\<exists>n. cmd_name n \<and> P n) \<longleftrightarrow> (\<exists>w. w \<noteq> [] \<and> list_all word_class w \<and> P (''Cmd'' @ w))"
  unfolding cmd_name_def by blast

lemma accepts_cmd_group:
  "accepts (cmd_group @ r) p s i ms \<longleftrightarrow> (\<exists>n. cmd_name n \<and> (\<exists>v ms'. s = n @ v \<and>
    accepts r (last_byte p n) v (i + length n) ms' \<and> ms = i # (i + length n) # ms'))"
  unfolding ex_cmd_name cmd_group_def accepts_grouped by (simp only: append_assoc) blast

text \<open>Where the call pattern matches, and what it marks.\<close>

lemma accepts_call:
  "accepts (call_re fn close) p s i ms \<longleftrightarrow> (\<exists>w1 n w2 v. s = fn @ w1 @ ''protocol.'' @ n @ w2 @ close # v \<and>
    spaces w1 \<and> cmd_name n \<and> spaces w2 \<and>
    ms = [i + length fn + length w1 + 9, i + length fn + length w1 + 9 + length n,
          i + length fn + length w1 + 9 + length n + length w2 + 1])"
  unfolding call_re_def
  by (fastforce simp: accepts_cmd_group accepts.simps(4) spaces_def algebra_simps)

lemma cmd_name_class: "cmd_name n \<Longrightarrow> list_all word_class n"
  by (auto simp: cmd_name_def word_class_def)

lemma not_in_class: "list_all P w \<Longrightarrow> \<not> P x \<Longrightarrow> x \<notin> set w"
  by (auto simp: list_all_iff)

lemma no_bracket: "spaces w \<Longrightarrow> CHR ''('' \<notin> set w" "cmd_name n \<Longrightarrow> CHR ''('' \<notin> set n"
  unfolding spaces_def by (erule not_in_class, simp add: space_class_def)
    (drule cmd_name_class, erule not_in_class, simp add: word_class_def)

text \<open>The bracket of a call is the last byte of its function's name, so calls do not overlap.\<close>

lemma no_overlap:
  assumes eq: "f @ b # r @ c # z = a @ f @ b # y" and "a \<noteq> []" and len: "length a < length f + length r + 2"
    and "b \<notin> set r" and "b \<noteq> c" and "c \<notin> set f"
  shows False
proof -
  let ?t = "f @ b # r @ c # z"
  have b: "?t ! (length a + length f) = b" unfolding eq by (simp add: nth_append)
  have c: "?t ! (length f + length r + 1) = c" by (simp add: nth_append)
  consider "length a + length f < length f + length r + 1" | "length a + length f = length f + length r + 1" |
    "length a + length f > length f + length r + 1" by linarith
  then show False
  proof cases
    case 1
    with assms(2) have "?t ! (length a + length f) = r ! (length a - 1)"
      by (cases a) (auto simp: nth_append)
    with 1 b assms(2,4) show False by (cases a) auto
  next
    case 2
    with b c assms(5) show False by metis
  next
    case 3
    have "?t ! (length f + length r + 1) = f ! (length f + length r + 1 - length a)"
      unfolding eq using 3 len by (auto simp: nth_append)
    moreover have "length f + length r + 1 - length a < length f" using 3 len by linarith
    ultimately show False using c assms(6) nth_mem by metis
  qed
qed

text \<open>The functions whose calls are looked for.\<close>

definition call_shape :: "string \<Rightarrow> char \<Rightarrow> bool" where
  "call_shape fn close \<longleftrightarrow> (\<exists>f. fn = f @ ''('' \<and> f \<noteq> [] \<and> word_class (hd f) \<and> close \<notin> set f) \<and> close \<in> {CHR '','', CHR '')''}"

lemma separate_call:
  assumes "call_shape fn close"
  shows "separate (call_re fn close)"
  unfolding separate_def
proof (intro allI impI notI, elim conjE)
  fix p x u v i ms ms'
  assume m: "accepts (call_re fn close) p (x # u @ v) i ms" and len: "i + length u + 1 < last ms"
    and m': "accepts (call_re fn close) (last_byte (Some x) u) v (i + length u + 1) ms'"
  from assms obtain f where f: "fn = f @ ''(''" "close \<notin> set f" "close \<in> {CHR '','', CHR '')''}"
    by (auto simp: call_shape_def)
  from m obtain w1 n w2 z where w: "x # u @ v = fn @ w1 @ ''protocol.'' @ n @ w2 @ close # z"
      "spaces w1" "cmd_name n" "spaces w2"
      "last ms = i + length fn + length w1 + 9 + length n + length w2 + 1"
    unfolding accepts_call by (elim exE conjE) (rule that, simp_all)
  from m' obtain y where v: "v = fn @ y" unfolding accepts_call by (elim exE conjE)
  let ?r = "w1 @ ''protocol.'' @ n @ w2"
  show False
  proof (rule no_overlap)
    show "f @ CHR ''('' # ?r @ close # z = (x # u) @ f @ CHR ''('' # y" using w(1) v f(1) by simp
    show "length (x # u) < length f + length ?r + 2" using len w(5) f(1) by simp
    show "CHR ''('' \<notin> set ?r" using w(2-4) by (simp add: no_bracket)
    show "CHR ''('' \<noteq> close" using f(3) by auto
  qed (use f in auto)
qed

lemma separate_boundary: "separate r \<Longrightarrow> separate (WordBoundary # r)"
  unfolding separate_def [of "WordBoundary # r"] by (auto dest: separateD)

lemma call_shapes:
  "call_shape ''bridge('' CHR '')''" "call_shape ''r.Register('' CHR '',''" "call_shape ''dispatcher.Register('' CHR '',''"
proof -
  have "call_shape (f @ ''('') c" if "f \<noteq> []" "word_class (hd f)" "c \<notin> set f" "c \<in> {CHR '','', CHR '')''}" for f c
    using that by (auto simp: call_shape_def)
  from this [of "''bridge''"] this [of "''r.Register''"] this [of "''dispatcher.Register''"]
  show "call_shape ''bridge('' CHR '')''" "call_shape ''r.Register('' CHR '',''" "call_shape ''dispatcher.Register('' CHR '',''"
    by (simp_all add: word_class_def)
qed

section \<open>What is scanned, in the text\<close>

lemma ref_locs_names:
  "fset (fmdom (ref_locs path s ms out)) = fset (fmdom out) \<union> (\<lambda>mi. group_text s mi 2) ` set ms"
  by (induction path s ms out rule: ref_locs.induct) (auto simp: Let_def fmlookup_dom_iff)

lemma group_of_match:
  assumes "s = u @ v" and "accepts (call_re fn close) p v (length u) ms"
  shows "\<exists>w1 w2 z. v = fn @ w1 @ ''protocol.'' @ group_text s (submatch_index (length u) ms) 2 @ w2 @ close # z \<and>
    spaces w1 \<and> spaces w2 \<and> cmd_name (group_text s (submatch_index (length u) ms) 2)"
proof -
  from assms(2) obtain w1 n w2 z where v: "v = fn @ w1 @ ''protocol.'' @ n @ w2 @ close # z"
    "spaces w1" "cmd_name n" "spaces w2" and
    ms: "ms = [length u + length fn + length w1 + 9, length u + length fn + length w1 + 9 + length n,
      length u + length fn + length w1 + 9 + length n + length w2 + 1]"
    unfolding accepts_call by blast
  let ?k = "length u + length fn + length w1 + 9"
  have "group_text s (submatch_index (length u) ms) 2 = slice ?k (?k + length n) s"
    unfolding ms group_text_def submatch_index_def by simp
  also have "\<dots> = n" unfolding assms(1) v(1) by (simp add: slice_def)
  finally show ?thesis using v by metis
qed

lemma span_unique:
  "a @ x # b = a' @ x' # b' \<Longrightarrow> list_all P a \<Longrightarrow> list_all P a' \<Longrightarrow> \<not> P x \<Longrightarrow> \<not> P x' \<Longrightarrow>
    a = a' \<and> b = b'"
proof (induction a arbitrary: a')
  case Nil
  then show ?case by (cases a') auto
next
  case (Cons y a)
  then show ?case by (cases a') auto
qed

lemma after_name:
  assumes "spaces w" and "close \<in> {CHR '','', CHR '')''}"
  obtains y ys where "w @ close # z = y # ys" and "\<not> word_class y"
  using assms by (cases w) (auto simp: spaces_def space_class_def word_class_def)

lemma call_unique:
  assumes "w1 @ ''protocol.'' @ n @ w2 @ close # z = w1' @ ''protocol.'' @ n' @ w2' @ close # z'"
    and "spaces w1" "spaces w1'" "spaces w2" "spaces w2'" "cmd_name n" "cmd_name n'"
    and "close \<in> {CHR '','', CHR '')''}"
  shows "n = n'"
proof -
  have "w1 @ CHR ''p'' # (''rotocol.'' @ n @ w2 @ close # z) =
      w1' @ CHR ''p'' # (''rotocol.'' @ n' @ w2' @ close # z')" using assms(1) by simp
  from span_unique [OF this, of space_class] assms(2,3) have "n @ w2 @ close # z = n' @ w2' @ close # z'"
    by (simp add: spaces_def space_class_def)
  moreover obtain y ys where "w2 @ close # z = y # ys" "\<not> word_class y" using after_name [OF assms(4,8)] .
  moreover obtain y' ys' where "w2' @ close # z' = y' # ys'" "\<not> word_class y'" using after_name [OF assms(5,8)] .
  ultimately show ?thesis
    using span_unique [of n y ys n' y' ys' word_class] assms(6,7) by (simp add: cmd_name_class)
qed

definition bounded :: "bool \<Rightarrow> regex \<Rightarrow> regex" where
  "bounded whole r = (if whole then WordBoundary # r else r)"

lemma accepts_bounded:
  assumes "call_shape fn close"
  shows "accepts (bounded whole (call_re fn close)) p s i ms \<longleftrightarrow>
    (whole \<longrightarrow> \<not> word_at p) \<and> accepts (call_re fn close) p s i ms"
proof -
  have "word_at (next_byte (f @ y))" if "f \<noteq> []" "word_class (hd f)" for f y
    using that by (cases f) (auto simp: word_at_def next_byte_def)
  then have "word_at (next_byte (fn @ y))" for y using assms unfolding call_shape_def by (elim conjE exE) simp
  then have "word_at (next_byte s)" if "accepts (call_re fn close) p s i ms"
    using that unfolding accepts_call by blast
  then show ?thesis by (auto simp: bounded_def)
qed

text \<open>A scan adds exactly the names that are called in the text.\<close>

lemma scanRefs_calls:
  assumes "call_shape fn close"
  shows "fset (fmdom (scanRefs path s (bounded whole (call_re fn close)) out)) =
    fset (fmdom out) \<union> calls whole fn close s"
proof -
  let ?r = "bounded whole (call_re fn close)"
  have close: "close \<in> {CHR '','', CHR '')''}" using assms by (simp add: call_shape_def)
  have sep: "separate ?r" using separate_call [OF assms] by (simp add: bounded_def separate_boundary)
  have "(\<lambda>mi. group_text s mi 2) ` set (find_all ?r 0 None s 0) = calls whole fn close s"
  proof (intro equalityI subsetI)
    fix n assume "n \<in> (\<lambda>mi. group_text s mi 2) ` set (find_all ?r 0 None s 0)"
    then obtain mi where n: "n = group_text s mi 2" and "found ?r None s 0 mi" by (auto dest: find_all_sound)
    then obtain u v ms where s: "s = u @ v" and acc: "accepts ?r (last_byte None u) v (length u) ms"
      and mi: "mi = submatch_index (length u) ms" by (auto simp: found_def)
    from acc have "whole \<longrightarrow> \<not> word_at (last_byte None u)" and "accepts (call_re fn close) (last_byte None u) v (length u) ms"
      unfolding accepts_bounded [OF assms] by simp_all
    with group_of_match [OF s this(2)] s show "n \<in> calls whole fn close s"
      unfolding n mi calls_def by blast
  next
    fix n assume "n \<in> calls whole fn close s"
    then obtain u w1 w2 z where n: "cmd_name n" "spaces w1" "spaces w2" "whole \<longrightarrow> \<not> word_at (last_byte None u)"
      and s: "s = u @ fn @ w1 @ ''protocol.'' @ n @ w2 @ close # z" unfolding calls_def by blast
    let ?v = "fn @ w1 @ ''protocol.'' @ n @ w2 @ close # z"
    have "\<exists>ms. accepts ?r (last_byte None u) ?v (0 + length u) ms"
      unfolding accepts_bounded [OF assms] accepts_call using n by blast
    then obtain ms where "accepts ?r (last_byte None u) ?v (0 + length u) ms"
      and m: "submatch_index (0 + length u) ms \<in> set (find_all ?r 0 None (u @ ?v) 0)"
      using find_all_complete [OF sep, of None u ?v 0 _ 0] by blast
    then have "accepts (call_re fn close) (last_byte None u) ?v (length u) ms"
      unfolding accepts_bounded [OF assms] by simp
    from group_of_match [OF s this] n have "group_text s (submatch_index (length u) ms) 2 = n"
      by (auto intro: call_unique [symmetric, OF _ _ _ _ _ _ _ close])
    with m s show "n \<in> (\<lambda>mi. group_text s mi 2) ` set (find_all ?r 0 None s 0)" by force
  qed
  then show ?thesis by (simp add: scanRefs_def ref_locs_names FindAllStringSubmatchIndex_def)
qed

text \<open>The names that are mapped with \<open>RegisterFullMethodCommand\<close> and a literal method.\<close>

definition register_calls :: "string \<Rightarrow> string set" where
  "register_calls t =
     {n. cmd_name n \<and> (\<exists>u w1 m w2 w3 w4 v. t = u @ ''protocol.RegisterFullMethodCommand('' @ w1 @ CHR 0x22 # m @
       CHR 0x22 # w2 @ '','' @ w3 @ ''protocol.'' @ n @ w4 @ CHR '')'' # v \<and>
       spaces w1 \<and> spaces w2 \<and> spaces w3 \<and> spaces w4 \<and> m \<noteq> [] \<and> list_all not_quote m)}"

lemma accepts_register:
  assumes "accepts register_re p s i ms"
  shows "\<exists>w1 m w2 v q. s = (''protocol.RegisterFullMethodCommand('' @ w1 @ CHR 0x22 # m @ CHR 0x22 # w2) @ v \<and>
    spaces w1 \<and> m \<noteq> [] \<and> list_all not_quote m \<and> spaces w2 \<and>
    accepts (call_re '','' CHR '')'') q v (i + length (''protocol.RegisterFullMethodCommand('' @ w1 @ CHR 0x22 # m @ CHR 0x22 # w2)) ms"
proof -
  let ?fn = "''protocol.RegisterFullMethodCommand(''" and ?c = "call_re '','' CHR '')''"
  have "accepts (lit fn @ [Many space_class, Lit CHR 0x22] @ many1 not_quote @ [Lit CHR 0x22] @ [Many space_class] @ c) p s i ms \<Longrightarrow>
    \<exists>w1 m w2 v q. s = (fn @ w1 @ CHR 0x22 # m @ CHR 0x22 # w2) @ v \<and>
      spaces w1 \<and> m \<noteq> [] \<and> list_all not_quote m \<and> spaces w2 \<and>
      accepts c q v (i + length (fn @ w1 @ CHR 0x22 # m @ CHR 0x22 # w2)) ms" for fn c
    by (fastforce simp: accepts.simps(4) spaces_def algebra_simps)
  from this [of ?fn ?c] assms show ?thesis unfolding register_re_def by blast
qed

lemma scanRefs_register:
  "fset (fmdom (scanRefs path s register_re out)) \<subseteq> fset (fmdom out) \<union> register_calls s"
proof -
  have "group_text s mi 2 \<in> register_calls s" if "found register_re None s 0 mi" for mi
  proof -
    from that obtain u v ms where s: "s = u @ v" and acc: "accepts register_re (last_byte None u) v (length u) ms"
      and mi: "mi = submatch_index (length u) ms" by (auto simp: found_def)
    from accepts_register [OF acc] obtain w1 m w2 v' q where
      v: "v = (''protocol.RegisterFullMethodCommand('' @ w1 @ CHR 0x22 # m @ CHR 0x22 # w2) @ v'" and
      w: "spaces w1" "m \<noteq> []" "list_all not_quote m" "spaces w2" and
      acc': "accepts (call_re '','' CHR '')'') q v'
        (length (u @ ''protocol.RegisterFullMethodCommand('' @ w1 @ CHR 0x22 # m @ CHR 0x22 # w2)) ms"
      by auto
    have "group_text s mi 2 = group_text s (submatch_index (length (u @ ''protocol.RegisterFullMethodCommand('' @
        w1 @ CHR 0x22 # m @ CHR 0x22 # w2)) ms) 2"
      using acc' unfolding mi accepts_call by (auto simp: group_text_def submatch_index_def)
    with group_of_match [OF _ acc', of s] w show ?thesis
      unfolding register_calls_def by (simp add: s v) blast
  qed
  then show ?thesis
    by (auto simp: scanRefs_def ref_locs_names FindAllStringSubmatchIndex_def dest!: find_all_sound)
qed

section \<open>Properties\<close>

text \<open>The three files agree: what the tool is for.\<close>

definition consistent_scan :: "bool \<Rightarrow> scanResult \<Rightarrow> bool" where
  "consistent_scan requireAll scan \<longleftrightarrow>
     fmdom (registered scan) \<noteq> {||} \<and> fmdom (registered scan) |\<subseteq>| fmdom (bridged scan) \<and>
     fmdom (bridged scan) = fmdom (handled scan) \<and> fmdom (bridged scan) |\<subseteq>| fmdom (cmdVals scan) \<and>
     (\<forall>v xs. fmlookup (byVal scan) v = Some xs \<longrightarrow> length xs \<le> 1) \<and>
     (requireAll \<longrightarrow> fmdom (cmdVals scan) |\<subseteq>| fmdom (bridged scan))"

lemma ref_issues_empty:
  "lists_sets order \<Longrightarrow> ref_issues order refs bad mk = [] \<longleftrightarrow> (\<forall>n. n |\<in>| fmdom refs \<longrightarrow> \<not> bad n)"
  by (auto simp: ref_issues_def lists_sets_def filter_empty_conv)

lemma lookup_None_iff: "fmlookup m n = None \<longleftrightarrow> n |\<notin>| fmdom m"
  by (auto intro: fmdom_notI dest: fmdom_notD)

lemma fmdom_empty_iff: "fmdom m = {||} \<longleftrightarrow> m = fmempty"
  by (metis fmdom_empty fmrestrict_fset_dom fmrestrict_fset_null)

lemma duplicates_empty:
  "(\<And>A. set (vorder A) = fset A) \<Longrightarrow> duplicateValueIssues vorder vals = [] \<longleftrightarrow>
    (\<forall>v xs. fmlookup vals v = Some xs \<longrightarrow> length xs \<le> 1)"
  by (auto simp: duplicateValueIssues_def filter_empty_conv fmlookup_dom_iff not_less) (metis fmdomI option.sel)+

lemma expectations_empty:
  assumes "\<And>A. set (vorder A) = fset A"
  shows "validateFixedExpectations vorder scan a b c = [] \<longleftrightarrow>
    \<not> (fmdom (cmdVals scan) = {||} \<and> fmdom (invalidDefs scan) = {||}) \<and>
    (\<forall>v xs. fmlookup (byVal scan) v = Some xs \<longrightarrow> length xs \<le> 1) \<and>
    fmdom (registered scan) \<noteq> {||} \<and> fmdom (bridged scan) \<noteq> {||} \<and> fmdom (handled scan) \<noteq> {||}"
  unfolding validateFixedExpectations_def fmdom_empty_iff append_is_Nil_conv duplicates_empty [OF assms]
  by simp

lemma all_wired_empty:
  assumes "lists_sets order"
  shows "validateAllDefinedAreWired order scan = [] \<longleftrightarrow>
    fmdom (cmdVals scan) |\<subseteq>| fmdom (bridged scan) \<and> fmdom (cmdVals scan) |\<subseteq>| fmdom (handled scan)"
  using assms
  by (auto simp: validateAllDefinedAreWired_def lists_sets_def Let_def lookup_None_iff split: if_splits)

lemma consistency_empty:
  assumes "lists_sets order"
  shows "validateConsistency order scan requireAll = [] \<longleftrightarrow>
    fmdom (registered scan) |\<subseteq>| fmdom (invalidDefs scan) |\<union>| fmdom (cmdVals scan) \<and>
    fmdom (bridged scan) |\<subseteq>| fmdom (invalidDefs scan) |\<union>| fmdom (cmdVals scan) \<and>
    fmdom (handled scan) |\<subseteq>| fmdom (invalidDefs scan) |\<union>| fmdom (cmdVals scan) \<and>
    fmdom (bridged scan) |\<subseteq>| fmdom (handled scan) \<and> fmdom (handled scan) |\<subseteq>| fmdom (bridged scan) \<and>
    fmdom (registered scan) |\<subseteq>| fmdom (bridged scan) \<and>
    (requireAll \<longrightarrow> fmdom (cmdVals scan) |\<subseteq>| fmdom (bridged scan) \<and>
       fmdom (cmdVals scan) |\<subseteq>| fmdom (handled scan))"
proof -
  have subset: "ref_issues order refs (\<lambda>n. fmlookup m n = None) mk = [] \<longleftrightarrow> fmdom refs |\<subseteq>| fmdom m"
    for refs :: refs and m :: refs and mk
    unfolding ref_issues_empty [OF assms] lookup_None_iff by blast
  have known: "ref_issues order refs (\<lambda>n. fmlookup (invalidDefs scan) n = None \<and> fmlookup (cmdVals scan) n = None) mk = [] \<longleftrightarrow>
      fmdom refs |\<subseteq>| fmdom (invalidDefs scan) |\<union>| fmdom (cmdVals scan)" for refs :: refs and mk
    unfolding ref_issues_empty [OF assms] lookup_None_iff by blast
  show ?thesis
    unfolding validateConsistency_def validateReferencesExist_def validateBridgedHaveHandlers_def
      validateHandlersAreBridged_def validateMappingsAreBridged_def Let_def append_is_Nil_conv subset known
    by (simp add: all_wired_empty [OF assms])
qed

lemma agreement:
  fixes C :: "string fset"
  assumes "I = {||}"
  shows "(\<not> (C = {||} \<and> I = {||}) \<and> D \<and> R \<noteq> {||} \<and> B \<noteq> {||} \<and> H \<noteq> {||}) \<and>
      R |\<subseteq>| I |\<union>| C \<and> B |\<subseteq>| I |\<union>| C \<and> H |\<subseteq>| I |\<union>| C \<and> B |\<subseteq>| H \<and> H |\<subseteq>| B \<and> R |\<subseteq>| B \<and>
      (q \<longrightarrow> C |\<subseteq>| B \<and> C |\<subseteq>| H) \<longleftrightarrow>
    R \<noteq> {||} \<and> R |\<subseteq>| B \<and> B = H \<and> B |\<subseteq>| C \<and> D \<and> (q \<longrightarrow> C |\<subseteq>| B)"
proof -
  have "B = H \<longleftrightarrow> B |\<subseteq>| H \<and> H |\<subseteq>| B" by blast
  then show ?thesis unfolding assms by auto
qed

text \<open>The texts that were read, and what the tool looks for in them.\<close>

definition readable :: "(string \<Rightarrow> go_err + string) \<Rightarrow> string list \<Rightarrow> string set" where
  "readable read_file paths = {s. \<exists>path \<in> set paths. read_file path = Inr s}"

definition bridge_calls :: "string \<Rightarrow> string set" where
  "bridge_calls t = calls True ''bridge('' CHR '')'' t \<union> calls True ''r.Register('' CHR '','' t"

definition handler_calls :: "string \<Rightarrow> string set" where
  "handler_calls t = calls False ''dispatcher.Register('' CHR '','' t"

lemma cmd_defs_refs:
  "cmd_defs path s ms out = (issues, out') \<Longrightarrow>
    bridged out' = bridged out \<and> handled out' = handled out \<and> registered out' = registered out"
  by (induction path s ms out arbitrary: issues rule: cmd_defs.induct)
     (auto simp: Let_def split: prod.splits sum.splits)

lemma decimal_defs_refs:
  "decimal_defs path s ms out = (issues, out') \<Longrightarrow>
    bridged out' = bridged out \<and> handled out' = handled out \<and> registered out' = registered out"
  by (induction path s ms out arbitrary: issues rule: decimal_defs.induct)
     (auto simp: Let_def split: prod.splits)

lemma pattern_refs:
  "registerMethodRe defaultPatterns = register_re"
  "bridgeCallRe defaultPatterns = bounded True (call_re ''bridge('' CHR '')'')"
  "routerRegisterRe defaultPatterns = bounded True (call_re ''r.Register('' CHR '','')"
  "dispatcherRegisterRe defaultPatterns = bounded False (call_re ''dispatcher.Register('' CHR '','')"
  by (simp_all add: defaultPatterns_def bounded_def)

lemma scanFixedFile_refs:
  assumes "scanFixedFile read_file defaultPatterns path dec out = (issues, out')"
  shows "fset (fmdom (bridged out')) = fset (fmdom (bridged out)) \<union> (\<Union>s \<in> readable read_file [path]. bridge_calls s) \<and>
    fset (fmdom (handled out')) = fset (fmdom (handled out)) \<union> (\<Union>s \<in> readable read_file [path]. handler_calls s) \<and>
    fset (fmdom (registered out')) \<subseteq> fset (fmdom (registered out)) \<union> (\<Union>s \<in> readable read_file [path]. register_calls s)"
proof (cases "read_file path")
  case (Inl e)
  with assms show ?thesis by (simp add: scanFixedFile_def readable_def)
next
  case (Inr s)
  let ?o0 = "out\<lparr>scanned := scanned out + 1\<rparr>"
  obtain i1 o1 where 1: "scanCmdDefs path s (cmdDefRe defaultPatterns) ?o0 = (i1, o1)" by fastforce
  obtain i2 o2 where 2: "(if dec then scanDecimalCmdDefs path s (cmdDefDecimalRe defaultPatterns) o1 else ([], o1)) = (i2, o2)"
    by fastforce
  have same: "bridged o2 = bridged out \<and> handled o2 = handled out \<and> registered o2 = registered out"
    using cmd_defs_refs [OF 1 [unfolded scanCmdDefs_def]] 2 decimal_defs_refs [of path s _ o1 i2 o2]
    by (auto simp: scanDecimalCmdDefs_def split: if_splits)
  have out': "out' = o2\<lparr>registered := scanRefs path s register_re (registered o2),
      bridged := scanRefs path s (bounded True (call_re ''r.Register('' CHR '',''))
        (scanRefs path s (bounded True (call_re ''bridge('' CHR '')'')) (bridged o2)),
      handled := scanRefs path s (bounded False (call_re ''dispatcher.Register('' CHR '','')) (handled o2)\<rparr>"
    using assms 1 2 by (auto simp: scanFixedFile_def Inr Let_def pattern_refs)
  show ?thesis
    unfolding out' using same scanRefs_register [of path s "registered out"]
    by (simp add: scanRefs_calls call_shapes readable_def Inr bridge_calls_def handler_calls_def Un_assoc)
qed

lemma readable_append: "readable read_file (xs @ ys) = readable read_file xs \<union> readable read_file ys"
  by (auto simp: readable_def)

lemma subset_Un_chain: "R3 \<subseteq> R2 \<union> C \<Longrightarrow> R2 \<subseteq> R1 \<union> B \<Longrightarrow> R1 \<subseteq> A \<Longrightarrow> R3 \<subseteq> A \<union> (B \<union> C)"
  by blast

lemma scan_files_refs:
  assumes "scan_files read_file a b c = (errs, scan)"
  shows "fset (fmdom (bridged scan)) = (\<Union>s \<in> readable read_file [a, b, c]. bridge_calls s) \<and>
    fset (fmdom (handled scan)) = (\<Union>s \<in> readable read_file [a, b, c]. handler_calls s) \<and>
    fset (fmdom (registered scan)) \<subseteq> (\<Union>s \<in> readable read_file [a, b, c]. register_calls s)"
proof -
  obtain i1 o1 where 1: "scanFixedFile read_file defaultPatterns a True empty_scan = (i1, o1)" by fastforce
  obtain i2 o2 where 2: "scanFixedFile read_file defaultPatterns b False o1 = (i2, o2)" by fastforce
  obtain i3 o3 where 3: "scanFixedFile read_file defaultPatterns c False o2 = (i3, o3)" by fastforce
  have "scan = o3" using assms 1 2 3 by (auto simp: scan_files_def Let_def)
  moreover have "(\<Union>s \<in> readable read_file [a, b, c]. F s) = (\<Union>s \<in> readable read_file [a]. F s) \<union>
      ((\<Union>s \<in> readable read_file [b]. F s) \<union> (\<Union>s \<in> readable read_file [c]. F s))" for F :: "string \<Rightarrow> string set"
    using readable_append [of read_file "[a]" "[b, c]"] readable_append [of read_file "[b]" "[c]"]
    by (simp add: UN_Un)
  moreover have "bridged empty_scan = fmempty" "handled empty_scan = fmempty" "registered empty_scan = fmempty"
    by (simp_all add: empty_scan_def)
  moreover note scanFixedFile_refs [OF 1] scanFixedFile_refs [OF 2] scanFixedFile_refs [OF 3]
  ultimately show ?thesis
    by (simp add: Un_assoc) (elim conjE, erule subset_Un_chain, assumption, assumption)
qed

text \<open>
  C40: the validator decides consistency: it exits with 0 exactly when all three files were read
  without a finding and agree (every mapped command is bridged, the bridged commands are exactly the
  handled ones, all of them are defined, no value is used twice and, with \<open>-require-all\<close>, every
  definition is wired); the values of the defined commands are then all different.  What it takes for
  bridged and handled are exactly the commands that the text of one of the files has as the first
  argument of \<open>bridge\<close> or \<open>r.Register\<close>, and of \<open>dispatcher.Register\<close>, in comments and strings too, and
  what it takes for mapped are such arguments of \<open>RegisterFullMethodCommand\<close>.
\<close>

theorem validator_decides:
  assumes "lists_sets order" and "\<And>A. set (vorder A) = fset A"
    and "scan_files read_file a b c = (errs, scan)"
  shows "(fst (validate_run order vorder read_file requireAll a b c) = 0 \<longleftrightarrow>
      errs = [] \<and> consistent_scan requireAll scan) \<and>
    (errs = [] \<and> consistent_scan requireAll scan \<longrightarrow>
      (\<forall>n n' v. fmlookup (cmdVals scan) n = Some v \<and> fmlookup (cmdVals scan) n' = Some v \<longrightarrow> n = n')) \<and>
    fset (fmdom (bridged scan)) = (\<Union>s \<in> readable read_file [a, b, c]. bridge_calls s) \<and>
    fset (fmdom (handled scan)) = (\<Union>s \<in> readable read_file [a, b, c]. handler_calls s) \<and>
    fset (fmdom (registered scan)) \<subseteq> (\<Union>s \<in> readable read_file [a, b, c]. register_calls s)"
proof -
  note inv = scan_files_inv [OF assms(3)]
  have run: "fst (validate_run order vorder read_file requireAll a b c) = 0 \<longleftrightarrow>
      errs = [] \<and> validateFixedExpectations vorder scan a b c = [] \<and> validateConsistency order scan requireAll = []"
    by (simp add: validate_run_def parseFixed_def assms(3) Let_def)
  have "errs = [] \<Longrightarrow> validateFixedExpectations vorder scan a b c = [] \<and>
      validateConsistency order scan requireAll = [] \<longleftrightarrow> consistent_scan requireAll scan"
    unfolding expectations_empty [OF assms(2)] consistency_empty [OF assms(1)] consistent_scan_def
    using inv by (intro agreement) simp
  moreover have "n = n'" if cs: "consistent_scan requireAll scan" and l: "fmlookup (cmdVals scan) n = Some v"
    "fmlookup (cmdVals scan) n' = Some v" for n n' v
  proof -
    obtain xs where xs: "fmlookup (byVal scan) v = Some xs" "n \<in> fst ` set xs"
      using val_invD [OF _ l(1)] inv by blast
    moreover obtain ys where "fmlookup (byVal scan) v = Some ys" "n' \<in> fst ` set ys"
      using val_invD [OF _ l(2)] inv by blast
    ultimately have n: "n \<in> fst ` set xs" "n' \<in> fst ` set xs" by simp_all
    have "length xs \<le> 1" using cs xs(1) by (simp add: consistent_scan_def)
    with n show ?thesis by (cases xs) auto
  qed
  ultimately have "fst (validate_run order vorder read_file requireAll a b c) = 0 \<longleftrightarrow>
      errs = [] \<and> consistent_scan requireAll scan"
    and "errs = [] \<and> consistent_scan requireAll scan \<longrightarrow> (\<forall>n n' v. fmlookup (cmdVals scan) n = Some v \<and>
      fmlookup (cmdVals scan) n' = Some v \<longrightarrow> n = n')"
    using run by blast+
  then show ?thesis by (rule conjI [OF _ conjI [OF _ scan_files_refs [OF assms(3)]]])
qed

section \<open>Examples\<close>

lemmas regex_eval = FindAllStringSubmatchIndex_def defaultPatterns_def lit_def many1_def grouped_def cmd_group_def
  def_re_def call_re_def register_re_def space_class_def digit_class_def hex_class_def word_class_def dot_class_def
  not_quote_def word_at_def next_byte_def submatch_index_def

text \<open>Lines of a source file, each with its number of tabs.\<close>

primrec source_text :: "(nat \<times> string) list \<Rightarrow> string" where
  "source_text [] = []"
| "source_text (l # ls) = replicate (fst l) (CHR 0x09) @ snd l @ CHR 0x0A # source_text ls"

text \<open>\<open>protocol/commands.go\<close>, and what the scan finds in it.\<close>

definition commands_go :: string where
  "commands_go = source_text
    [(0, ''package protocol''),
     (0, []),
     (0, ''// Protocol command IDs (docs/protocol.md examples).''),
     (0, ''const (''),
     (1, ''CmdPing        uint16 = 0x0001''),
     (1, ''CmdUserLogin   uint16 = 0x0101''),
     (1, ''CmdOrderCreate uint16 = 0x0201''),
     (0, '')'')]"

lemma commands_go_matches:
  "FindAllStringSubmatchIndex (cmdDefRe defaultPatterns) commands_go =
    [[79, 110, 80, 87, 104, 110], [111, 142, 112, 124, 136, 142], [143, 174, 144, 158, 168, 174]]"
  by (simp add: commands_go_def regex_eval)

text \<open>
  The \<open>\s*\<close> at the start of a definition also takes the empty lines before it, so a definition after an
  empty line is reported at the line of the first of them (here 2, and not 3).
\<close>

lemma empty_line_counts:
  "FindAllStringSubmatchIndex (cmdDefRe defaultPatterns)
    (source_text [(0, ''const (''), (0, []), (1, ''CmdX uint16 = 0x7''), (0, '')'')]) = [[8, 27, 10, 14, 24, 27]] \<and>
   lineNumber (source_text [(0, ''const (''), (0, []), (1, ''CmdX uint16 = 0x7''), (0, '')'')]) 8 = 2 \<and>
   lineNumber (source_text [(0, ''const (''), (0, []), (1, ''CmdX uint16 = 0x7''), (0, '')'')]) 10 = 3"
  by (simp add: regex_eval lineNumber_def)

text \<open>The input of the tool's own test: a decimal value is an issue of its own.\<close>

lemma decimal_reported:
  "scanDecimalCmdDefs f (source_text [(1, ''CmdFoo uint16 = 123 // should be hex'')]) (cmdDefDecimalRe defaultPatterns)
      empty_scan =
    ([DecimalIssue \<lparr>l_file = f, l_line = 1\<rparr> ''CmdFoo'' ''123''],
     empty_scan\<lparr>invalidDefs := fmupd ''CmdFoo'' \<lparr>l_file = f, l_line = 1\<rparr> fmempty\<rparr>)"
  by (simp add: scanDecimalCmdDefs_def regex_eval group_text_def slice_def lineNumber_def empty_scan_def Let_def)

text \<open>A call in a comment counts.\<close>

lemma commented_call: "''CmdX'' \<in> handler_calls ''// dispatcher.Register(protocol.CmdX, f)''"
proof -
  have "cmd_name ''CmdX''" by (simp add: cmd_name_def word_class_def)
  moreover have "''// dispatcher.Register(protocol.CmdX, f)'' =
      ''// '' @ ''dispatcher.Register('' @ [] @ ''protocol.'' @ ''CmdX'' @ [] @ CHR '','' # '' f)''" by simp
  moreover have "spaces []" by (simp add: spaces_def)
  ultimately show ?thesis unfolding handler_calls_def calls_def by blast
qed

text \<open>A repository of one command.\<close>

definition demo_files :: "string \<Rightarrow> go_err + string" where
  "demo_files f =
     (if f = ''c'' then Inr (source_text [(0, ''const (''), (1, ''CmdX uint16 = 0x7 // one''), (0, '')'')])
      else if f = ''s'' then
        Inr (source_text [(1, ''protocol.RegisterFullMethodCommand('' @ CHR 0x22 # ''A.X'' @ CHR 0x22 # '', protocol.CmdX)''),
          (1, ''bridge(protocol.CmdX)'')])
      else Inr (source_text [(1, ''dispatcher.Register(protocol.CmdX, nil)'')]))"

lemma demo_scan:
  "scan_files demo_files ''c'' ''s'' ''r'' = ([],
     \<lparr>cmdVals = fmupd ''CmdX'' 7 fmempty, cmdLoc = fmupd ''CmdX'' \<lparr>l_file = ''c'', l_line = 2\<rparr> fmempty,
      invalidDefs = fmempty, registered = fmupd ''CmdX'' \<lparr>l_file = ''s'', l_line = 1\<rparr> fmempty,
      bridged = fmupd ''CmdX'' \<lparr>l_file = ''s'', l_line = 2\<rparr> fmempty,
      handled = fmupd ''CmdX'' \<lparr>l_file = ''r'', l_line = 1\<rparr> fmempty, scanned = 3,
      byVal = fmupd 7 [(''CmdX'', \<lparr>l_file = ''c'', l_line = 2\<rparr>)] fmempty\<rparr>)"
  by (simp add: scan_files_def scanFixedFile_def scanCmdDefs_def scanDecimalCmdDefs_def scanRefs_def demo_files_def
      empty_scan_def regex_eval group_text_def slice_def lineNumber_def parse_eval Let_def
      numeral_2_eq_2 [symmetric])

theorem validator_decides_witness:
  "fst (validate_run key_order (\<lambda>A. sorted_list_of_set (fset A)) demo_files True ''c'' ''s'' ''r'') = 0"
  using validator_decides [OF key_order _ demo_scan, of "\<lambda>A. sorted_list_of_set (fset A)" True]
  by (simp add: consistent_scan_def)

end
