(* ===== verification/Spec2Isabelle.thy ===== *)
theory Spec2Isabelle
  imports Gateway Lifecycle Concurrent RateLimit Commands AclConcurrent AclRedisConcurrent AclHttp AdminIndex AdminAudit
    AdminPermissions Embedding ValidateCommands
begin

text \<open>
  Novagate: a verification library of the Go repository.

  \<^bold>\<open>The program.\<close>  Novagate is a TCP gateway with a small binary protocol, and two HTTP services beside
  it.  A peer sends frames (\<open>protocol/frame.go\<close>) whose bodies, possibly compressed
  (\<open>protocol/compress.go\<close>), hold messages (\<open>protocol/message.go\<close>).  The gateway process
  (\<open>cmd/server\<close>) reads its configuration, accepts connections (\<open>main.go\<close>) and serves each one in a
  loop (\<open>conn_handler.go\<close>) under a buffer quota and a token bucket (\<open>conn_ctx.go\<close>); a router
  (\<open>router.go\<close>) hands the messages to a dispatcher (\<open>internal/dispatcher\<close>) and its handlers
  (\<open>internal/service\<close>).  A process-wide table maps method names to commands
  (\<open>protocol/mapper.go\<close>).  A kitex codec (\<open>internal/codec\<close>) and a command-line client
  (\<open>cmd/client\<close>) speak the same protocol, and \<open>cmd/validate-commands\<close> checks that the commands are
  defined, mapped, bridged and handled alike.  The ACL service (\<open>services/acl\<close>) decides over HTTP which
  documents a user may read, with its grants in memory or in Redis.  The admin service
  (\<open>internal/admin\<close>, \<open>cmd/admin\<close>) manages users, documents and permissions in Redis and searches them
  with Milvus.

  \<^bold>\<open>How the code is rendered.\<close>  Structs are records, enums and tagged unions datatypes, bytes and
  protocol fields words of their width.  An \<open>int64\<close> that can overflow is an \<open>int\<close> under \<open>wrap64\<close>.
  A call ends as an \<open>outcome\<close>: \<open>Ok\<close>, \<open>Fail\<close> (an \<open>error\<close>), \<open>Panic\<close>, or \<open>Hang\<close> (it blocks forever).
  State is passed explicitly.  Two readings of the clock in one operation are two arguments.  Go's map
  iteration order is an argument that \<open>lists_sets\<close> constrains.  An operation under a mutex is one step;
  a lock that a panic leaves held is part of the state.

  \<^bold>\<open>Theories and code.\<close>

  \<^item> \<open>Prelude\<close>, \<open>GoErrors\<close>, \<open>GoStrings\<close>, \<open>GoNumbers\<close>, \<open>GoFlag\<close>, \<open>GoRegexp\<close>: outcomes, big-endian words,
    wrapping integers, \<open>error\<close> values, and what the code uses of Go's \<open>strings\<close>, \<open>strconv\<close>, \<open>flag\<close> and
    \<open>regexp\<close>.  \<open>GoRegexp\<close> relates the search of the package to what a match is.
  \<^item> \<open>Streaming\<close>, \<open>Limits\<close>: the interfaces of a decoder over a byte stream, a rate limiter and a byte
    quota, as locales.  The first proves that the frames of a stream do not depend on how it is cut; the
    second bounds what a sequence of calls lets through.
  \<^item> \<open>Frame\<close>, \<open>Message\<close>, \<open>Compress\<close>: \<open>protocol/frame.go\<close>, \<open>message.go\<close> and \<open>compress.go\<close> with their
    round trips in both directions, the inputs that wait for more, and the bound on decompressed
    bodies.  \<open>Frame\<close> interprets the stream decoder.
  \<^item> \<open>Mapper\<close>: \<open>protocol/mapper.go\<close>, with the reachable states as an inductive predicate.
  \<^item> \<open>ConnContext\<close>, \<open>RateLimit\<close>: \<open>conn_ctx.go\<close>; \<open>ConnContext\<close> interprets the rate limiter and the byte
    quota, whose lemmas bound what is let through, and \<open>RateLimit\<close> has what a peer can count on.
  \<^item> \<open>Router\<close>: \<open>router.go\<close>, the dispatcher, the business handlers and \<open>setup\<close>.
  \<^item> \<open>ConnHandler\<close>: \<open>conn_handler.go\<close> over a \<open>world\<close> that holds the results of the reads and writes to
    come, the bytes sent and the application's state.
  \<^item> \<open>ConnSpec\<close>, \<open>Connection\<close>, \<open>Session\<close>: the contract of a connection, which serves a whole byte
    stream at once; the proof that the handler refines it for every segmentation; and from there the
    memory bound, the frames that can never be served, the answers to a session and the answer that
    panics.
  \<^item> \<open>Server\<close>, \<open>ServerConfig\<close>, \<open>Gateway\<close>: \<open>main.go\<close>, \<open>cmd/server/config.go\<close> and
    \<open>cmd/server/main.go\<close>: accepting, the goroutine around a connection, where each setting comes from,
    and the whole process.
  \<^item> \<open>Lifecycle\<close>, \<open>Concurrent\<close>: the goroutines.  \<open>Lifecycle\<close> has the accept loop, the watchers of the
    listener and of the connections and the servers of the connections as a step relation under
    arbitrary interleaving and cancellation, the steps of the goroutines apart from those of the
    environment (peers, \<open>Accept\<close>, the cancellation): a connection blocked in a read or write goes on only
    by its peer or by being closed.  It has the invariant of the reachable states and, for weakly fair
    runs, the end of the shutdown by two measures.  \<open>Concurrent\<close> cuts \<open>handleConn\<close> into steps (a read, a frame, a
    compaction), shows that they do what \<open>handleConn\<close> does, and interleaves many connections over the
    shared state behind the router.
  \<^item> \<open>Codec\<close>, \<open>Client\<close>: \<open>internal/codec/message_codec.go\<close> and \<open>cmd/client/main.go\<close>; the client is
    also run against the gateway.
  \<^item> \<open>ValidateCommands\<close>: \<open>cmd/validate-commands/main.go\<close>, against a specification of agreement
    and of what a reference to a command is in a text.
  \<^item> \<open>AclStore\<close>: the \<open>Store\<close> interface as a record of operations.  Its contract is the locale
    \<open>acl_contract\<close> (with \<open>acl_listing\<close> for stores that list), stated against the history of operations:
    the last word about a document's visibility and about a grant decides.
  \<^item> \<open>AclMemory\<close>, \<open>AclRedis\<close>: \<open>inmemory_store.go\<close> and \<open>redis_store.go\<close>; both satisfy the contract, one
    at nanoseconds and the other at whole seconds, and agree when expiries are whole seconds.  The
    contract of the Redis store has two cases: with the two Lua scripts in the server's script cache it
    heeds every operation, without them (nothing in the repository loads them) every one but \<open>Revoke\<close>.
  \<^item> \<open>AclHandlers\<close>, \<open>AclService\<close>: \<open>services/acl/biz/handler/acl.go\<close> over any store, and start-up
    (\<open>services/acl/main.go\<close>); sessions of requests are followed inside \<open>acl_listing\<close> once, for both
    stores.
  \<^item> \<open>AclConcurrent\<close>: the same handlers as programs over the calls of the store, and requests
    interleaved at these calls, again inside \<open>acl_listing\<close>.
  \<^item> \<open>AclRedisConcurrent\<close>: the operations of the Redis store as programs over single Redis commands,
    interleaved on one server: what no interleaving can do (invent access), and what one can (lose a
    grant).
  \<^item> \<open>AclConfig\<close>, \<open>AclStats\<close>, \<open>AclHttp\<close>: \<open>services/acl/config.go\<close>, \<open>biz/handler/stats.go\<close>, and the routes
    of the service (\<open>router.go\<close>, \<open>router_gen.go\<close>, \<open>biz/router\<close>, \<open>biz/handler/ping.go\<close>).
  \<^item> \<open>AdminSearch\<close>, \<open>Embedding\<close>, \<open>AdminService\<close>, \<open>AdminSpec\<close>, \<open>AdminServer\<close>:
    \<open>internal/admin/search.go\<close>, \<open>service.go\<close> and the routes of \<open>cmd/admin/main.go\<close>.  \<open>AdminSpec\<close> has the pages and what the admin
    service does to the ACL service's data on a shared Redis; \<open>AdminServer\<close> refines whole sessions of
    requests to a map from keys to stored texts, inside the locale \<open>admin_redis\<close>; what a request that
    only reads leaves alone is proved once, in \<open>read_observer\<close> and \<open>redis_observer\<close>.
  \<^item> \<open>AdminIndex\<close>, \<open>AdminAudit\<close>, \<open>AdminPermissions\<close>: three more views of the same sessions, in extensions of
    \<open>admin_redis\<close>: the Milvus collections hold exactly the stored ids (and what the search for documents
    then finds), the audit log holds exactly the accepted changes, and the sets of permissions and their
    listing are a map from tenants and users to documents.
  \<^item> \<open>Commands\<close>: the command lines and \<open>main\<close> of \<open>cmd/client\<close>, \<open>cmd/admin\<close> and \<open>services/acl\<close>.

  \<^bold>\<open>Bounds, loops and fuel.\<close>  Frame bodies are at most \<open>MaxFrameBody\<close> (1 MiB), a connection buffers at
  most 256 KiB and takes at most 100 frames at once; these are the code's constants, and the
  properties of connections are stated within them or say what happens beyond.  Every loop of the
  program is a total function, by structural recursion or with a measure, over the finite list of what
  the outside world delivers; what is still to be waited for when the list ends is \<open>Hang\<close>.  The one
  exception is the sampling loop of \<open>AclStats\<close>, a \<open>partial_function\<close> whose termination is a theorem
  about any clock that reaches the deadline.  No definition uses fuel; the number of steps that a
  schedule must give each connection in \<open>gateway_concurrent\<close> is shown to exist, not chosen.

  \<^bold>\<open>Parameters.\<close>  What is not in the repository is an argument: gzip, kitex's buffer and message, hertz's
  binding, UUID and time parsing, \<open>time.ParseDuration\<close>, the file system, the YAML parser and
  \<open>.env\<close> loader, JSON, \<open>strings.ToLower\<close>, \<open>fmt.Sscanf\<close>,
  \<open>float64\<close> arithmetic of the statistics, \<open>float32\<close> arithmetic of the embedding, the Redis server and
  the Milvus client.  What the properties assume of Redis are the hypotheses \<open>redis_laws\<close>, \<open>admin_laws\<close>,
  \<open>admin_store_laws\<close>, \<open>log_laws\<close> and \<open>perm_laws\<close>, and of Milvus \<open>milvus_laws\<close>: the documented effect and reply of
  each command used.  Each is proved of a concrete server.

  \<^bold>\<open>Not modelled.\<close>  Contexts with timeouts other than as a closed connection or a canceled server, the
  memory model below the steps of \<open>Lifecycle\<close> and \<open>Concurrent\<close> (the state they share is guarded by
  mutexes and changed in one step each), log and printed output, listeners and dialling; the file
  server behind the other paths of \<open>cmd/admin\<close>; how hertz matches a path to a route;
  \<open>SearchService.Close\<close>; the accessors \<open>Client\<close> and \<open>Prefix\<close> of the Redis store; the files without
  code.
\<close>

end
